(* ===== verification/Safwk_Prelude.thy ===== *)
theory Safwk_Prelude
  imports Main "HOL-Library.List_Lexorder" "HOL-Library.Product_Lexorder" "HOL-Library.Char_ord"
    "HOL-Library.Word" "HOL-Library.Stream"
begin

text \<open>
  The vocabulary the component theories share.

  \<^item> Names. A data member \<open>x_\<close> of a class is the record field \<open>xM\<close>, since a name of the
    logic does not end in an underscore; functions, methods and enumerators keep their names.
  \<^item> Machine integers. The signed widths the sources use are mathematical integers with the
    two's complement wrap-around written out (\<open>s32\<close>, \<open>s64\<close>); unsigned quantities whose
    arithmetic can wrap are words of HOL-Library.Word.
  \<^item> Undefined behaviour. A C++ operation whose behaviour is undefined (dereferencing the end
    iterator, reading the back of an empty list, indexing an empty vector) is the value
    \<open>Inl e\<close> of a result type \<open>ub + 'a\<close>, so that its absence has to be proved.
  \<^item> \<open>std::map\<close>. An ordered map is the list of its entries in key order (\<open>smap\<close>), which is the
    order a range-for visits them in. Its contract is the locale \<open>ordered_map\<close>, interpreted
    at the end of the theory.
  \<^item> \<open>std::list\<close> is a HOL list; \<open>splice_front\<close> is the splice of one element to the front.
  \<^item> Time. A clock is the stream of the values that successive calls of \<open>GetTickCount\<close> return.
\<close>

named_theorems smap_simps \<open>equations of the ordered-map operations under their invariant\<close>
named_theorems width_simps \<open>range and identity facts of the fixed-width integers\<close>
named_theorems ok_intros \<open>preservation of the invariants of the components\<close>

section \<open>Fixed-width signed integers\<close>

definition s32 :: "int \<Rightarrow> int" where
  "s32 x = (x + 2 ^ 31) mod 2 ^ 32 - 2 ^ 31"

definition s64 :: "int \<Rightarrow> int" where
  "s64 x = (x + 2 ^ 63) mod 2 ^ 64 - 2 ^ 63"

definition INT64_MAX :: int where
  "INT64_MAX = 2 ^ 63 - 1"

lemma s32_id [width_simps]: "- (2 ^ 31) \<le> x \<Longrightarrow> x < 2 ^ 31 \<Longrightarrow> s32 x = x"
  by (simp add: s32_def)

lemma s32_range [width_simps]: "- (2 ^ 31) \<le> s32 x \<and> s32 x < 2 ^ 31"
  using pos_mod_bound [of "2 ^ 32" "x + 2 ^ 31"] pos_mod_sign [of "2 ^ 32" "x + 2 ^ 31"]
  by (simp add: s32_def)

lemma s64_id [width_simps]: "- (2 ^ 63) \<le> x \<Longrightarrow> x < 2 ^ 63 \<Longrightarrow> s64 x = x"
  by (simp add: s64_def)

lemma s64_range [width_simps]: "- (2 ^ 63) \<le> s64 x \<and> s64 x < 2 ^ 63"
  using pos_mod_bound [of "2 ^ 64" "x + 2 ^ 63"] pos_mod_sign [of "2 ^ 64" "x + 2 ^ 63"]
  by (simp add: s64_def)

lemma s64_wrap_above: "2 ^ 63 \<le> x \<Longrightarrow> x < 2 ^ 63 + 2 ^ 64 \<Longrightarrow> s64 x = x - 2 ^ 64"
proof -
  assume a: "2 ^ 63 \<le> x" "x < 2 ^ 63 + 2 ^ 64"
  have "(x + 2 ^ 63) mod 2 ^ 64 = (x + 2 ^ 63 - 2 ^ 64) mod 2 ^ 64"
    by (metis minus_mod_self2)
  also have "\<dots> = x + 2 ^ 63 - 2 ^ 64"
    using a by (intro mod_pos_pos_trivial) auto
  finally show ?thesis by (simp add: s64_def)
qed

section \<open>Undefined behaviour as a value\<close>

datatype ub = BadIterator | EmptyAccess | IntOverflow | UncaughtException | InvalidPointer

definition ub_bind :: "ub + 'a \<Rightarrow> ('a \<Rightarrow> ub + 'b) \<Rightarrow> ub + 'b" where
  "ub_bind r f = (case r of Inl e \<Rightarrow> Inl e | Inr x \<Rightarrow> f x)"

lemma ub_bind_simps [simp]:
  "ub_bind (Inl e) f = Inl e"
  "ub_bind (Inr x) f = f x"
  by (simp_all add: ub_bind_def)

lemma ub_bind_Inr: "ub_bind r f = Inr y \<longleftrightarrow> (\<exists>x. r = Inr x \<and> f x = Inr y)"
  by (cases r) auto

lemma ub_bind_Inl: "ub_bind r f = Inl e \<longleftrightarrow> r = Inl e \<or> (\<exists>x. r = Inr x \<and> f x = Inl e)"
  by (cases r) auto

section \<open>UTF-16 strings\<close>

type_synonym u16string = "16 word list"

section \<open>Clocks\<close>

type_synonym clock = "int stream"

definition GetTickCount :: "clock \<Rightarrow> int \<times> clock" where
  "GetTickCount clk = (shd clk, stl clk)"

section \<open>Lists\<close>

definition splice_front :: "'a \<Rightarrow> 'a list \<Rightarrow> ub + 'a list" where
  "splice_front x xs = (if x \<in> set xs then Inr (x # remove1 x xs) else Inl BadIterator)"

lemma splice_front_ok: "x \<in> set xs \<Longrightarrow> splice_front x xs = Inr (x # remove1 x xs)"
  by (simp add: splice_front_def)

lemma distinct_remove1_filter: "distinct xs \<Longrightarrow> remove1 x xs = filter (\<lambda>y. y \<noteq> x) xs"
  by (simp add: distinct_remove1_removeAll removeAll_filter_not_eq) (metis (mono_tags))

lemma distinct_map_filter_pairs:
  "distinct (map fst xs) \<Longrightarrow> distinct (map fst (filter P xs))"
  by (induction xs) auto

lemma find_map: "find R (map f xs) = map_option f (find (\<lambda>x. R (f x)) xs)"
  by (induction xs) auto

section \<open>Ordered maps\<close>

type_synonym ('k, 'v) smap = "('k \<times> 'v) list"

definition smap_ok :: "('k::linorder, 'v) smap \<Rightarrow> bool" where
  "smap_ok m = sorted_wrt (<) (map fst m)"

definition smap_find :: "('k, 'v) smap \<Rightarrow> 'k \<Rightarrow> 'v option" where
  "smap_find m k = map_of m k"

fun smap_assign :: "'k::linorder \<Rightarrow> 'v \<Rightarrow> ('k, 'v) smap \<Rightarrow> ('k, 'v) smap" where
  "smap_assign k v [] = [(k, v)]"
| "smap_assign k v ((k', v') # m) =
     (if k < k' then (k, v) # (k', v') # m
      else if k = k' then (k, v) # m
      else (k', v') # smap_assign k v m)"

definition smap_emplace :: "'k::linorder \<Rightarrow> 'v \<Rightarrow> ('k, 'v) smap \<Rightarrow> ('k, 'v) smap" where
  "smap_emplace k v m = (case smap_find m k of None \<Rightarrow> smap_assign k v m | Some _ \<Rightarrow> m)"

definition smap_erase :: "'k \<Rightarrow> ('k, 'v) smap \<Rightarrow> ('k, 'v) smap" where
  "smap_erase k m = filter (\<lambda>(k', v). k' \<noteq> k) m"

definition smap_keys :: "('k, 'v) smap \<Rightarrow> 'k set" where
  "smap_keys m = fst ` set m"

text \<open>
  The contract of \<open>std::map\<close> as the components use it: lookup after insertion and erasure, the
  invariant, and that the entries are exactly the graph of the lookup with no key twice.
\<close>

locale ordered_map =
  fixes invar :: "'m \<Rightarrow> bool"
    and lookup :: "'m \<Rightarrow> 'k \<Rightarrow> 'v option"
    and assign :: "'k \<Rightarrow> 'v \<Rightarrow> 'm \<Rightarrow> 'm"
    and erase :: "'k \<Rightarrow> 'm \<Rightarrow> 'm"
    and entries :: "'m \<Rightarrow> ('k \<times> 'v) list"
  assumes invar_assign: "invar m \<Longrightarrow> invar (assign k v m)"
    and invar_erase: "invar m \<Longrightarrow> invar (erase k m)"
    and lookup_assign: "invar m \<Longrightarrow> lookup (assign k v m) k' = (if k' = k then Some v else lookup m k')"
    and lookup_erase: "invar m \<Longrightarrow> lookup (erase k m) k' = (if k' = k then None else lookup m k')"
    and entries_distinct: "invar m \<Longrightarrow> distinct (map fst (entries m))"
    and entries_lookup: "invar m \<Longrightarrow> (k, v) \<in> set (entries m) \<longleftrightarrow> lookup m k = Some v"
begin

lemma entries_keys: "invar m \<Longrightarrow> fst ` set (entries m) = dom (lookup m)"
  by (auto simp: entries_lookup image_iff Bex_def domIff)

lemma finite_keys: "invar m \<Longrightarrow> finite (dom (lookup m))"
  by (simp flip: entries_keys)

lemma size_card: "invar m \<Longrightarrow> length (entries m) = card (dom (lookup m))"
  using distinct_card [OF entries_distinct, of m] by (simp flip: entries_keys)

lemma dom_assign: "invar m \<Longrightarrow> dom (lookup (assign k v m)) = insert k (dom (lookup m))"
  by (auto simp: lookup_assign split: if_splits)

lemma dom_erase: "invar m \<Longrightarrow> dom (lookup (erase k m)) = dom (lookup m) - {k}"
  by (auto simp: lookup_erase split: if_splits)

lemma size_assign:
  "invar m \<Longrightarrow> length (entries (assign k v m)) =
     (if lookup m k = None then Suc (length (entries m)) else length (entries m))"
  by (auto simp: size_card invar_assign dom_assign finite_keys insert_absorb domIff)

lemma size_erase:
  "invar m \<Longrightarrow> length (entries (erase k m)) =
     (if lookup m k = None then length (entries m) else length (entries m) - 1)"
  by (auto simp: size_card invar_erase dom_erase finite_keys domIff)

end

subsection \<open>The entry lists are such a map\<close>

lemma smap_ok_Nil [simp]: "smap_ok []"
  by (simp add: smap_ok_def)

lemma smap_ok_Cons: "smap_ok ((k, v) # m) \<longleftrightarrow> smap_ok m \<and> (\<forall>k' \<in> fst ` set m. k < k')"
  by (auto simp: smap_ok_def)

lemma smap_ok_distinct: "smap_ok m \<Longrightarrow> distinct (map fst m)"
  by (simp add: smap_ok_def strict_sorted_iff)

lemma smap_assign_keys: "fst ` set (smap_assign k v m) = insert k (fst ` set m)"
  by (induction k v m rule: smap_assign.induct) auto

lemma smap_ok_assign: "smap_ok m \<Longrightarrow> smap_ok (smap_assign k v m)"
proof (induction k v m rule: smap_assign.induct)
  case (2 k v k' v' m)
  then show ?case by (force simp: smap_ok_Cons smap_assign_keys)
qed (simp add: smap_ok_Cons)

lemma smap_find_assign_raw:
  "smap_ok m \<Longrightarrow> smap_find (smap_assign k v m) k' = (if k' = k then Some v else smap_find m k')"
proof (induction k v m rule: smap_assign.induct)
  case (2 k v k0 v0 m)
  then show ?case by (auto simp: smap_find_def smap_ok_Cons)
qed (simp add: smap_find_def)

lemma smap_find_assign_same [simp]: "smap_find (smap_assign k v m) k = Some v"
  by (induction k v m rule: smap_assign.induct) (auto simp: smap_find_def)

lemma smap_ok_filter: "smap_ok m \<Longrightarrow> smap_ok (filter P m)"
  by (induction m) (auto simp: smap_ok_Cons)

lemma smap_ok_erase: "smap_ok m \<Longrightarrow> smap_ok (smap_erase k m)"
  by (simp add: smap_erase_def smap_ok_filter)

lemma smap_find_erase_raw:
  "smap_find (smap_erase k m) k' = (if k' = k then None else smap_find m k')"
  by (induction m) (auto simp: smap_find_def smap_erase_def)

lemma smap_find_entry: "smap_ok m \<Longrightarrow> (k, v) \<in> set m \<longleftrightarrow> smap_find m k = Some v"
  by (simp add: smap_find_def map_of_eq_Some_iff smap_ok_distinct)

interpretation sm: ordered_map smap_ok smap_find smap_assign smap_erase "\<lambda>m. m"
  by unfold_locales
    (simp_all add: smap_ok_assign smap_ok_erase smap_find_assign_raw
      smap_find_erase_raw smap_ok_distinct smap_find_entry)

lemma smap_find_Nil [simp]: "smap_find [] k = None"
  by (simp add: smap_find_def)

lemma smap_ok_emplace: "smap_ok m \<Longrightarrow> smap_ok (smap_emplace k v m)"
  by (simp add: smap_emplace_def sm.invar_assign split: option.split)

lemma smap_find_emplace:
  "smap_ok m \<Longrightarrow> smap_find (smap_emplace k v m) k' =
     (if k' = k \<and> smap_find m k = None then Some v else smap_find m k')"
  by (auto simp: smap_emplace_def sm.lookup_assign split: option.split)

lemma smap_keys_find: "k \<in> smap_keys m \<longleftrightarrow> smap_find m k \<noteq> None"
  by (simp add: smap_keys_def smap_find_def map_of_eq_None_iff)

lemma smap_keys_dom: "smap_keys m = dom (smap_find m)"
  by (auto simp: smap_keys_find)

lemma smap_keys_Nil [simp]: "smap_keys [] = {}"
  by (simp add: smap_keys_def)

lemma smap_size_card: "smap_ok m \<Longrightarrow> length m = card (smap_keys m)"
  by (simp add: smap_keys_dom sm.size_card)

lemma smap_keys_assign: "smap_ok m \<Longrightarrow> smap_keys (smap_assign k v m) = insert k (smap_keys m)"
  by (simp add: smap_keys_dom sm.dom_assign)

lemma smap_keys_erase: "smap_keys (smap_erase k m) = smap_keys m - {k}"
  by (auto simp: smap_keys_def smap_erase_def)

lemma smap_keys_emplace: "smap_ok m \<Longrightarrow> smap_keys (smap_emplace k v m) = insert k (smap_keys m)"
  by (auto simp: smap_keys_find smap_find_emplace split: if_splits)

lemma smap_find_erase: "smap_find (smap_erase k m) k' = (if k' = k then None else smap_find m k')"
  by (rule smap_find_erase_raw)

lemmas [smap_simps] = sm.invar_assign sm.invar_erase sm.lookup_assign smap_find_erase
  smap_ok_emplace smap_find_emplace smap_keys_assign smap_keys_erase smap_keys_emplace

end
