(* ===== verification/Expire_Lru_Cache.thy ===== *)
theory Expire_Lru_Cache
  imports Safwk_Prelude
begin

text \<open>
  The cache template \<open>ExpireLruCache\<close> of \<open>interfaces/innerkits/safwk/expire_lru_cache.h\<close>.

  The record \<open>cache\<close> has the fields of the class: the capacity, the expiry interval, the two
  ordered maps \<open>dataM\<close> and \<open>timestampM\<close> and the list \<open>keysM\<close>, most recently used first. Every
  operation runs under the lock of the object, so it is a function of the object's state; each
  construction of a \<open>Timestamp\<close> takes the next reading of the clock. Uses of an end iterator and
  of the back of an empty list are undefined behaviour and are returned as such.

  \<open>cache_ok\<close> is the class invariant; \<open>abs_cache\<close> reads a cache as a list of entries with their
  insertion times, most recently used first, and the \<open>lru_\<close> functions are the specification on
  such lists that the operations are shown to implement.
\<close>

section \<open>The class\<close>

record ('k, 'v) cache =
  sizeM :: nat
  expireTimeMilliSecM :: int
  dataM :: "('k, 'v) smap"
  timestampM :: "('k, int) smap"
  keysM :: "'k list"

definition DEFAULT_EXPIRE_TIME :: int where
  "DEFAULT_EXPIRE_TIME = 1000"

definition ExpireLruCache :: "nat \<Rightarrow> int \<Rightarrow> ('k, 'v) cache" where
  "ExpireLruCache cacheSize expireTimeSec =
     \<lparr>sizeM = (if cacheSize > 0 then cacheSize else 1),
      expireTimeMilliSecM = (if expireTimeSec < 0 then DEFAULT_EXPIRE_TIME else expireTimeSec),
      dataM = [], timestampM = [], keysM = []\<rparr>"

definition IsExpired :: "int \<Rightarrow> int \<Rightarrow> clock \<Rightarrow> bool \<times> clock" where
  "IsExpired ts interval clk = (let (now, clk) = GetTickCount clk in (s64 (now - ts) > interval, clk))"

fun clear_loop :: "('k::linorder \<times> int) list \<Rightarrow> bool \<Rightarrow> ('k, 'v) cache \<Rightarrow> clock
    \<Rightarrow> bool \<times> ('k, 'v) cache \<times> clock" where
  "clear_loop [] ifClear c clk = (ifClear, c, clk)"
| "clear_loop ((k, ts) # rest) ifClear c clk =
     (let (expired, clk) = IsExpired ts (expireTimeMilliSecM c) clk in
      if expired then
        clear_loop rest True
          (c\<lparr>keysM := removeAll k (keysM c), dataM := smap_erase k (dataM c),
             timestampM := smap_erase k (timestampM c)\<rparr>) clk
      else clear_loop rest ifClear c clk)"

definition DoClearExpiredCache :: "('k::linorder, 'v) cache \<Rightarrow> clock \<Rightarrow> bool \<times> ('k, 'v) cache \<times> clock" where
  "DoClearExpiredCache c clk = clear_loop (timestampM c) False c clk"

definition evict_lru :: "('k::linorder, 'v) cache \<Rightarrow> ub + ('k, 'v) cache" where
  "evict_lru c =
     (if keysM c = [] then Inl EmptyAccess
      else let lruKey = last (keysM c) in
        Inr (c\<lparr>dataM := smap_erase lruKey (dataM c), timestampM := smap_erase lruKey (timestampM c),
               keysM := butlast (keysM c)\<rparr>))"

definition DoAdd :: "'k::linorder \<Rightarrow> 'v \<Rightarrow> ('k, 'v) cache \<Rightarrow> clock \<Rightarrow> ub + ('k, 'v) cache \<times> clock" where
  "DoAdd key value c clk =
     (let (now, clk) = GetTickCount clk; curSize = length (dataM c) in
      if smap_find (dataM c) key \<noteq> None then
        if smap_find (timestampM c) key = None then Inl BadIterator
        else ub_bind (splice_front key (keysM c)) (\<lambda>ks.
          Inr (c\<lparr>dataM := smap_emplace key value (smap_erase key (dataM c)),
                 timestampM := smap_emplace key now (smap_erase key (timestampM c)),
                 keysM := ks\<rparr>, clk))
      else
        ub_bind
          (if curSize \<ge> sizeM c then
             (let (ifClearExpiredCache, c, clk) =
                (if expireTimeMilliSecM c > 0 then DoClearExpiredCache c clk else (False, c, clk))
              in if \<not> ifClearExpiredCache
                 then ub_bind (evict_lru c) (\<lambda>c. Inr (c, clk))
                 else Inr (c, clk))
           else Inr (c, clk))
          (\<lambda>(c, clk). Inr (c\<lparr>dataM := smap_emplace key value (dataM c),
                              timestampM := smap_emplace key now (timestampM c),
                              keysM := key # keysM c\<rparr>, clk)))"

definition DoGet :: "'k::linorder \<Rightarrow> ('k, 'v) cache \<Rightarrow> clock \<Rightarrow> ub + 'v option \<times> ('k, 'v) cache \<times> clock" where
  "DoGet key c clk =
     (case smap_find (dataM c) key of
        None \<Rightarrow> Inr (None, c, clk)
      | Some value \<Rightarrow>
          ub_bind
            (if expireTimeMilliSecM c > 0 then
               (case smap_find (timestampM c) key of
                  None \<Rightarrow> Inl BadIterator
                | Some ts \<Rightarrow> Inr (IsExpired ts (expireTimeMilliSecM c) clk))
             else Inr (False, clk))
            (\<lambda>(expired, clk).
               if expired then
                 Inr (None, c\<lparr>dataM := smap_erase key (dataM c),
                              timestampM := smap_erase key (timestampM c),
                              keysM := removeAll key (keysM c)\<rparr>, clk)
               else ub_bind (splice_front key (keysM c)) (\<lambda>ks. Inr (Some value, c\<lparr>keysM := ks\<rparr>, clk))))"

definition DoRemove :: "'k::linorder \<Rightarrow> ('k, 'v) cache \<Rightarrow> ('k, 'v) cache" where
  "DoRemove key c =
     c\<lparr>keysM := removeAll key (keysM c), dataM := smap_erase key (dataM c),
       timestampM := smap_erase key (timestampM c)\<rparr>"

definition DoClear :: "('k, 'v) cache \<Rightarrow> ('k, 'v) cache" where
  "DoClear c = c\<lparr>dataM := [], timestampM := [], keysM := []\<rparr>"

text \<open>The public operations are the private ones under the lock; a client's calls in order are a run.\<close>

datatype ('k, 'v) cache_op = Add 'k 'v | Get 'k | Remove 'k | Clear

fun cache_call :: "('k::linorder, 'v) cache_op \<Rightarrow> ('k, 'v) cache \<times> clock \<Rightarrow> ub + ('k, 'v) cache \<times> clock" where
  "cache_call (Add k v) (c, clk) = DoAdd k v c clk"
| "cache_call (Get k) (c, clk) = ub_bind (DoGet k c clk) (\<lambda>(r, s). Inr s)"
| "cache_call (Remove k) (c, clk) = Inr (DoRemove k c, clk)"
| "cache_call Clear (c, clk) = Inr (DoClear c, clk)"

fun cache_run :: "('k::linorder, 'v) cache_op list \<Rightarrow> ('k, 'v) cache \<times> clock \<Rightarrow> ub + ('k, 'v) cache \<times> clock" where
  "cache_run [] s = Inr s"
| "cache_run (x # xs) s = ub_bind (cache_call x s) (cache_run xs)"

section \<open>The invariant and the abstraction\<close>

definition cache_ok :: "('k::linorder, 'v) cache \<Rightarrow> bool" where
  "cache_ok c \<longleftrightarrow> 0 < sizeM c \<and> 0 \<le> expireTimeMilliSecM c
     \<and> smap_ok (dataM c) \<and> smap_ok (timestampM c) \<and> distinct (keysM c)
     \<and> smap_keys (dataM c) = set (keysM c) \<and> smap_keys (timestampM c) = set (keysM c)
     \<and> length (keysM c) \<le> sizeM c"

text \<open>An entry of the specification: the key, the value and the time it was added.\<close>

type_synonym ('k, 'v) lru = "('k \<times> 'v \<times> int) list"

definition entry_of :: "('k, 'v) cache \<Rightarrow> 'k \<Rightarrow> 'k \<times> 'v \<times> int" where
  "entry_of c k = (k, the (smap_find (dataM c) k), the (smap_find (timestampM c) k))"

definition abs_cache :: "('k, 'v) cache \<Rightarrow> ('k, 'v) lru" where
  "abs_cache c = map (entry_of c) (keysM c)"

definition lru_drop :: "'k \<Rightarrow> ('k, 'v) lru \<Rightarrow> ('k, 'v) lru" where
  "lru_drop k l = filter (\<lambda>e. fst e \<noteq> k) l"

text \<open>
  \<open>lru_add cap stale k v now l\<close>: replace the entry of a present key; otherwise, when the cache
  is full, drop the stale entries, or the least recently used one if none is stale; the new entry
  goes to the front.
\<close>

definition lru_add :: "nat \<Rightarrow> ('k \<Rightarrow> bool) \<Rightarrow> 'k \<Rightarrow> 'v \<Rightarrow> int \<Rightarrow> ('k, 'v) lru \<Rightarrow> ('k, 'v) lru" where
  "lru_add cap stale k v now l = (k, v, now) #
     (if k \<in> fst ` set l then lru_drop k l
      else if cap \<le> length l then
        (if \<exists>e \<in> set l. stale (fst e) then filter (\<lambda>e. \<not> stale (fst e)) l else butlast l)
      else l)"

definition lru_get :: "('k \<Rightarrow> int \<Rightarrow> bool) \<Rightarrow> 'k \<Rightarrow> ('k, 'v) lru \<Rightarrow> 'v option \<times> ('k, 'v) lru" where
  "lru_get stale k l =
     (case map_of l k of
        None \<Rightarrow> (None, l)
      | Some (v, ts) \<Rightarrow> if stale k ts then (None, lru_drop k l) else (Some v, (k, v, ts) # lru_drop k l))"

text \<open>
  Which keys a pass of \<open>DoClearExpiredCache\<close> finds stale: the pass reads the clock once per entry,
  in key order, so the reading that decides key \<open>k\<close> is the one at the position of \<open>k\<close>.
\<close>

fun stale_keys :: "int \<Rightarrow> ('k \<times> int) list \<Rightarrow> clock \<Rightarrow> 'k set" where
  "stale_keys e [] clk = {}"
| "stale_keys e ((k, ts) # rest) clk =
     (if s64 (shd clk - ts) > e then insert k (stale_keys e rest (stl clk)) else stale_keys e rest (stl clk))"

section \<open>Lemmas on the parts of an operation\<close>

lemma smap_find_filter_keys:
  "smap_find (filter (\<lambda>(k, v). P k) m) k = (if P k then smap_find m k else None)"
  by (induction m) (auto simp: smap_find_def)

lemma smap_keys_filter: "smap_keys (filter (\<lambda>(k, v). P k) m) = {k \<in> smap_keys m. P k}"
  by (auto simp: smap_keys_find smap_find_filter_keys split: if_splits)

lemma smap_erase_filter:
  "filter (\<lambda>(k, v). k \<notin> S) (smap_erase k0 m) = filter (\<lambda>(k, v). k \<notin> insert k0 S) m"
  by (induction m) (auto simp: smap_erase_def)

lemma removeAll_filter: "filter P (removeAll x xs) = filter (\<lambda>y. y \<noteq> x \<and> P y) xs"
  by (induction xs) auto

lemma removeAll_neq: "removeAll x xs = filter (\<lambda>y. y \<noteq> x) xs"
  by (induction xs) auto

lemma cache_ok_new: "cache_ok (ExpireLruCache n e)"
  by (simp add: cache_ok_def ExpireLruCache_def DEFAULT_EXPIRE_TIME_def)

lemma abs_new: "abs_cache (ExpireLruCache n e) = []"
  by (simp add: abs_cache_def ExpireLruCache_def)

lemma cache_ok_length: "cache_ok c \<Longrightarrow> length (dataM c) = length (keysM c)"
  by (simp add: cache_ok_def smap_size_card distinct_card)

lemma cache_ok_find:
  "cache_ok c \<Longrightarrow> smap_find (dataM c) k = None \<longleftrightarrow> k \<notin> set (keysM c)"
  "cache_ok c \<Longrightarrow> smap_find (timestampM c) k = None \<longleftrightarrow> k \<notin> set (keysM c)"
  by (simp_all add: cache_ok_def smap_keys_find [symmetric] del: not_None_eq)
     (metis smap_keys_find)+

lemma fst_entry_of [simp]: "fst (entry_of c k) = k"
  by (simp add: entry_of_def)

lemma abs_keys: "map fst (abs_cache c) = keysM c"
  by (simp add: abs_cache_def comp_def)

lemma abs_key_set: "fst ` set (abs_cache c) = set (keysM c)"
  by (metis abs_keys list.set_map)

lemma length_abs: "length (abs_cache c) = length (keysM c)"
  by (simp add: abs_cache_def)

text \<open>Removing a set of keys from all three containers at once.\<close>

definition drop_keys :: "'k set \<Rightarrow> ('k, 'v) cache \<Rightarrow> ('k, 'v) cache" where
  "drop_keys S c = c\<lparr>keysM := filter (\<lambda>k. k \<notin> S) (keysM c),
     dataM := filter (\<lambda>(k, v). k \<notin> S) (dataM c),
     timestampM := filter (\<lambda>(k, v). k \<notin> S) (timestampM c)\<rparr>"

lemma cache_ok_drop_keys: "cache_ok c \<Longrightarrow> cache_ok (drop_keys S c)"
  unfolding cache_ok_def drop_keys_def
  by (auto simp: smap_ok_filter smap_keys_filter intro: order_trans [OF length_filter_le])

lemma abs_drop_keys: "abs_cache (drop_keys S c) = filter (\<lambda>e. fst e \<notin> S) (abs_cache c)"
  by (auto simp: abs_cache_def drop_keys_def filter_map comp_def entry_of_def smap_find_filter_keys)

lemma drop_keys_fields [simp]:
  "sizeM (drop_keys S c) = sizeM c"
  "expireTimeMilliSecM (drop_keys S c) = expireTimeMilliSecM c"
  "keysM (drop_keys S c) = filter (\<lambda>k. k \<notin> S) (keysM c)"
  by (simp_all add: drop_keys_def)

lemma DoRemove_drop_keys: "DoRemove k c = drop_keys {k} c"
  by (simp add: DoRemove_def drop_keys_def smap_erase_def removeAll_neq)

lemma clear_loop_spec:
  "clear_loop ents b c clk =
     (b \<or> stale_keys (expireTimeMilliSecM c) ents clk \<noteq> {},
      drop_keys (stale_keys (expireTimeMilliSecM c) ents clk) c, sdrop (length ents) clk)"
proof (induction ents b c clk rule: clear_loop.induct)
  case (1 b c clk)
  then show ?case by (simp add: drop_keys_def filter_id_conv case_prod_beta)
next
  case (2 k ts rest b c clk)
  then show ?case
    by (auto simp: IsExpired_def GetTickCount_def drop_keys_def smap_erase_filter removeAll_filter
        insert_iff)
qed

lemma stale_keys_subset: "stale_keys e ents clk \<subseteq> fst ` set ents"
  by (induction e ents clk rule: stale_keys.induct) auto

lemma DoClearExpiredCache_spec:
  "DoClearExpiredCache c clk =
     (let S = stale_keys (expireTimeMilliSecM c) (timestampM c) clk
      in (S \<noteq> {}, drop_keys S c, sdrop (length (timestampM c)) clk))"
  by (simp add: DoClearExpiredCache_def clear_loop_spec Let_def)

lemma evict_lru_spec:
  assumes "cache_ok c" "keysM c \<noteq> []"
  shows "evict_lru c = Inr (drop_keys {last (keysM c)} c)"
    and "abs_cache (drop_keys {last (keysM c)} c) = butlast (abs_cache c)"
proof -
  have d: "distinct (keysM c)" using assms(1) by (simp add: cache_ok_def)
  have k: "filter (\<lambda>k. k \<noteq> last (keysM c)) (keysM c) = butlast (keysM c)"
    using assms(2) d by (cases "keysM c" rule: rev_cases) (auto simp: filter_id_conv)
  show "evict_lru c = Inr (drop_keys {last (keysM c)} c)"
    using assms(2) k by (simp add: evict_lru_def drop_keys_def smap_erase_def Let_def)
  have "map (entry_of c) (filter (\<lambda>k. k \<noteq> last (keysM c)) (keysM c)) = butlast (abs_cache c)"
    by (simp add: k abs_cache_def map_butlast)
  then show "abs_cache (drop_keys {last (keysM c)} c) = butlast (abs_cache c)"
    by (simp add: abs_drop_keys) (simp add: abs_cache_def filter_map comp_def)
qed

text \<open>Putting a key that is not in the cache at the front.\<close>

definition push_front :: "'k::linorder \<Rightarrow> 'v \<Rightarrow> int \<Rightarrow> ('k, 'v) cache \<Rightarrow> ('k, 'v) cache" where
  "push_front k v now c = c\<lparr>dataM := smap_emplace k v (dataM c),
     timestampM := smap_emplace k now (timestampM c), keysM := k # keysM c\<rparr>"

lemma cache_ok_push_front:
  "cache_ok c \<Longrightarrow> k \<notin> set (keysM c) \<Longrightarrow> length (keysM c) < sizeM c \<Longrightarrow> cache_ok (push_front k v now c)"
  by (simp add: cache_ok_def push_front_def smap_simps)

lemma abs_push_front:
  assumes "cache_ok c" "k \<notin> set (keysM c)"
  shows "abs_cache (push_front k v now c) = (k, v, now) # abs_cache c"
proof -
  have "smap_find (dataM c) k = None" "smap_find (timestampM c) k = None"
    using assms by (simp_all add: cache_ok_find)
  then show ?thesis
    using assms by (auto simp: abs_cache_def push_front_def entry_of_def cache_ok_def smap_simps)
qed

lemma push_front_fields [simp]:
  "sizeM (push_front k v now c) = sizeM c"
  "expireTimeMilliSecM (push_front k v now c) = expireTimeMilliSecM c"
  "keysM (push_front k v now c) = k # keysM c"
  by (simp_all add: push_front_def)

section \<open>The operations implement the specification\<close>

lemma erase_push_front:
  assumes "cache_ok c" "k \<in> set (keysM c)"
  shows "c\<lparr>dataM := smap_emplace k v (smap_erase k (dataM c)),
           timestampM := smap_emplace k now (smap_erase k (timestampM c)),
           keysM := k # remove1 k (keysM c)\<rparr> = push_front k v now (drop_keys {k} c)"
  using assms
  by (simp add: push_front_def drop_keys_def smap_erase_def cache_ok_def distinct_remove1_filter)

lemma drop_key_smaller: "k \<in> set (keysM c) \<Longrightarrow> length (filter (\<lambda>k'. k' \<noteq> k) (keysM c)) < length (keysM c)"
  by (rule length_filter_less) auto

lemma DoAdd_present:
  assumes ok: "cache_ok c" and k: "k \<in> set (keysM c)"
  shows "DoAdd k v c clk = Inr (push_front k v (shd clk) (drop_keys {k} c), stl clk)"
  using assms
  by (simp add: DoAdd_def GetTickCount_def cache_ok_find splice_front_ok erase_push_front)

lemma DoAdd_room:
  assumes ok: "cache_ok c" and k: "k \<notin> set (keysM c)" and room: "length (keysM c) < sizeM c"
  shows "DoAdd k v c clk = Inr (push_front k v (shd clk) c, stl clk)"
  using assms
  by (simp add: DoAdd_def GetTickCount_def cache_ok_find cache_ok_length push_front_def)

lemma DoAdd_full:
  assumes ok: "cache_ok c" and k: "k \<notin> set (keysM c)" and full: "sizeM c \<le> length (keysM c)"
  shows "DoAdd k v c clk =
    (let S = (if expireTimeMilliSecM c > 0
              then stale_keys (expireTimeMilliSecM c) (timestampM c) (stl clk) else {})
     in Inr (push_front k v (shd clk) (drop_keys (if S \<noteq> {} then S else {last (keysM c)}) c),
             if expireTimeMilliSecM c > 0 then sdrop (length (timestampM c)) (stl clk) else stl clk))"
proof -
  have ne: "keysM c \<noteq> []" using ok full by (auto simp: cache_ok_def)
  have id: "drop_keys {} c = c" by (simp add: drop_keys_def case_prod_beta)
  show ?thesis
    using assms ne
    by (simp add: DoAdd_def GetTickCount_def cache_ok_find cache_ok_length DoClearExpiredCache_spec
        Let_def evict_lru_spec(1) id flip: push_front_def)
qed

lemma stale_in_keys:
  assumes "cache_ok c" shows "stale_keys e (timestampM c) clk \<subseteq> set (keysM c)"
  using stale_keys_subset [of e "timestampM c" clk] assms by (simp add: cache_ok_def smap_keys_def)

definition add_stale :: "('k, 'v) cache \<Rightarrow> clock \<Rightarrow> 'k \<Rightarrow> bool" where
  "add_stale c clk k \<longleftrightarrow> expireTimeMilliSecM c > 0
     \<and> k \<in> stale_keys (expireTimeMilliSecM c) (timestampM c) (stl clk)"

lemma drop_some_smaller:
  assumes "S \<noteq> {}" "S \<subseteq> set (keysM c)"
  shows "length (filter (\<lambda>k. k \<notin> S) (keysM c)) < length (keysM c)"
proof -
  from assms obtain x where "x \<in> S" "x \<in> set (keysM c)" by blast
  then show ?thesis by (intro length_filter_less [of x]) auto
qed

lemma DoAdd_refines:
  assumes ok: "cache_ok c"
  shows "\<exists>c' clk'. DoAdd k v c clk = Inr (c', clk') \<and> cache_ok c'
     \<and> sizeM c' = sizeM c \<and> expireTimeMilliSecM c' = expireTimeMilliSecM c
     \<and> abs_cache c' = lru_add (sizeM c) (add_stale c clk) k v (shd clk) (abs_cache c)"
proof (cases "k \<in> set (keysM c)")
  case True
  have len: "length (filter (\<lambda>k'. k' \<noteq> k) (keysM c)) < sizeM c"
    using drop_key_smaller [OF True] ok by (simp add: cache_ok_def)
  show ?thesis
    using True len cache_ok_drop_keys [OF ok, of "{k}"]
    by (simp add: DoAdd_present ok cache_ok_push_front abs_push_front abs_drop_keys lru_add_def
        abs_key_set lru_drop_def)
next
  case False
  show ?thesis
  proof (cases "length (keysM c) < sizeM c")
    case True
    then show ?thesis
      using False ok by (simp add: DoAdd_room cache_ok_push_front abs_push_front lru_add_def
          abs_key_set length_abs)
  next
    case full: False
    define S where "S = (if expireTimeMilliSecM c > 0
      then stale_keys (expireTimeMilliSecM c) (timestampM c) (stl clk) else {})"
    define D where "D = (if S \<noteq> {} then S else {last (keysM c)})"
    have ne: "keysM c \<noteq> []" using ok full by (auto simp: cache_ok_def)
    have D: "D \<noteq> {}" "D \<subseteq> set (keysM c)"
      using ne stale_in_keys [OF ok] by (auto simp: D_def S_def)
    have stale: "add_stale c clk = (\<lambda>k. k \<in> S)"
      by (auto simp: add_stale_def S_def)
    have some: "(\<exists>e \<in> set (abs_cache c). fst e \<in> S) \<longleftrightarrow> S \<noteq> {}"
      using stale_in_keys [OF ok] by (auto simp: abs_cache_def S_def)
    have ok': "cache_ok (drop_keys D c)" and notin: "k \<notin> set (keysM (drop_keys D c))"
      using ok False by (auto simp: cache_ok_drop_keys)
    have room: "length (keysM (drop_keys D c)) < sizeM (drop_keys D c)"
      using drop_some_smaller [OF D] ok by (simp add: cache_ok_def)
    have eq: "DoAdd k v c clk = Inr (push_front k v (shd clk) (drop_keys D c),
        if expireTimeMilliSecM c > 0 then sdrop (length (timestampM c)) (stl clk) else stl clk)"
      using DoAdd_full [OF ok False] full by (simp add: S_def D_def Let_def)
    have "abs_cache (push_front k v (shd clk) (drop_keys D c)) =
        lru_add (sizeM c) (add_stale c clk) k v (shd clk) (abs_cache c)"
      using ok' notin full False ne evict_lru_spec(2) [OF ok ne]
      by (simp add: abs_push_front lru_add_def abs_key_set length_abs stale some D_def abs_drop_keys)
    then show ?thesis
      using cache_ok_push_front [OF ok' notin room] eq by simp
  qed
qed

definition get_stale :: "('k, 'v) cache \<Rightarrow> clock \<Rightarrow> 'k \<Rightarrow> int \<Rightarrow> bool" where
  "get_stale c clk k ts \<longleftrightarrow> expireTimeMilliSecM c > 0 \<and> s64 (shd clk - ts) > expireTimeMilliSecM c"

lemma map_of_abs:
  assumes "cache_ok c"
  shows "map_of (abs_cache c) k =
    (case smap_find (dataM c) k of None \<Rightarrow> None | Some v \<Rightarrow> Some (v, the (smap_find (timestampM c) k)))"
proof (cases "k \<in> set (keysM c)")
  case True
  then obtain v where v: "smap_find (dataM c) k = Some v"
    using cache_ok_find(1) [OF assms] by blast
  have "entry_of c k \<in> set (abs_cache c)" using True by (simp add: abs_cache_def)
  moreover have "distinct (map fst (abs_cache c))" using assms by (simp add: abs_keys cache_ok_def)
  ultimately show ?thesis using v by (simp add: entry_of_def)
next
  case False
  then have "k \<notin> fst ` set (abs_cache c)" by (simp add: abs_key_set)
  then have "map_of (abs_cache c) k = None" by (simp add: map_of_eq_None_iff)
  moreover have "smap_find (dataM c) k = None" using False cache_ok_find(1) [OF assms] by simp
  ultimately show ?thesis by simp
qed

lemma DoGet_refines:
  assumes ok: "cache_ok c"
  shows "\<exists>c' clk'. DoGet k c clk = Inr (fst (lru_get (get_stale c clk) k (abs_cache c)), c', clk')
     \<and> cache_ok c' \<and> sizeM c' = sizeM c \<and> expireTimeMilliSecM c' = expireTimeMilliSecM c
     \<and> abs_cache c' = snd (lru_get (get_stale c clk) k (abs_cache c))"
proof (cases "smap_find (dataM c) k")
  case None
  then show ?thesis using ok by (simp add: DoGet_def lru_get_def map_of_abs)
next
  case (Some v)
  then have k: "k \<in> set (keysM c)" using cache_ok_find(1) [OF ok, of k] by auto
  then obtain ts where ts: "smap_find (timestampM c) k = Some ts"
    using cache_ok_find(2) [OF ok, of k] by blast
  have d: "distinct (keysM c)" using ok by (simp add: cache_ok_def)
  have moved: "c\<lparr>keysM := k # remove1 k (keysM c)\<rparr> = c\<lparr>keysM := k # filter (\<lambda>k'. k' \<noteq> k) (keysM c)\<rparr>"
    using d by (simp add: distinct_remove1_filter)
  have ok_moved: "cache_ok (c\<lparr>keysM := k # filter (\<lambda>k'. k' \<noteq> k) (keysM c)\<rparr>)"
    using ok k drop_key_smaller [OF k] by (auto simp: cache_ok_def)
  have abs_moved: "abs_cache (c\<lparr>keysM := k # filter (\<lambda>k'. k' \<noteq> k) (keysM c)\<rparr>) =
      (k, v, ts) # lru_drop k (abs_cache c)"
    using Some ts by (simp add: abs_cache_def lru_drop_def filter_map comp_def entry_of_def)
  have dropped: "c\<lparr>dataM := smap_erase k (dataM c), timestampM := smap_erase k (timestampM c),
      keysM := removeAll k (keysM c)\<rparr> = drop_keys {k} c"
    by (simp add: drop_keys_def smap_erase_def removeAll_neq)
  have abs_dropped: "abs_cache (drop_keys {k} c) = lru_drop k (abs_cache c)"
    by (simp add: abs_drop_keys lru_drop_def)
  show ?thesis
    using k Some ts moved ok_moved abs_moved dropped abs_dropped cache_ok_drop_keys [OF ok, of "{k}"]
    by (simp add: DoGet_def lru_get_def map_of_abs ok get_stale_def IsExpired_def GetTickCount_def
        splice_front_ok)
qed

section \<open>Runs of a client\<close>

lemma cache_ok_DoClear: "cache_ok c \<Longrightarrow> cache_ok (DoClear c)"
  by (simp add: cache_ok_def DoClear_def)

lemma cache_call_ok:
  assumes "cache_ok c"
  shows "\<exists>c' clk'. cache_call x (c, clk) = Inr (c', clk') \<and> cache_ok c'
    \<and> sizeM c' = sizeM c \<and> expireTimeMilliSecM c' = expireTimeMilliSecM c"
proof (cases x)
  case (Add k v)
  then show ?thesis using DoAdd_refines [OF assms, of k v clk] by auto
next
  case (Get k)
  then show ?thesis using DoGet_refines [OF assms, of k clk] by auto
next
  case (Remove k)
  then show ?thesis using assms by (simp add: DoRemove_drop_keys cache_ok_drop_keys)
next
  case Clear
  then show ?thesis using assms by (simp add: cache_ok_DoClear) (simp add: DoClear_def)
qed

lemma cache_run_ok:
  "cache_ok c \<Longrightarrow> \<exists>c' clk'. cache_run xs (c, clk) = Inr (c', clk') \<and> cache_ok c'
     \<and> sizeM c' = sizeM c \<and> expireTimeMilliSecM c' = expireTimeMilliSecM c"
proof (induction xs arbitrary: c clk)
  case (Cons x xs)
  obtain c1 clk1 where 1: "cache_call x (c, clk) = Inr (c1, clk1)" "cache_ok c1"
      "sizeM c1 = sizeM c" "expireTimeMilliSecM c1 = expireTimeMilliSecM c"
    using cache_call_ok [OF Cons.prems] by blast
  with Cons.IH [OF 1(2), of clk1] show ?case by auto
qed simp

lemma cache_run_append: "cache_run (xs @ ys) s = ub_bind (cache_run xs s) (cache_run ys)"
  by (induction xs arbitrary: s) (auto simp: ub_bind_def split: sum.split)

text \<open>What a sequence of calls leaves as the last value written for a key.\<close>

fun last_write :: "'k \<Rightarrow> ('k, 'v) cache_op list \<Rightarrow> 'v option \<Rightarrow> 'v option" where
  "last_write k [] w = w"
| "last_write k (Add k' v # xs) w = last_write k xs (if k' = k then Some v else w)"
| "last_write k (Get k' # xs) w = last_write k xs w"
| "last_write k (Remove k' # xs) w = last_write k xs (if k' = k then None else w)"
| "last_write k (Clear # xs) w = last_write k xs None"

lemma abs_find_iff: "cache_ok c \<Longrightarrow>
    smap_find (dataM c) k = Some v \<longleftrightarrow> (\<exists>ts. map_of (abs_cache c) k = Some (v, ts))"
  by (simp add: map_of_abs split: option.splits)

lemma abs_distinct: "cache_ok c \<Longrightarrow> distinct (map fst (abs_cache c))"
  by (simp add: abs_keys cache_ok_def)

lemma lru_add_member: "(k', w, ts) \<in> set (lru_add n st k v now l) \<Longrightarrow>
    k' = k \<and> w = v \<or> k' \<noteq> k \<and> (k', w, ts) \<in> set l"
  by (auto simp: lru_add_def lru_drop_def image_iff split: if_splits dest!: in_set_butlastD)

lemma find_member: "cache_ok c \<Longrightarrow>
    smap_find (dataM c) k = Some v \<longleftrightarrow> (\<exists>ts. (k, v, ts) \<in> set (abs_cache c))"
  by (simp add: abs_find_iff map_of_eq_Some_iff abs_distinct)

lemma lru_get_member: "(k', w, ts) \<in> set (snd (lru_get st k l)) \<Longrightarrow> (k', w, ts) \<in> set l"
  by (auto simp: lru_get_def lru_drop_def split: option.splits if_splits dest: map_of_SomeD)

lemma cache_call_find:
  assumes ok: "cache_ok c" and run: "cache_call x (c, clk) = Inr (c', clk')"
    and hit: "smap_find (dataM c') k = Some v"
  shows "last_write k [x] (smap_find (dataM c) k) = Some v"
proof (cases x)
  case (Add k0 v0)
  then obtain d where "cache_ok c'" "abs_cache c' = lru_add (sizeM c) (add_stale c clk) k0 v0 (shd clk) (abs_cache c)"
    using DoAdd_refines [OF ok, of k0 v0 clk] run by auto
  then show ?thesis
    using hit lru_add_member Add by (fastforce simp: find_member ok)
next
  case (Get k0)
  then have "cache_ok c'" "abs_cache c' = snd (lru_get (get_stale c clk) k0 (abs_cache c))"
    using DoGet_refines [OF ok, of k0 clk] run by auto
  then show ?thesis
    using hit lru_get_member Get by (fastforce simp: find_member ok)
next
  case (Remove k0)
  then show ?thesis
    using run hit by (auto simp: DoRemove_def smap_find_erase split: if_splits)
next
  case Clear
  then show ?thesis using run hit by (auto simp: DoClear_def)
qed

lemma last_write_step: "last_write k (x # xs) w = last_write k xs (last_write k [x] w)"
  by (cases x) auto

lemma last_write_mono: "(w = None \<or> w = w') \<Longrightarrow> last_write k xs w = Some v \<Longrightarrow> last_write k xs w' = Some v"
proof (induction xs arbitrary: w w')
  case (Cons x xs)
  then show ?case by (cases x) (auto split: if_splits)
qed auto

lemma cache_run_find:
  "cache_ok c \<Longrightarrow> cache_run xs (c, clk) = Inr (c', clk') \<Longrightarrow> smap_find (dataM c') k = Some v \<Longrightarrow>
     last_write k xs (smap_find (dataM c) k) = Some v"
proof (induction xs arbitrary: c clk)
  case (Cons x xs)
  obtain c1 clk1 where 1: "cache_call x (c, clk) = Inr (c1, clk1)" "cache_ok c1"
    using cache_call_ok [OF Cons.prems(1)] by blast
  have IH: "last_write k xs (smap_find (dataM c1) k) = Some v"
    using Cons.IH [OF 1(2)] Cons.prems 1(1) by simp
  have "smap_find (dataM c1) k = None \<or> smap_find (dataM c1) k = last_write k [x] (smap_find (dataM c) k)"
    using cache_call_find [OF Cons.prems(1) 1(1)] by (cases "smap_find (dataM c1) k") auto
  then show ?case using IH by (subst last_write_step) (rule last_write_mono)
qed simp

section \<open>Recency\<close>

lemma take_filter_mono:
  "x \<in> set (take j xs) \<Longrightarrow> P x \<Longrightarrow> x \<in> set (take j (filter P xs))"
proof (induction xs arbitrary: j)
  case (Cons a xs)
  then obtain i where j: "j = Suc i" by (cases j) auto
  show ?case
  proof (cases "P a")
    case True
    then show ?thesis using Cons j by auto
  next
    case False
    then have "x \<in> set (take i (filter P xs))" using Cons j by auto
    moreover have "set (take i (filter P xs)) \<subseteq> set (take j (filter P xs))"
      using j by (intro set_take_subset_set_take) simp
    ultimately show ?thesis using False by auto
  qed
qed simp

lemma add_keeps_recent:
  assumes ok: "cache_ok c" and e: "expireTimeMilliSecM c = 0"
    and k: "k \<in> set (take j (keysM c))" and j: "j < sizeM c"
    and add: "DoAdd k' v c clk = Inr (c', clk')"
  shows "k \<in> set (take (Suc j) (keysM c'))"
proof (cases "k' \<in> set (keysM c)")
  case True
  then have "keysM c' = k' # filter (\<lambda>x. x \<noteq> k') (keysM c)"
    using add by (auto simp: DoAdd_present ok)
  then show ?thesis using k by (cases "k = k'") (auto intro: take_filter_mono)
next
  case new: False
  show ?thesis
  proof (cases "length (keysM c) < sizeM c")
    case True
    then have "keysM c' = k' # keysM c" using add new by (auto simp: DoAdd_room ok)
    then show ?thesis using k by simp
  next
    case full: False
    then have ne: "keysM c \<noteq> []" using ok by (auto simp: cache_ok_def)
    have "map fst (abs_cache (drop_keys {last (keysM c)} c)) = butlast (keysM c)"
      by (simp only: evict_lru_spec(2) [OF ok ne] map_butlast abs_keys)
    then have "keysM (drop_keys {last (keysM c)} c) = butlast (keysM c)"
      by (simp only: abs_keys)
    then have "keysM c' = k' # butlast (keysM c)"
      using add new full DoAdd_full [OF ok new] e by (auto simp: Let_def)
    moreover have "take j (butlast (keysM c)) = take j (keysM c)"
      using j full by (simp add: butlast_conv_take)
    ultimately show ?thesis using k by simp
  qed
qed

lemma adds_keep_recent:
  "cache_ok c \<Longrightarrow> expireTimeMilliSecM c = 0 \<Longrightarrow> k \<in> set (take j (keysM c)) \<Longrightarrow>
   j + length kvs \<le> sizeM c \<Longrightarrow> cache_run (map (\<lambda>(k, v). Add k v) kvs) (c, clk) = Inr (c', clk') \<Longrightarrow>
   k \<in> set (keysM c')"
proof (induction kvs arbitrary: c clk j)
  case Nil
  then show ?case by (auto dest: in_set_takeD)
next
  case (Cons kv kvs)
  obtain k0 v0 where kv: "kv = (k0, v0)" by force
  obtain c1 clk1 where 1: "DoAdd k0 v0 c clk = Inr (c1, clk1)" "cache_ok c1" "sizeM c1 = sizeM c"
      "expireTimeMilliSecM c1 = 0"
    using DoAdd_refines [OF Cons.prems(1), of k0 v0 clk] Cons.prems(2) by auto
  have "k \<in> set (take (Suc j) (keysM c1))"
    using add_keeps_recent [OF Cons.prems(1-3) _ 1(1)] Cons.prems(4) by simp
  then show ?case
    using Cons.IH [OF 1(2,4)] Cons.prems(4,5) 1(1,3) kv by simp
qed

lemma DoGet_hit_front:
  assumes "cache_ok c" "DoGet k c clk = Inr (Some v, c', clk')"
  shows "k \<in> set (take 1 (keysM c'))"
proof -
  have "abs_cache c' = snd (lru_get (get_stale c clk) k (abs_cache c))"
    and "fst (lru_get (get_stale c clk) k (abs_cache c)) = Some v"
    using DoGet_refines [OF assms(1), of k clk] assms(2) by auto
  then have "fst (hd (abs_cache c')) = k" "abs_cache c' \<noteq> []"
    by (auto simp: lru_get_def split: option.splits if_splits prod.splits)
  then show ?thesis by (cases "keysM c'") (auto simp: abs_cache_def)
qed

section \<open>Properties\<close>

text \<open>
  C16. Whatever calls a client makes, in whatever order and with whatever clock readings, a cache
  built by the constructor never dereferences an end iterator or reads the back of an empty list,
  keeps its three containers consistent, and never holds more entries than its capacity (a
  requested capacity of 0 counts as 1).
\<close>

theorem cache_run_safe:
  "\<exists>c clk'. cache_run ops (ExpireLruCache n e, clk) = Inr (c, clk') \<and> cache_ok c
     \<and> length (dataM c) \<le> max 1 n"
proof -
  obtain c clk' where c: "cache_run ops (ExpireLruCache n e, clk) = Inr (c, clk')" "cache_ok c"
      "sizeM c = sizeM (ExpireLruCache n e :: ('a, 'b) cache)"
    using cache_run_ok [OF cache_ok_new] by blast
  have "length (dataM c) \<le> sizeM c" using c(2) cache_ok_length [OF c(2)] by (simp add: cache_ok_def)
  moreover have "sizeM (ExpireLruCache n e :: ('a, 'b) cache) \<le> max 1 n"
    by (simp add: ExpireLruCache_def)
  ultimately show ?thesis using c by auto
qed

text \<open>
  C8. \<open>DoAdd\<close> implements the specification: on a consistent cache it succeeds, the result is
  consistent, and its entries are those of \<open>lru_add\<close>: replace a present key, else purge the
  expired entries of a full cache, else evict its least recently used entry; new entry in front.
\<close>

theorem DoAdd_implements_lru_add:
  assumes "cache_ok c"
  shows "\<exists>c' clk'. DoAdd k v c clk = Inr (c', clk') \<and> cache_ok c'
     \<and> abs_cache c' = lru_add (sizeM c) (add_stale c clk) k v (shd clk) (abs_cache c)"
  using DoAdd_refines [OF assms, of k v clk] by blast

theorem DoAdd_implements_lru_add_witness:
  "\<exists>c' clk'. DoAdd (1::int) True (ExpireLruCache 2 50) (sconst 7) = Inr (c', clk') \<and> cache_ok c'
     \<and> abs_cache c' = lru_add 2 (add_stale (ExpireLruCache 2 50 :: (int, bool) cache) (sconst 7)) 1 True 7 []"
  using DoAdd_implements_lru_add [OF cache_ok_new, of "1::int" True 2 50 "sconst 7"]
  by (simp add: abs_new) (simp add: ExpireLruCache_def)

text \<open>
  C14. \<open>DoGet\<close> implements the specification: on a consistent cache it returns the value exactly when
  the key is present and not expired, moves that entry to the front without touching its time, and
  removes an expired entry.
\<close>

theorem DoGet_implements_lru_get:
  assumes "cache_ok c"
  shows "\<exists>c' clk'. DoGet k c clk = Inr (fst (lru_get (get_stale c clk) k (abs_cache c)), c', clk')
     \<and> cache_ok c' \<and> abs_cache c' = snd (lru_get (get_stale c clk) k (abs_cache c))"
  using DoGet_refines [OF assms, of k clk] by blast

theorem DoGet_implements_lru_get_witness:
  "\<exists>c' clk'. DoGet (1::int) (push_front 1 True 0 (ExpireLruCache 2 50)) (sconst 7) = Inr (Some True, c', clk')
     \<and> cache_ok c'"
proof -
  let ?c = "push_front (1::int) True 0 (ExpireLruCache 2 50)"
  have "cache_ok ?c" by (rule cache_ok_push_front [OF cache_ok_new]) (simp_all add: ExpireLruCache_def)
  moreover have "fst (lru_get (get_stale ?c (sconst 7)) 1 (abs_cache ?c)) = Some True"
    by (simp add: lru_get_def abs_cache_def push_front_def ExpireLruCache_def entry_of_def
        smap_emplace_def smap_find_def get_stale_def s64_def)
  ultimately show ?thesis using DoGet_implements_lru_get [of ?c 1 "sconst 7"] by auto
qed

text \<open>
  C15. A cache never answers with an out-of-date value: if after any sequence of calls a key is
  present, its value is the one of the last \<open>Add\<close> of that key, and no \<open>Remove\<close> of it or \<open>Clear\<close>
  came later.
\<close>

theorem cache_returns_last_write:
  assumes "cache_run ops (ExpireLruCache n e, clk) = Inr (c, clk')"
    and "DoGet k c clk' = Inr (Some v, c', clk'')"
  shows "last_write k ops None = Some v"
proof -
  have ok: "cache_ok c" using cache_run_ok [OF cache_ok_new, of ops n e clk] assms(1) by auto
  have "smap_find (dataM c) k = Some v"
    using assms(2) by (auto simp: DoGet_def ub_bind_Inr split: option.splits if_splits)
  then have "last_write k ops (smap_find (dataM (ExpireLruCache n e :: ('a, 'b) cache)) k) = Some v"
    by (rule cache_run_find [OF cache_ok_new assms(1)])
  then show ?thesis by (simp add: ExpireLruCache_def)
qed

theorem cache_returns_last_write_witness:
  "last_write (1::int) [Add 1 False, Add 2 True, Add 1 True] None = Some True"
proof -
  have run: "\<exists>c clk'. cache_run [Add (1::int) False, Add 2 True, Add 1 True] (ExpireLruCache 2 0, sconst 0)
      = Inr (c, clk') \<and> (\<exists>c' clk''. DoGet 1 c clk' = Inr (Some True, c', clk''))"
    by (simp add: ExpireLruCache_def DoAdd_def GetTickCount_def smap_find_def smap_emplace_def
        smap_erase_def splice_front_def DoGet_def)
  then show ?thesis using cache_returns_last_write [of "[Add (1::int) False, Add 2 True, Add 1 True]"] by blast
qed

text \<open>
  Round trip: what \<open>Add\<close> stored, an immediately following \<open>Get\<close> returns, unless expiry is on
  and more than the expiry interval passed between the two clock readings.
\<close>

theorem add_then_get:
  assumes "cache_ok c"
  shows "\<exists>c1 clk1 c2 clk2. DoAdd k v c clk = Inr (c1, clk1)
     \<and> DoGet k c1 clk1 = Inr (if expireTimeMilliSecM c > 0
           \<and> s64 (shd clk1 - shd clk) > expireTimeMilliSecM c then None else Some v, c2, clk2)"
proof -
  obtain c1 clk1 where 1: "DoAdd k v c clk = Inr (c1, clk1)" "cache_ok c1"
      "expireTimeMilliSecM c1 = expireTimeMilliSecM c"
      "abs_cache c1 = lru_add (sizeM c) (add_stale c clk) k v (shd clk) (abs_cache c)"
    using DoAdd_refines [OF assms, of k v clk] by blast
  have "fst (lru_get (get_stale c1 clk1) k (abs_cache c1)) =
      (if expireTimeMilliSecM c > 0 \<and> s64 (shd clk1 - shd clk) > expireTimeMilliSecM c then None else Some v)"
    by (simp add: lru_get_def 1(3,4) lru_add_def get_stale_def)
  then show ?thesis using 1(1) DoGet_refines [OF 1(2), of k clk1] by auto
qed

theorem add_then_get_witness:
  "\<exists>c1 clk1 c2 clk2. DoAdd (5::int) True (ExpireLruCache 2 50) (sconst 3) = Inr (c1, clk1)
     \<and> DoGet 5 c1 clk1 = Inr (if 50 > (0::int) \<and> s64 (shd clk1 - 3) > 50 then None else Some True, c2, clk2)"
  using add_then_get [OF cache_ok_new, of "5::int" True 2 50 "sconst 3"]
  by (simp add: ExpireLruCache_def)

text \<open>
  The eviction order is least recently used: with expiry switched off, a key that was just read
  successfully survives the next \<open>size_ - 1\<close> insertions, whatever keys they insert.
\<close>

theorem recently_used_survives:
  assumes "cache_ok c" and "expireTimeMilliSecM c = 0"
    and "DoGet k c clk = Inr (Some v, c1, clk1)" and "length kvs < sizeM c"
    and "cache_run (map (\<lambda>(k, v). Add k v) kvs) (c1, clk1) = Inr (c2, clk2)"
  shows "k \<in> set (keysM c2)"
proof -
  have "cache_ok c1" "sizeM c1 = sizeM c" "expireTimeMilliSecM c1 = 0"
    using DoGet_refines [OF assms(1), of k clk] assms(2,3) by auto
  then show ?thesis
    using adds_keep_recent [of c1 k 1 kvs clk1] DoGet_hit_front [OF assms(1,3)] assms(4,5) by auto
qed

theorem recently_used_survives_witness:
  "\<exists>(c :: (int, bool) cache) (c2 :: (int, bool) cache). keysM c = [2, 1] \<and> keysM c2 = [3, 1] \<and> 1 \<in> set (keysM c2)"
proof -
  let ?c = "\<lparr>sizeM = 2, expireTimeMilliSecM = 0, dataM = [(1, True), (2, False)],
      timestampM = [(1, 0), (2, 0)], keysM = [2, 1::int]\<rparr>"
  let ?c1 = "?c\<lparr>keysM := [1, 2]\<rparr>"
  let ?c2 = "?c\<lparr>dataM := [(1, True), (3, True)], timestampM := [(1, 0), (3, 9)], keysM := [3, 1]\<rparr>"
  have ok: "cache_ok ?c"
    by (auto simp: cache_ok_def smap_ok_def smap_keys_def)
  have get: "DoGet 1 ?c (sconst 9) = Inr (Some True, ?c1, sconst 9)"
    by (simp add: DoGet_def smap_find_def splice_front_def)
  have add: "cache_run (map (\<lambda>(k, v). Add k v) [(3, True)]) (?c1, sconst 9) = Inr (?c2, sconst 9)"
    by (simp add: DoAdd_def GetTickCount_def smap_find_def evict_lru_def smap_erase_def smap_emplace_def)
  have "1 \<in> set (keysM ?c2)"
    by (rule recently_used_survives [OF ok _ get _ add]) simp_all
  then show ?thesis by (intro exI [of _ ?c] exI [of _ ?c2]) simp
qed

end
