(* ===== verification/Api_Cache_Manager.thy ===== *)
theory Api_Cache_Manager
  imports Expire_Lru_Cache
begin

text \<open>
  The proxy-side reply cache \<open>ApiCacheManager\<close> (\<open>services/safwk/src/api_cache_manager.cpp\<close>,
  \<open>interfaces/innerkits/safwk/api_cache_manager.h\<close>): one \<open>ExpireLruCache\<close> per registered API,
  keyed by the interface descriptor and the request code. A request's bytes are the key of the
  inner cache, the reply's bytes its value.

  A pointer to a cache is an option (\<open>None\<close> is the null pointer the code checks for). The message
  parcels belong to the IPC library: they are of an arbitrary type \<open>'p\<close>, and the operations of the
  library the code calls are the record \<open>parcel_ops\<close>, an argument of the operations; what is relied
  on of them is the predicate \<open>parcel_append_law\<close>, a hypothesis of the round-trip property.

  What this component needs of the cache is the locale \<open>reply_cache\<close>; its interpretation on
  \<open>DoAdd\<close>, \<open>DoGet\<close> and \<open>DoClear\<close> rests on the refinement lemmas of the cache.
\<close>

section \<open>The contract of the inner cache\<close>

locale reply_cache =
  fixes ok :: "'c \<Rightarrow> bool"
    and add :: "'k \<Rightarrow> 'v \<Rightarrow> 'c \<Rightarrow> clock \<Rightarrow> ub + 'c \<times> clock"
    and get :: "'k \<Rightarrow> 'c \<Rightarrow> clock \<Rightarrow> ub + 'v option \<times> 'c \<times> clock"
    and clear :: "'c \<Rightarrow> 'c"
    and holds :: "'c \<Rightarrow> 'k \<Rightarrow> 'v \<Rightarrow> bool"
  assumes add_total: "ok c \<Longrightarrow> \<exists>c' clk'. add k v c clk = Inr (c', clk') \<and> ok c' \<and> holds c' k v"
    and add_frame: "ok c \<Longrightarrow> add k v c clk = Inr (c', clk') \<Longrightarrow> holds c' k' v' \<Longrightarrow>
        k' = k \<and> v' = v \<or> holds c k' v'"
    and get_total: "ok c \<Longrightarrow> \<exists>r c' clk'. get k c clk = Inr (r, c', clk') \<and> ok c'"
    and get_holds: "ok c \<Longrightarrow> get k c clk = Inr (Some v, c', clk') \<Longrightarrow> holds c k v"
    and get_frame: "ok c \<Longrightarrow> get k c clk = Inr (r, c', clk') \<Longrightarrow> holds c' k' v' \<Longrightarrow> holds c k' v'"
    and clear_ok: "ok c \<Longrightarrow> ok (clear c)"
    and clear_holds: "ok c \<Longrightarrow> \<not> holds (clear c) k v"
begin

lemma get_after_clear:
  assumes "ok c" shows "\<exists>c' clk'. get k (clear c) clk = Inr (None, c', clk') \<and> ok c'"
  using get_total [OF clear_ok [OF assms], of k clk] get_holds [OF clear_ok [OF assms], of k clk]
    clear_holds [OF assms] by (metis option.exhaust)

lemma add_all_values:
  assumes "ok c" "add k v c clk = Inr (c', clk')" "P v" "\<And>k v. holds c k v \<Longrightarrow> P v" "holds c' k' v'"
  shows "P v'"
  using add_frame [OF assms(1,2,5)] assms(3,4) by blast

end

definition cache_holds :: "('k, 'v) cache \<Rightarrow> 'k \<Rightarrow> 'v \<Rightarrow> bool" where
  "cache_holds c k v \<longleftrightarrow> smap_find (dataM c) k = Some v"

lemma DoAdd_holds:
  assumes "cache_ok c"
  shows "\<exists>c' clk'. DoAdd k v c clk = Inr (c', clk') \<and> cache_ok c' \<and> cache_holds c' k v"
proof -
  obtain c' clk' where c': "DoAdd k v c clk = Inr (c', clk')" "cache_ok c'"
      "abs_cache c' = lru_add (sizeM c) (add_stale c clk) k v (shd clk) (abs_cache c)"
    using DoAdd_refines [OF assms] by blast
  then have "cache_holds c' k v"
    by (auto simp: cache_holds_def find_member lru_add_def)
  with c' show ?thesis by blast
qed

lemma DoGet_frame:
  assumes "cache_ok c" "DoGet k c clk = Inr (r, c', clk')" "cache_holds c' k' v'"
  shows "cache_holds c k' v'"
proof -
  have "cache_ok c'" "abs_cache c' = snd (lru_get (get_stale c clk) k (abs_cache c))"
    using DoGet_refines [OF assms(1), of k clk] assms(2) by auto
  then show ?thesis using assms(1,3) lru_get_member by (fastforce simp: cache_holds_def find_member)
qed

lemma DoClear_holds: "\<not> cache_holds (DoClear c) k v"
  by (simp add: cache_holds_def DoClear_def)

interpretation lru: reply_cache cache_ok DoAdd DoGet DoClear cache_holds
proof unfold_locales
  fix c :: "('a, 'b) cache" and c' :: "('a, 'b) cache" and k v clk clk' k' v'
  assume ok: "cache_ok c" and add: "DoAdd k v c clk = Inr (c', clk')" and h: "cache_holds c' k' v'"
  have "last_write k' [Add k v] (smap_find (dataM c) k') = Some v'"
    using cache_call_find [OF ok, of "Add k v" clk c' clk' k' v'] add h by (simp add: cache_holds_def)
  then show "k' = k \<and> v' = v \<or> cache_holds c k' v'" by (auto simp: cache_holds_def split: if_splits)
next
  fix c :: "('a, 'b) cache" and k clk
  assume "cache_ok c"
  then show "\<exists>r c' clk'. DoGet k c clk = Inr (r, c', clk') \<and> cache_ok c'"
    using DoGet_refines by blast
next
  fix c :: "('a, 'b) cache" and k clk v c' clk'
  assume "DoGet k c clk = Inr (Some v, c', clk')"
  then show "cache_holds c k v"
    by (auto simp: DoGet_def cache_holds_def ub_bind_Inr split: option.splits if_splits)
qed (blast intro: DoAdd_holds DoGet_frame cache_ok_DoClear | simp add: DoClear_holds)+

section \<open>The manager\<close>

type_synonym byte = "8 word"
type_synonym api_pair = "u16string \<times> 32 word"
type_synonym api_cache = "(byte list, byte list) cache"

record api_cache_manager =
  cachesM :: "(api_pair, api_cache option) smap"

record 'p parcel_ops =
  GetData :: "'p \<Rightarrow> byte list"
  GetOffsetsSize :: "'p \<Rightarrow> nat"
  GetMaxCapacity :: "'p \<Rightarrow> nat"
  SetMaxCapacity :: "nat \<Rightarrow> 'p \<Rightarrow> 'p"
  WriteBuffer :: "byte list \<Rightarrow> 'p \<Rightarrow> bool \<times> 'p"

definition ApiCacheManager :: api_cache_manager where
  "ApiCacheManager = \<lparr>cachesM = []\<rparr>"

definition defaultCacheSize :: nat where
  "defaultCacheSize = 8"

definition AddCacheApi :: "u16string \<Rightarrow> 32 word \<Rightarrow> int \<Rightarrow> api_cache_manager \<Rightarrow> api_cache_manager" where
  "AddCacheApi descriptor apiCode expireTimeSec m =
     (case smap_find (cachesM m) (descriptor, apiCode) of
        None \<Rightarrow> m\<lparr>cachesM := smap_assign (descriptor, apiCode)
                    (Some (ExpireLruCache defaultCacheSize expireTimeSec)) (cachesM m)\<rparr>
      | Some _ \<Rightarrow> m)"

definition DelCacheApi :: "u16string \<Rightarrow> 32 word \<Rightarrow> api_cache_manager \<Rightarrow> api_cache_manager" where
  "DelCacheApi descriptor apiCode m =
     (case smap_find (cachesM m) (descriptor, apiCode) of
        None \<Rightarrow> m
      | Some _ \<Rightarrow> m\<lparr>cachesM := smap_erase (descriptor, apiCode) (cachesM m)\<rparr>)"

definition ClearCache :: "api_cache_manager \<Rightarrow> api_cache_manager" where
  "ClearCache m = m\<lparr>cachesM := map (\<lambda>(k, c). (k, map_option DoClear c)) (cachesM m)\<rparr>"

definition ClearCache_descriptor :: "u16string \<Rightarrow> api_cache_manager \<Rightarrow> api_cache_manager" where
  "ClearCache_descriptor descriptor m =
     m\<lparr>cachesM := map (\<lambda>(k, c). (k, if fst k = descriptor then map_option DoClear c else c)) (cachesM m)\<rparr>"

definition store_cache :: "api_pair \<Rightarrow> api_cache \<Rightarrow> api_cache_manager \<Rightarrow> api_cache_manager" where
  "store_cache k c m = m\<lparr>cachesM := smap_assign k (Some c) (cachesM m)\<rparr>"

definition ClearCache_api :: "u16string \<Rightarrow> int \<Rightarrow> api_cache_manager \<Rightarrow> api_cache_manager" where
  "ClearCache_api descriptor apiCode m =
     (case smap_find (cachesM m) (descriptor, word_of_int apiCode) of
        Some (Some c) \<Rightarrow> store_cache (descriptor, word_of_int apiCode) (DoClear c) m
      | _ \<Rightarrow> m)"

definition PreSendRequest :: "'p parcel_ops \<Rightarrow> u16string \<Rightarrow> 32 word \<Rightarrow> 'p \<Rightarrow> 'p
    \<Rightarrow> api_cache_manager \<Rightarrow> clock \<Rightarrow> ub + bool \<times> 'p \<times> api_cache_manager \<times> clock" where
  "PreSendRequest P descriptor apiCode data reply m clk =
     (let keyVec = GetData P data in
      case smap_find (cachesM m) (descriptor, apiCode) of
        Some (Some c) \<Rightarrow>
          ub_bind (DoGet keyVec c clk) (\<lambda>(valueVec, c, clk).
            let m = store_cache (descriptor, apiCode) c m in
            case valueVec of
              None \<Rightarrow> Inr (False, reply, m, clk)
            | Some v \<Rightarrow>
                let size = length (GetData P reply) + length v;
                    reply = (if size > GetMaxCapacity P reply then SetMaxCapacity P size reply else reply)
                in if v = [] then Inl EmptyAccess
                   else let (ret, reply) = WriteBuffer P v reply in Inr (ret, reply, m, clk))
      | _ \<Rightarrow> Inr (False, reply, m, clk))"

definition PostSendRequest :: "'p parcel_ops \<Rightarrow> u16string \<Rightarrow> 32 word \<Rightarrow> 'p \<Rightarrow> 'p
    \<Rightarrow> api_cache_manager \<Rightarrow> clock \<Rightarrow> ub + bool \<times> api_cache_manager \<times> clock" where
  "PostSendRequest P descriptor apiCode data reply m clk =
     (if GetOffsetsSize P data \<noteq> 0 \<or> GetOffsetsSize P reply \<noteq> 0 then Inr (False, m, clk)
      else case smap_find (cachesM m) (descriptor, apiCode) of
        Some (Some c) \<Rightarrow>
          ub_bind (DoAdd (GetData P data) (GetData P reply) c clk) (\<lambda>(c, clk).
            Inr (True, store_cache (descriptor, apiCode) c m, clk))
      | _ \<Rightarrow> Inr (False, m, clk))"

section \<open>Invariant and frame\<close>

definition mgr_ok :: "api_cache_manager \<Rightarrow> bool" where
  "mgr_ok m \<longleftrightarrow> smap_ok (cachesM m) \<and> (\<forall>k. case smap_find (cachesM m) k of
     Some (Some c) \<Rightarrow> cache_ok c | _ \<Rightarrow> True)"

lemma mgr_ok_cache: "mgr_ok m \<Longrightarrow> smap_find (cachesM m) k = Some (Some c) \<Longrightarrow> cache_ok c"
  unfolding mgr_ok_def by (metis (no_types, lifting) option.simps(5))

lemma mgr_ok_init: "mgr_ok ApiCacheManager"
  by (simp add: mgr_ok_def ApiCacheManager_def)

lemma mgr_ok_store: "mgr_ok m \<Longrightarrow> cache_ok c \<Longrightarrow> mgr_ok (store_cache k c m)"
  by (auto simp: mgr_ok_def store_cache_def smap_simps split: option.splits)

lemma find_store:
  "mgr_ok m \<Longrightarrow> smap_find (cachesM (store_cache k c m)) k' =
     (if k' = k then Some (Some c) else smap_find (cachesM m) k')"
  by (simp add: mgr_ok_def store_cache_def smap_simps)

lemma smap_find_map_val: "smap_find (map (\<lambda>(k, v). (k, f k v)) m) k = map_option (f k) (smap_find m k)"
  by (induction m) (auto simp: smap_find_def)

lemma smap_ok_map_val: "smap_ok m \<Longrightarrow> smap_ok (map (\<lambda>(k, v). (k, f k v)) m)"
  by (simp add: smap_ok_def comp_def case_prod_beta)

lemma mgr_ok_AddCacheApi: "mgr_ok m \<Longrightarrow> mgr_ok (AddCacheApi d a e m)"
  by (auto simp: mgr_ok_def AddCacheApi_def smap_simps cache_ok_new split: option.splits)

lemma mgr_ok_DelCacheApi: "mgr_ok m \<Longrightarrow> mgr_ok (DelCacheApi d a m)"
  by (auto simp: mgr_ok_def DelCacheApi_def smap_simps split: option.splits)

lemma mgr_ok_ClearCache: "mgr_ok m \<Longrightarrow> mgr_ok (ClearCache m)"
  by (auto simp: mgr_ok_def ClearCache_def smap_ok_map_val smap_find_map_val cache_ok_DoClear
      split: option.splits)

lemma mgr_ok_ClearCache_descriptor: "mgr_ok m \<Longrightarrow> mgr_ok (ClearCache_descriptor d m)"
  by (auto simp: mgr_ok_def ClearCache_descriptor_def smap_ok_map_val smap_find_map_val cache_ok_DoClear
      split: option.splits)

lemma mgr_ok_ClearCache_api: "mgr_ok m \<Longrightarrow> mgr_ok (ClearCache_api d a m)"
  by (auto simp: ClearCache_api_def mgr_ok_store cache_ok_DoClear mgr_ok_cache split: option.split)

lemmas [ok_intros] = mgr_ok_init mgr_ok_store mgr_ok_AddCacheApi mgr_ok_DelCacheApi mgr_ok_ClearCache
  mgr_ok_ClearCache_descriptor mgr_ok_ClearCache_api

section \<open>Calls of the clients\<close>

text \<open>
  A call of the manager, with the parcels it is given. \<open>mgr_call\<close> is the state change of the call;
  the calls of the threads of a process are serialised by \<open>cachesMutex_\<close>, so a run is a list.
\<close>

datatype 'p api_call =
    CallAddCacheApi u16string "32 word" int
  | CallDelCacheApi u16string "32 word"
  | CallClearCache
  | CallClearCacheDescriptor u16string
  | CallClearCacheApi u16string int
  | CallPreSendRequest u16string "32 word" 'p 'p
  | CallPostSendRequest u16string "32 word" 'p 'p

fun mgr_call :: "'p parcel_ops \<Rightarrow> 'p api_call \<Rightarrow> api_cache_manager \<times> clock \<Rightarrow> ub + api_cache_manager \<times> clock" where
  "mgr_call P (CallAddCacheApi d a e) (m, clk) = Inr (AddCacheApi d a e m, clk)"
| "mgr_call P (CallDelCacheApi d a) (m, clk) = Inr (DelCacheApi d a m, clk)"
| "mgr_call P CallClearCache (m, clk) = Inr (ClearCache m, clk)"
| "mgr_call P (CallClearCacheDescriptor d) (m, clk) = Inr (ClearCache_descriptor d m, clk)"
| "mgr_call P (CallClearCacheApi d a) (m, clk) = Inr (ClearCache_api d a m, clk)"
| "mgr_call P (CallPreSendRequest d a q r) (m, clk) =
     ub_bind (PreSendRequest P d a q r m clk) (\<lambda>(ret, reply, s). Inr s)"
| "mgr_call P (CallPostSendRequest d a q r) (m, clk) =
     ub_bind (PostSendRequest P d a q r m clk) (\<lambda>(ret, s). Inr s)"

fun mgr_run :: "'p parcel_ops \<Rightarrow> 'p api_call list \<Rightarrow> api_cache_manager \<times> clock \<Rightarrow> ub + api_cache_manager \<times> clock" where
  "mgr_run P [] s = Inr s"
| "mgr_run P (x # xs) s = ub_bind (mgr_call P x s) (mgr_run P xs)"

text \<open>The replies a run stores have a property \<open>Q\<close>: then so have all cached replies.\<close>

definition cached_all :: "(byte list \<Rightarrow> bool) \<Rightarrow> api_cache_manager \<Rightarrow> bool" where
  "cached_all Q m \<longleftrightarrow> (\<forall>k c x v. smap_find (cachesM m) k = Some (Some c) \<longrightarrow> cache_holds c x v \<longrightarrow> Q v)"

fun posts_only :: "'p parcel_ops \<Rightarrow> (byte list \<Rightarrow> bool) \<Rightarrow> 'p api_call \<Rightarrow> bool" where
  "posts_only P Q (CallPostSendRequest d a q r) = Q (GetData P r)"
| "posts_only P Q _ = True"

lemma cached_allD:
  "cached_all Q m \<Longrightarrow> smap_find (cachesM m) k = Some (Some c) \<Longrightarrow> cache_holds c x v \<Longrightarrow> Q v"
  unfolding cached_all_def by blast

lemma cached_all_store:
  "mgr_ok m \<Longrightarrow> cached_all Q m \<Longrightarrow> (\<And>x v. cache_holds c x v \<Longrightarrow> Q v) \<Longrightarrow> cached_all Q (store_cache k c m)"
  unfolding cached_all_def by (simp add: find_store)

lemma cached_all_clear:
  "cached_all Q m \<Longrightarrow> cached_all Q (ClearCache m)"
  "cached_all Q m \<Longrightarrow> cached_all Q (ClearCache_descriptor d m)"
  by (auto simp: cached_all_def ClearCache_def ClearCache_descriptor_def smap_find_map_val DoClear_holds
      split: if_splits)

lemma new_holds: "\<not> cache_holds (ExpireLruCache n e) k v"
  by (simp add: cache_holds_def ExpireLruCache_def)

lemma cached_all_registry:
  "mgr_ok m \<Longrightarrow> cached_all Q m \<Longrightarrow> cached_all Q (AddCacheApi d a e m)"
  "mgr_ok m \<Longrightarrow> cached_all Q m \<Longrightarrow> cached_all Q (DelCacheApi d a m)"
  "mgr_ok m \<Longrightarrow> cached_all Q m \<Longrightarrow> cached_all Q (ClearCache_api d i m)"
  by (auto simp: AddCacheApi_def DelCacheApi_def ClearCache_api_def smap_simps new_holds mgr_ok_def
      DoClear_holds cached_all_def intro!: cached_all_store split: option.splits if_splits)
     (auto simp: store_cache_def smap_simps DoClear_holds split: if_splits)

lemma PreSendRequest_total:
  assumes ok: "mgr_ok m" and Q: "cached_all Q m" and ne: "\<And>v. Q v \<Longrightarrow> v \<noteq> []"
  shows "\<exists>ret r m' clk'. PreSendRequest P d a q reply m clk = Inr (ret, r, m', clk')
    \<and> mgr_ok m' \<and> cached_all Q m'"
proof (cases "\<exists>c. smap_find (cachesM m) (d, a) = Some (Some c)")
  case True
  then obtain c where c: "smap_find (cachesM m) (d, a) = Some (Some c)" by blast
  have okc: "cache_ok c" using mgr_ok_cache [OF ok c] .
  obtain r c' clk' where g: "DoGet (GetData P q) c clk = Inr (r, c', clk')" "cache_ok c'"
    using lru.get_total [OF okc] by blast
  have "r = Some v \<Longrightarrow> v \<noteq> []" for v
    using lru.get_holds [OF okc] g(1) cached_allD [OF Q c] ne by blast
  moreover have "cached_all Q (store_cache (d, a) c' m)"
    using lru.get_frame [OF okc g(1)] cached_allD [OF Q c] by (blast intro: cached_all_store ok Q)
  ultimately show ?thesis
    using c g ok by (auto simp: PreSendRequest_def mgr_ok_store Let_def split: option.split prod.split)
next
  case False
  then show ?thesis
    using ok Q by (auto simp: PreSendRequest_def split: option.split)
qed

lemma PostSendRequest_total:
  assumes ok: "mgr_ok m" and Q: "cached_all Q m" and v: "Q (GetData P reply)"
  shows "\<exists>ret m' clk'. PostSendRequest P d a q reply m clk = Inr (ret, m', clk')
    \<and> mgr_ok m' \<and> cached_all Q m'"
proof (cases "\<exists>c. smap_find (cachesM m) (d, a) = Some (Some c)")
  case True
  then obtain c where c: "smap_find (cachesM m) (d, a) = Some (Some c)" by blast
  have okc: "cache_ok c" using mgr_ok_cache [OF ok c] .
  obtain c' clk' where g: "DoAdd (GetData P q) (GetData P reply) c clk = Inr (c', clk')" "cache_ok c'"
    using lru.add_total [OF okc] by blast
  have "cached_all Q (store_cache (d, a) c' m)"
    using lru.add_all_values [OF okc g(1), of Q] v cached_allD [OF Q c] by (blast intro: cached_all_store ok Q)
  then show ?thesis
    using c g ok Q by (auto simp: PostSendRequest_def mgr_ok_store)
next
  case False
  then show ?thesis
    using ok Q by (auto simp: PostSendRequest_def split: option.split)
qed

lemma mgr_call_ok:
  assumes "mgr_ok m" "cached_all Q m" "posts_only P Q x" "\<And>v. Q v \<Longrightarrow> v \<noteq> []"
  shows "\<exists>m' clk'. mgr_call P x (m, clk) = Inr (m', clk') \<and> mgr_ok m' \<and> cached_all Q m'"
proof (cases x)
  case (CallPreSendRequest d a q r)
  then show ?thesis using PreSendRequest_total [OF assms(1,2,4), of P d a q r clk] by auto
next
  case (CallPostSendRequest d a q r)
  then show ?thesis using PostSendRequest_total [OF assms(1,2), of P r d a q clk] assms(3) by auto
qed (use assms in \<open>auto simp: cached_all_clear cached_all_registry intro: ok_intros\<close>)

lemma mgr_run_ok:
  assumes "\<And>v. Q v \<Longrightarrow> v \<noteq> []"
  shows "mgr_ok m \<Longrightarrow> cached_all Q m \<Longrightarrow> list_all (posts_only P Q) xs \<Longrightarrow>
    \<exists>m' clk'. mgr_run P xs (m, clk) = Inr (m', clk') \<and> mgr_ok m' \<and> cached_all Q m'"
proof (induction xs arbitrary: m clk)
  case (Cons x xs)
  then obtain m1 clk1 where "mgr_call P x (m, clk) = Inr (m1, clk1)" "mgr_ok m1" "cached_all Q m1"
    using mgr_call_ok [OF Cons.prems(1,2) _ assms, of P x clk] by auto
  then show ?case using Cons.IH [of m1 clk1] Cons.prems(3) by auto
qed simp

section \<open>Properties\<close>

text \<open>Which entries of the table a call may change, and which calls empty an entry.\<close>

fun touches :: "'p api_call \<Rightarrow> api_pair \<Rightarrow> bool" where
  "touches (CallAddCacheApi d a e) k = (k = (d, a))"
| "touches (CallDelCacheApi d a) k = (k = (d, a))"
| "touches CallClearCache k = True"
| "touches (CallClearCacheDescriptor d) k = (fst k = d)"
| "touches (CallClearCacheApi d i) k = (k = (d, word_of_int i))"
| "touches (CallPreSendRequest d a q r) k = (k = (d, a))"
| "touches (CallPostSendRequest d a q r) k = (k = (d, a))"

fun empties :: "'p api_call \<Rightarrow> api_pair \<Rightarrow> bool" where
  "empties CallClearCache k = True"
| "empties (CallClearCacheDescriptor d) k = (fst k = d)"
| "empties (CallClearCacheApi d i) k = (k = (d, word_of_int i))"
| "empties (CallDelCacheApi d a) k = (k = (d, a))"
| "empties _ k = False"

text \<open>
  What the IPC library documents of a parcel: raising the capacity keeps the contents, and the contents
  of a parcel (\<open>r1\<close>) are appended to another that has room for them. Only whole contents are claimed to be appended
  as they are: the library pads what it writes, and the contents of a parcel are padded already.
\<close>

definition parcel_append_law :: "'p parcel_ops \<Rightarrow> bool" where
  "parcel_append_law P \<longleftrightarrow>
     (\<forall>n r. n > GetMaxCapacity P r \<longrightarrow>
        GetMaxCapacity P (SetMaxCapacity P n r) = n \<and> GetData P (SetMaxCapacity P n r) = GetData P r) \<and>
     (\<forall>r1 r. GetData P r1 \<noteq> [] \<longrightarrow> length (GetData P r) + length (GetData P r1) \<le> GetMaxCapacity P r \<longrightarrow>
        fst (WriteBuffer P (GetData P r1) r) \<and>
        GetData P (snd (WriteBuffer P (GetData P r1) r)) = GetData P r @ GetData P r1)"

text \<open>A concrete parcel for the witnesses: its bytes and its capacity.\<close>

definition list_parcel :: "(byte list \<times> nat) parcel_ops" where
  "list_parcel = \<lparr>GetData = fst, GetOffsetsSize = (\<lambda>_. 0), GetMaxCapacity = snd,
     SetMaxCapacity = (\<lambda>n (b, _). (b, n)),
     WriteBuffer = (\<lambda>v (b, n). if length b + length v \<le> n then (True, (b @ v, n)) else (False, (b, n)))\<rparr>"

lemma list_parcel_law: "parcel_append_law list_parcel"
  by (simp add: parcel_append_law_def list_parcel_def case_prod_beta)

text \<open>
  Starting from the empty manager, any sequence of calls whose cached replies are non-empty is
  free of undefined behaviour and leaves every inner cache consistent.
\<close>

theorem api_run_safe:
  assumes "list_all (posts_only P (\<lambda>v. v \<noteq> [])) calls"
  shows "\<exists>m clk'. mgr_run P calls (ApiCacheManager, clk) = Inr (m, clk') \<and> mgr_ok m"
proof -
  have "cached_all (\<lambda>v. v \<noteq> []) ApiCacheManager" by (simp add: cached_all_def ApiCacheManager_def)
  then show ?thesis
    using mgr_run_ok [of "\<lambda>v. v \<noteq> []" ApiCacheManager P calls clk] mgr_ok_init assms by blast
qed

theorem api_run_safe_witness:
  "\<exists>m clk'. mgr_run list_parcel [CallAddCacheApi [65] 3 100, CallPostSendRequest [65] 3 ([1], 9) ([7], 9),
      CallPreSendRequest [65] 3 ([1], 9) ([], 9)] (ApiCacheManager, sconst 0) = Inr (m, clk') \<and> mgr_ok m"
  by (rule api_run_safe) (simp add: list_parcel_def)

text \<open>
  C37. Round trip of the reply cache: after \<open>PostSendRequest\<close> cached a non-empty reply for a
  registered API, \<open>PreSendRequest\<close> with the same request bytes reports a hit and appends exactly
  the cached bytes to the reply parcel, unless the entry has expired by the second clock reading.
\<close>

theorem post_then_pre:
  assumes "parcel_append_law P" and "mgr_ok m" and "smap_find (cachesM m) (d, a) = Some (Some c)"
    and "GetOffsetsSize P q = 0" and "GetOffsetsSize P r = 0" and "GetData P r \<noteq> []"
    and "GetData P q' = GetData P q"
  shows "\<exists>m1 clk1. PostSendRequest P d a q r m clk = Inr (True, m1, clk1) \<and>
     (\<exists>ret r' m2 clk2. PreSendRequest P d a q' r0 m1 clk1 = Inr (ret, r', m2, clk2) \<and>
        (if expireTimeMilliSecM c > 0 \<and> s64 (shd clk1 - shd clk) > expireTimeMilliSecM c
         then \<not> ret \<and> r' = r0
         else ret \<and> GetData P r' = GetData P r0 @ GetData P r))"
proof -
  have okc: "cache_ok c" using assms(2,3) by (rule mgr_ok_cache)
  let ?late = "\<lambda>clk1. expireTimeMilliSecM c > 0 \<and> s64 (shd clk1 - shd clk) > expireTimeMilliSecM c"
  obtain c1 clk1 where 1: "DoAdd (GetData P q) (GetData P r) c clk = Inr (c1, clk1)" "cache_ok c1"
      "expireTimeMilliSecM c1 = expireTimeMilliSecM c"
      "abs_cache c1 = lru_add (sizeM c) (add_stale c clk) (GetData P q) (GetData P r) (shd clk) (abs_cache c)"
    using DoAdd_refines [OF okc, of "GetData P q" "GetData P r" clk] by blast
  have "fst (lru_get (get_stale c1 clk1) (GetData P q) (abs_cache c1)) =
      (if ?late clk1 then None else Some (GetData P r))"
    by (simp add: lru_get_def 1(3,4) lru_add_def get_stale_def)
  then obtain c2 clk2 where 2: "DoGet (GetData P q) c1 clk1 =
      Inr (if ?late clk1 then None else Some (GetData P r), c2, clk2)"
    using DoGet_refines [OF 1(2), of "GetData P q" clk1] by auto
  have post: "PostSendRequest P d a q r m clk = Inr (True, store_cache (d, a) c1 m, clk1)"
    using assms(3-5) 1(1) by (simp add: PostSendRequest_def)
  have found: "smap_find (cachesM (store_cache (d, a) c1 m)) (d, a) = Some (Some c1)"
    using assms(2) by (simp add: find_store)
  define sz where "sz = length (GetData P r0) + length (GetData P r)"
  define r1 where "r1 = (if sz > GetMaxCapacity P r0 then SetMaxCapacity P sz r0 else r0)"
  obtain ret r2 where w: "WriteBuffer P (GetData P r) r1 = (ret, r2)" by force
  have "GetData P r1 = GetData P r0" "sz \<le> GetMaxCapacity P r1"
    using assms(1) by (auto simp: r1_def parcel_append_law_def)
  then have "ret" "GetData P r2 = GetData P r0 @ GetData P r"
    using assms(1,6) w unfolding parcel_append_law_def sz_def by (metis fst_conv, metis snd_conv)
  moreover have "PreSendRequest P d a q' r0 (store_cache (d, a) c1 m) clk1 =
      Inr (if ?late clk1 then (False, r0, store_cache (d, a) c2 (store_cache (d, a) c1 m), clk2)
           else (ret, r2, store_cache (d, a) c2 (store_cache (d, a) c1 m), clk2))"
    using found 2 w assms(6,7) by (simp add: PreSendRequest_def Let_def r1_def [symmetric] sz_def [symmetric])
  ultimately show ?thesis using post by (cases "?late clk1") auto
qed

text \<open>
  C39. An empty reply is cached like any other, and the next hit on it takes the address of the first
  byte of an empty vector, which is undefined behaviour: the non-emptiness hypothesis of the two
  properties above cannot be dropped.
\<close>

theorem empty_reply_hit_undefined:
  assumes "mgr_ok m" and "smap_find (cachesM m) (d, a) = Some (Some c)" and "expireTimeMilliSecM c = 0"
    and "GetOffsetsSize P q = 0" and "GetOffsetsSize P r = 0" and "GetData P r = []"
  shows "\<exists>m1 clk1. PostSendRequest P d a q r m clk = Inr (True, m1, clk1)
     \<and> PreSendRequest P d a q r0 m1 clk1 = Inl EmptyAccess"
proof -
  have okc: "cache_ok c" using assms(1,2) by (rule mgr_ok_cache)
  obtain c1 clk1 where 1: "DoAdd (GetData P q) [] c clk = Inr (c1, clk1)" "cache_ok c1"
      "expireTimeMilliSecM c1 = 0"
      "abs_cache c1 = lru_add (sizeM c) (add_stale c clk) (GetData P q) [] (shd clk) (abs_cache c)"
    using DoAdd_refines [OF okc, of "GetData P q" "[]" clk] assms(3) by auto
  have "fst (lru_get (get_stale c1 clk1) (GetData P q) (abs_cache c1)) = Some []"
    by (simp add: lru_get_def 1(3,4) lru_add_def get_stale_def)
  then obtain c2 clk2 where 2: "DoGet (GetData P q) c1 clk1 = Inr (Some [], c2, clk2)"
    using DoGet_refines [OF 1(2), of "GetData P q" clk1] by auto
  have found: "smap_find (cachesM (store_cache (d, a) c1 m)) (d, a) = Some (Some c1)"
    using assms(1) by (simp add: find_store)
  show ?thesis
    using assms(2,4-6) 1(1) 2 found by (simp add: PostSendRequest_def PreSendRequest_def Let_def)
qed

lemma PreSendRequest_state:
  "PreSendRequest P d a q r m clk = Inr (ret, r', m', clk') \<Longrightarrow> m' = m \<or> (\<exists>c. m' = store_cache (d, a) c m)"
  by (cases "smap_find (cachesM m) (d, a)")
     (fastforce simp: PreSendRequest_def Let_def ub_bind_Inr case_prod_beta split: option.splits if_splits)+

lemma PostSendRequest_state:
  "PostSendRequest P d a q r m clk = Inr (ret, m', clk') \<Longrightarrow> m' = m \<or> (\<exists>c. m' = store_cache (d, a) c m)"
  by (auto simp: PostSendRequest_def ub_bind_Inr split: option.splits if_splits)

text \<open>
  C38. The caches of different APIs are isolated: a call that succeeds leaves the cache of every API
  it does not name untouched.
\<close>

theorem api_isolation:
  assumes "mgr_ok m" and "mgr_call P x (m, clk) = Inr (m', clk')" and "\<not> touches x k"
  shows "smap_find (cachesM m') k = smap_find (cachesM m) k"
proof (cases x)
  case (CallPreSendRequest d a q r)
  then show ?thesis
    using assms by (auto simp: ub_bind_Inr find_store dest!: PreSendRequest_state)
next
  case (CallPostSendRequest d a q r)
  then show ?thesis
    using assms by (auto simp: ub_bind_Inr find_store dest!: PostSendRequest_state)
qed (use assms in \<open>auto simp: AddCacheApi_def DelCacheApi_def ClearCache_api_def ClearCache_descriptor_def
       find_store smap_find_map_val sm.lookup_assign smap_find_erase mgr_ok_def option.map_ident split: option.splits if_splits\<close>)

text \<open>
  Invalidation: after any of the three \<open>ClearCache\<close> overloads, or a \<open>DelCacheApi\<close>, that covers
  an API, the next \<open>PreSendRequest\<close> for it misses and leaves the reply parcel alone, whatever the
  request is. The overload with a signed code reaches the unsigned key it converts to.
\<close>

theorem cleared_api_misses:
  assumes "mgr_ok m" and "empties x (d, a)" and "mgr_call P x (m, clk) = Inr (m', clk')"
  shows "\<exists>m'' clk''. PreSendRequest P d a q r m' clk0 = Inr (False, r, m'', clk'')"
proof -
  have cleared: "\<exists>c0. smap_find (cachesM m) (d, a) = Some (Some c0) \<and> c = DoClear c0"
    if "smap_find (cachesM m') (d, a) = Some (Some c)" for c
    using assms that
    by (cases x)
       (auto simp: ClearCache_def ClearCache_descriptor_def ClearCache_api_def DelCacheApi_def
         smap_find_map_val find_store smap_find_erase split: option.splits if_splits)
  show ?thesis
  proof (cases "\<exists>c. smap_find (cachesM m') (d, a) = Some (Some c)")
    case True
    then obtain c0 where c0: "cache_ok c0" "smap_find (cachesM m') (d, a) = Some (Some (DoClear c0))"
      using cleared mgr_ok_cache [OF assms(1)] by blast
    show ?thesis
      using lru.get_after_clear [OF c0(1), of "GetData P q" clk0] c0(2) by (auto simp: PreSendRequest_def)
  next
    case False
    then show ?thesis by (auto simp: PreSendRequest_def split: option.split)
  qed
qed

section \<open>Witnesses\<close>

text \<open>A manager with one registered API, whose cache does not expire.\<close>

definition one_api :: api_cache_manager where
  "one_api = AddCacheApi [65] 3 0 ApiCacheManager"

lemma one_api_facts:
  "mgr_ok one_api"
  "smap_find (cachesM one_api) ([65], 3) = Some (Some (ExpireLruCache 8 0))"
  by (auto simp: one_api_def ApiCacheManager_def AddCacheApi_def smap_find_def defaultCacheSize_def
      intro: ok_intros mgr_ok_init [unfolded ApiCacheManager_def])
     (use mgr_ok_AddCacheApi [OF mgr_ok_init, of "[65]" 3 0] in
       \<open>simp add: ApiCacheManager_def AddCacheApi_def defaultCacheSize_def smap_find_def\<close>)

theorem post_then_pre_witness:
  "\<exists>m1 clk1. PostSendRequest list_parcel [65] 3 ([1], 9) ([7], 9) one_api (sconst 0) = Inr (True, m1, clk1) \<and>
     (\<exists>ret r' m2 clk2. PreSendRequest list_parcel [65] 3 ([1], 9) ([], 9) m1 clk1 = Inr (ret, r', m2, clk2)
        \<and> ret \<and> fst r' = [7])"
  using post_then_pre [OF list_parcel_law one_api_facts, of "([1], 9)" "([7], 9)" "([1], 9)" "sconst 0" "([], 9)"]
  by (auto simp: list_parcel_def ExpireLruCache_def)

theorem empty_reply_hit_undefined_witness:
  "\<exists>m1 clk1. PostSendRequest list_parcel [65] 3 ([1], 9) ([], 9) one_api (sconst 0) = Inr (True, m1, clk1)
     \<and> PreSendRequest list_parcel [65] 3 ([1], 9) ([], 9) m1 clk1 = Inl EmptyAccess"
  by (rule empty_reply_hit_undefined [OF one_api_facts]) (simp_all add: list_parcel_def ExpireLruCache_def)

theorem api_isolation_witness:
  "smap_find (cachesM (DelCacheApi [66] 3 one_api)) ([65], 3) = smap_find (cachesM one_api) ([65], 3)"
  by (rule api_isolation [OF one_api_facts(1), of list_parcel "CallDelCacheApi [66] 3" "sconst 0" _ "sconst 0"])
     simp_all

theorem cleared_api_misses_witness:
  "\<exists>m'' clk''. PreSendRequest list_parcel [65] 3 ([1], 9) ([], 9) (ClearCache_api [65] 3 one_api) (sconst 0)
     = Inr (False, ([], 9), m'', clk'')"
  by (rule cleared_api_misses [OF one_api_facts(1), of "CallClearCacheApi [65] 3"]) simp_all

end
