(* ===== verification/Api_Cache_Heap.thy ===== *)
theory Api_Cache_Heap
  imports Api_Cache_Manager
begin

text \<open>
  The memory of \<open>ApiCacheManager\<close>. The table \<open>caches_\<close> holds raw pointers to caches that are created with \<open>new\<close> in \<open>AddCacheApi\<close>,
  deleted in \<open>DelCacheApi\<close> and in the destructor, and used in between. Here the caches live in a store of allocated addresses, and using or
  deleting an address that is not allocated is the undefined behaviour \<open>InvalidPointer\<close>.

  The manager owns its caches: every allocated cache belongs to exactly one entry (\<open>owned\<close>). This makes the operations refine those of
  \<open>Api_Cache_Manager\<close>, where an entry holds the cache itself, and makes the destructor free everything. The choice of
  a free address is left to the allocator, which may use an address again.
\<close>

section \<open>The store\<close>

type_synonym store = "(nat, api_cache) smap"

definition allocator :: "(store \<Rightarrow> nat) \<Rightarrow> bool" where
  "allocator new \<longleftrightarrow> (\<forall>s. smap_find s (new s) = None)"

definition deref :: "nat \<Rightarrow> store \<Rightarrow> ub + api_cache" where
  "deref a s = (case smap_find s a of None \<Rightarrow> Inl InvalidPointer | Some c \<Rightarrow> Inr c)"

definition delete_cache :: "nat option \<Rightarrow> store \<Rightarrow> ub + store" where
  "delete_cache ptr s =
     (case ptr of
        None \<Rightarrow> Inr s
      | Some a \<Rightarrow> (case smap_find s a of None \<Rightarrow> Inl InvalidPointer | Some c \<Rightarrow> Inr (smap_erase a s)))"

record heap_manager =
  storeP :: store
  cachesP :: "(api_pair, nat option) smap"

section \<open>The operations\<close>

definition heap_ApiCacheManager :: heap_manager where
  "heap_ApiCacheManager = \<lparr>storeP = [], cachesP = []\<rparr>"

definition heap_AddCacheApi :: "(store \<Rightarrow> nat) \<Rightarrow> u16string \<Rightarrow> 32 word \<Rightarrow> int \<Rightarrow> heap_manager \<Rightarrow> heap_manager" where
  "heap_AddCacheApi new descriptor apiCode expireTimeSec h =
     (let apiPair = (descriptor, apiCode) in
      case smap_find (cachesP h) apiPair of
        None \<Rightarrow>
          let obj = new (storeP h)
          in h\<lparr>storeP := smap_assign obj (ExpireLruCache defaultCacheSize expireTimeSec) (storeP h),
               cachesP := smap_assign apiPair (Some obj) (cachesP h)\<rparr>
      | Some _ \<Rightarrow> h)"

definition heap_DelCacheApi :: "u16string \<Rightarrow> 32 word \<Rightarrow> heap_manager \<Rightarrow> ub + heap_manager" where
  "heap_DelCacheApi descriptor apiCode h =
     (let apiPair = (descriptor, apiCode) in
      case smap_find (cachesP h) apiPair of
        None \<Rightarrow> Inr h
      | Some ptr \<Rightarrow>
          ub_bind (if ptr \<noteq> None then delete_cache ptr (storeP h) else Inr (storeP h)) (\<lambda>s.
            Inr (h\<lparr>storeP := s, cachesP := smap_erase apiPair (cachesP h)\<rparr>)))"

text \<open>The loops over the table: the entries that are selected are cleared, or all are deleted.\<close>

fun clear_entries :: "(api_pair \<Rightarrow> bool) \<Rightarrow> (api_pair \<times> nat option) list \<Rightarrow> store \<Rightarrow> ub + store" where
  "clear_entries sel [] s = Inr s"
| "clear_entries sel ((k, None) # rest) s = clear_entries sel rest s"
| "clear_entries sel ((k, Some a) # rest) s =
     (if sel k then ub_bind (deref a s) (\<lambda>c. clear_entries sel rest (smap_assign a (DoClear c) s))
      else clear_entries sel rest s)"

definition heap_ClearCache :: "heap_manager \<Rightarrow> ub + heap_manager" where
  "heap_ClearCache h = ub_bind (clear_entries (\<lambda>k. True) (cachesP h) (storeP h)) (\<lambda>s. Inr (h\<lparr>storeP := s\<rparr>))"

definition heap_ClearCache_descriptor :: "u16string \<Rightarrow> heap_manager \<Rightarrow> ub + heap_manager" where
  "heap_ClearCache_descriptor descriptor h =
     ub_bind (clear_entries (\<lambda>k. fst k = descriptor) (cachesP h) (storeP h)) (\<lambda>s. Inr (h\<lparr>storeP := s\<rparr>))"

definition heap_ClearCache_api :: "u16string \<Rightarrow> int \<Rightarrow> heap_manager \<Rightarrow> ub + heap_manager" where
  "heap_ClearCache_api descriptor apiCode h =
     (case smap_find (cachesP h) (descriptor, word_of_int apiCode) of
        Some (Some a) \<Rightarrow> ub_bind (deref a (storeP h)) (\<lambda>c. Inr (h\<lparr>storeP := smap_assign a (DoClear c) (storeP h)\<rparr>))
      | _ \<Rightarrow> Inr h)"

definition heap_PreSendRequest :: "'p parcel_ops \<Rightarrow> u16string \<Rightarrow> 32 word \<Rightarrow> 'p \<Rightarrow> 'p
    \<Rightarrow> heap_manager \<Rightarrow> clock \<Rightarrow> ub + bool \<times> 'p \<times> heap_manager \<times> clock" where
  "heap_PreSendRequest P descriptor apiCode dat reply h clk =
     (let keyVec = GetData P dat in
      case smap_find (cachesP h) (descriptor, apiCode) of
        Some (Some a) \<Rightarrow>
          ub_bind (deref a (storeP h)) (\<lambda>c.
          ub_bind (DoGet keyVec c clk) (\<lambda>(valueVec, c, clk).
            let h = h\<lparr>storeP := smap_assign a c (storeP h)\<rparr> in
            case valueVec of
              None \<Rightarrow> Inr (False, reply, h, clk)
            | Some v \<Rightarrow>
                let size = length (GetData P reply) + length v;
                    reply = (if size > GetMaxCapacity P reply then SetMaxCapacity P size reply else reply)
                in if v = [] then Inl EmptyAccess
                   else let (ret, reply) = WriteBuffer P v reply in Inr (ret, reply, h, clk)))
      | _ \<Rightarrow> Inr (False, reply, h, clk))"

definition heap_PostSendRequest :: "'p parcel_ops \<Rightarrow> u16string \<Rightarrow> 32 word \<Rightarrow> 'p \<Rightarrow> 'p
    \<Rightarrow> heap_manager \<Rightarrow> clock \<Rightarrow> ub + bool \<times> heap_manager \<times> clock" where
  "heap_PostSendRequest P descriptor apiCode dat reply h clk =
     (if GetOffsetsSize P dat \<noteq> 0 \<or> GetOffsetsSize P reply \<noteq> 0 then Inr (False, h, clk)
      else case smap_find (cachesP h) (descriptor, apiCode) of
        Some (Some a) \<Rightarrow>
          ub_bind (deref a (storeP h)) (\<lambda>c.
          ub_bind (DoAdd (GetData P dat) (GetData P reply) c clk) (\<lambda>(c, clk).
            Inr (True, h\<lparr>storeP := smap_assign a c (storeP h)\<rparr>, clk)))
      | _ \<Rightarrow> Inr (False, h, clk))"

fun delete_entries :: "(api_pair \<times> nat option) list \<Rightarrow> store \<Rightarrow> ub + store" where
  "delete_entries [] s = Inr s"
| "delete_entries ((k, ptr) # rest) s = ub_bind (delete_cache ptr s) (delete_entries rest)"

text \<open>The destructor; the store that is left is what has been leaked.\<close>

definition heap_destroy :: "heap_manager \<Rightarrow> ub + store" where
  "heap_destroy h = delete_entries (cachesP h) (storeP h)"

text \<open>
  The one instance is a static variable of \<open>GetInstance\<close>: it is constructed by the first call that asks for it, all calls work on it, and it is
  destroyed when the process ends, if it was constructed.
\<close>

definition GetInstance :: "heap_manager option \<Rightarrow> heap_manager" where
  "GetInstance instance' = (case instance' of None \<Rightarrow> heap_ApiCacheManager | Some h \<Rightarrow> h)"

definition exit_process :: "heap_manager option \<Rightarrow> ub + store" where
  "exit_process instance' = (case instance' of None \<Rightarrow> Inr [] | Some h \<Rightarrow> heap_destroy h)"

fun heap_call :: "(store \<Rightarrow> nat) \<Rightarrow> 'p parcel_ops \<Rightarrow> 'p api_call \<Rightarrow> heap_manager \<times> clock \<Rightarrow> ub + heap_manager \<times> clock" where
  "heap_call new P (CallAddCacheApi d a e) (h, clk) = Inr (heap_AddCacheApi new d a e h, clk)"
| "heap_call new P (CallDelCacheApi d a) (h, clk) = ub_bind (heap_DelCacheApi d a h) (\<lambda>h. Inr (h, clk))"
| "heap_call new P CallClearCache (h, clk) = ub_bind (heap_ClearCache h) (\<lambda>h. Inr (h, clk))"
| "heap_call new P (CallClearCacheDescriptor d) (h, clk) = ub_bind (heap_ClearCache_descriptor d h) (\<lambda>h. Inr (h, clk))"
| "heap_call new P (CallClearCacheApi d a) (h, clk) = ub_bind (heap_ClearCache_api d a h) (\<lambda>h. Inr (h, clk))"
| "heap_call new P (CallPreSendRequest d a q r) (h, clk) =
     ub_bind (heap_PreSendRequest P d a q r h clk) (\<lambda>(ret, reply, s). Inr s)"
| "heap_call new P (CallPostSendRequest d a q r) (h, clk) =
     ub_bind (heap_PostSendRequest P d a q r h clk) (\<lambda>(ret, s). Inr s)"

fun heap_run :: "(store \<Rightarrow> nat) \<Rightarrow> 'p parcel_ops \<Rightarrow> 'p api_call list \<Rightarrow> heap_manager option \<times> clock \<Rightarrow> ub + heap_manager option \<times> clock" where
  "heap_run new P [] s = Inr s"
| "heap_run new P (x # xs) (instance', clk) =
     ub_bind (heap_call new P x (GetInstance instance', clk)) (\<lambda>(h, clk). heap_run new P xs (Some h, clk))"

section \<open>Ownership\<close>

definition owned :: "heap_manager \<Rightarrow> bool" where
  "owned h \<longleftrightarrow> smap_ok (storeP h) \<and> smap_ok (cachesP h)
     \<and> (\<forall>k k' a. smap_find (cachesP h) k = Some (Some a) \<longrightarrow> smap_find (cachesP h) k' = Some (Some a) \<longrightarrow> k = k')
     \<and> (\<forall>a. smap_find (storeP h) a \<noteq> None \<longleftrightarrow> (\<exists>k. smap_find (cachesP h) k = Some (Some a)))"

text \<open>The table with the caches in place of their addresses.\<close>

definition abs_manager :: "heap_manager \<Rightarrow> api_cache_manager" where
  "abs_manager h = \<lparr>cachesM = map (\<lambda>(k, ptr). (k, Option.bind ptr (smap_find (storeP h)))) (cachesP h)\<rparr>"

lemma ownedD:
  assumes "owned h"
  shows "smap_ok (storeP h)" "smap_ok (cachesP h)"
    "smap_find (cachesP h) k = Some (Some a) \<Longrightarrow> \<exists>c. smap_find (storeP h) a = Some c"
    "smap_find (cachesP h) k = Some (Some a) \<Longrightarrow> smap_find (cachesP h) k' = Some (Some a) \<Longrightarrow> k' = k"
    "smap_find (storeP h) a = None \<Longrightarrow> smap_find (cachesP h) k \<noteq> Some (Some a)"
  using assms unfolding owned_def by blast+

lemma ownedI:
  assumes "smap_ok (storeP h)" "smap_ok (cachesP h)"
    and "\<And>k k' a. smap_find (cachesP h) k = Some (Some a) \<Longrightarrow> smap_find (cachesP h) k' = Some (Some a) \<Longrightarrow> k = k'"
    and "\<And>k a. smap_find (cachesP h) k = Some (Some a) \<Longrightarrow> smap_find (storeP h) a \<noteq> None"
    and "\<And>a. smap_find (storeP h) a \<noteq> None \<Longrightarrow> \<exists>k. smap_find (cachesP h) k = Some (Some a)"
  shows "owned h"
  unfolding owned_def using assms by blast

lemma owned_cell: "owned h \<Longrightarrow> smap_find (storeP h) a \<noteq> None \<longleftrightarrow> (\<exists>k. smap_find (cachesP h) k = Some (Some a))"
  by (simp only: owned_def)

lemma smap_ext:
  assumes ok: "smap_ok m" "smap_ok m'" and same: "\<And>k. smap_find m k = smap_find m' k"
  shows "m = m'"
proof (rule map_sorted_distinct_set_unique [where f = fst])
  have set: "set m = set m'" using same smap_find_entry [OF ok(1)] smap_find_entry [OF ok(2)] by auto
  then show "set m = set m'" .
  show "inj_on fst (set m \<union> set m')" using smap_ok_distinct [OF ok(1)] set by (simp add: distinct_map)
qed (use ok in \<open>simp_all add: smap_ok_def strict_sorted_iff\<close>)

lemma abs_find: "smap_find (cachesM (abs_manager h)) k = map_option (\<lambda>ptr. Option.bind ptr (smap_find (storeP h))) (smap_find (cachesP h) k)"
  by (simp add: abs_manager_def smap_find_map_val [of "\<lambda>k ptr. Option.bind ptr (smap_find (storeP h))"])

lemma abs_ok: "smap_ok (cachesP h) \<Longrightarrow> smap_ok (cachesM (abs_manager h))"
  by (simp add: abs_manager_def smap_ok_map_val [of _ "\<lambda>k ptr. Option.bind ptr (smap_find (storeP h))"])

lemma abs_eqI:
  assumes "smap_ok (cachesP h)" "smap_ok (cachesM m)"
    and "\<And>k. map_option (\<lambda>ptr. Option.bind ptr (smap_find (storeP h))) (smap_find (cachesP h) k) = smap_find (cachesM m) k"
  shows "abs_manager h = m"
  using smap_ext [OF abs_ok [OF assms(1)] assms(2)] assms(3) by (simp add: abs_find)

lemma owned_deref:
  assumes "owned h" and "smap_find (cachesP h) k = Some (Some a)"
  shows "\<exists>c. smap_find (storeP h) a = Some c \<and> deref a (storeP h) = Inr c \<and> smap_find (cachesM (abs_manager h)) k = Some (Some c)"
  using ownedD(3) [OF assms] assms(2) by (auto simp: deref_def abs_find)

lemma owned_same_cells:
  "owned h \<Longrightarrow> smap_ok s \<Longrightarrow> (\<And>a. smap_find s a = None \<longleftrightarrow> smap_find (storeP h) a = None) \<Longrightarrow> owned (h\<lparr>storeP := s\<rparr>)"
  by (simp add: owned_def)

text \<open>Changing an owned cache in place is changing the entry of the abstract table.\<close>

lemma store_owned:
  assumes o: "owned h" and k: "smap_find (cachesP h) k = Some (Some a)"
  shows "owned (h\<lparr>storeP := smap_assign a c (storeP h)\<rparr>)"
    and "abs_manager (h\<lparr>storeP := smap_assign a c (storeP h)\<rparr>) = store_cache k c (abs_manager h)"
proof -
  show "owned (h\<lparr>storeP := smap_assign a c (storeP h)\<rparr>)"
    using ownedD(3) [OF o k] ownedD(1) [OF o] by (intro owned_same_cells [OF o]) (auto simp: sm.invar_assign sm.lookup_assign)
  show "abs_manager (h\<lparr>storeP := smap_assign a c (storeP h)\<rparr>) = store_cache k c (abs_manager h)"
  proof (rule abs_eqI)
    fix k'
    have "smap_find (cachesP h) k' = Some (Some a) \<longleftrightarrow> k' = k" using ownedD(4) [OF o k] k by blast
    then show "map_option (\<lambda>ptr. Option.bind ptr (smap_find (storeP (h\<lparr>storeP := smap_assign a c (storeP h)\<rparr>))))
        (smap_find (cachesP (h\<lparr>storeP := smap_assign a c (storeP h)\<rparr>)) k') = smap_find (cachesM (store_cache k c (abs_manager h))) k'"
      using k ownedD(1,2) [OF o]
      by (cases "smap_find (cachesP h) k'")
         (auto simp: store_cache_def sm.lookup_assign abs_ok abs_find intro!: bind_option_cong split: if_splits)
  qed (use ownedD(1,2) [OF o] in \<open>simp_all add: store_cache_def sm.invar_assign abs_ok\<close>)
qed

section \<open>The operations refine those on values\<close>

lemma heap_init: "owned heap_ApiCacheManager" "abs_manager heap_ApiCacheManager = ApiCacheManager"
  by (simp_all add: owned_def abs_manager_def heap_ApiCacheManager_def ApiCacheManager_def)

lemma heap_add:
  assumes "allocator new" and o: "owned h"
  shows "owned (heap_AddCacheApi new d a e h) \<and> abs_manager (heap_AddCacheApi new d a e h) = AddCacheApi d a e (abs_manager h)"
proof (cases "smap_find (cachesP h) (d, a)")
  case None
  define obj where "obj = new (storeP h)"
  define c :: api_cache where "c = ExpireLruCache defaultCacheSize e"
  let ?q = "h\<lparr>storeP := smap_assign obj c (storeP h), cachesP := smap_assign (d, a) (Some obj) (cachesP h)\<rparr>"
  have q: "heap_AddCacheApi new d a e h = ?q" using None by (simp add: heap_AddCacheApi_def obj_def c_def Let_def)
  have fresh: "smap_find (storeP h) obj = None" using assms(1) by (simp add: allocator_def obj_def)
  note un = ownedD(5) [OF o fresh] and ok = ownedD(1,2) [OF o]
  have find: "smap_find (cachesP ?q) k = (if k = (d, a) then Some (Some obj) else smap_find (cachesP h) k)"
      "smap_find (storeP ?q) x = (if x = obj then Some c else smap_find (storeP h) x)" for k x
    using ok by (simp_all add: sm.lookup_assign)
  have "owned ?q"
  proof (rule ownedI)
    show "k = k'" if "smap_find (cachesP ?q) k = Some (Some x)" "smap_find (cachesP ?q) k' = Some (Some x)" for k k' x
      using that un ownedD(4) [OF o, of k x k'] unfolding find by (metis option.inject)
    show "smap_find (storeP ?q) x \<noteq> None" if "smap_find (cachesP ?q) k = Some (Some x)" for k x
      using that ownedD(3) [OF o, of k x] unfolding find by (metis option.distinct(1) option.inject)
    show "\<exists>k. smap_find (cachesP ?q) k = Some (Some x)" if "smap_find (storeP ?q) x \<noteq> None" for x
      using that owned_cell [OF o, of x] None unfolding find by (metis option.distinct(1))
  qed (use ok in \<open>simp_all add: sm.invar_assign\<close>)
  moreover have "abs_manager ?q = AddCacheApi d a e (abs_manager h)"
  proof (rule abs_eqI)
    fix k
    show "map_option (\<lambda>ptr. Option.bind ptr (smap_find (storeP ?q))) (smap_find (cachesP ?q) k)
        = smap_find (cachesM (AddCacheApi d a e (abs_manager h))) k"
      using None un [of k] ok
      by (cases "smap_find (cachesP h) k")
         (auto simp: AddCacheApi_def abs_find abs_ok sm.lookup_assign c_def intro!: bind_option_cong split: if_splits)
  qed (use None ok in \<open>simp_all add: AddCacheApi_def abs_find abs_ok sm.invar_assign\<close>)
  ultimately show ?thesis by (simp add: q)
next
  case (Some ptr)
  then show ?thesis using o by (simp add: heap_AddCacheApi_def AddCacheApi_def abs_find)
qed

lemma heap_del:
  assumes o: "owned h"
  shows "\<exists>q. heap_DelCacheApi d a h = Inr q \<and> owned q \<and> abs_manager q = DelCacheApi d a (abs_manager h)"
proof (cases "smap_find (cachesP h) (d, a)")
  case None
  then show ?thesis using o by (simp add: heap_DelCacheApi_def DelCacheApi_def abs_find)
next
  case (Some ptr)
  define s where "s = (case ptr of None \<Rightarrow> storeP h | Some x \<Rightarrow> smap_erase x (storeP h))"
  let ?q = "h\<lparr>storeP := s, cachesP := smap_erase (d, a) (cachesP h)\<rparr>"
  have call: "heap_DelCacheApi d a h = Inr ?q"
    using Some ownedD(3) [OF o, of "(d, a)"] by (auto simp: heap_DelCacheApi_def delete_cache_def s_def split: option.splits)
  have find: "smap_find (cachesP ?q) k = (if k = (d, a) then None else smap_find (cachesP h) k)"
      "smap_find (storeP ?q) x = (if ptr = Some x then None else smap_find (storeP h) x)" for k x
    by (auto simp: smap_find_erase s_def split: option.split)
  have other: "k = (d, a)" if "smap_find (cachesP h) k = Some (Some x)" "ptr = Some x" for k x
    using ownedD(4) [OF o, of "(d, a)" x k] Some that by simp
  have ok: "smap_ok (storeP ?q)" "smap_ok (cachesP ?q)"
    using ownedD(1,2) [OF o] by (auto simp: s_def sm.invar_erase split: option.split)
  have "owned ?q"
  proof (rule ownedI [OF ok])
    show "k = k'" if "smap_find (cachesP ?q) k = Some (Some x)" "smap_find (cachesP ?q) k' = Some (Some x)" for k k' x
      using that ownedD(4) [OF o, of k x k'] unfolding find by (metis option.distinct(1))
    show "smap_find (storeP ?q) x \<noteq> None" if "smap_find (cachesP ?q) k = Some (Some x)" for k x
      using that other ownedD(3) [OF o, of k x] unfolding find by (metis option.distinct(1))
    show "\<exists>k. smap_find (cachesP ?q) k = Some (Some x)" if "smap_find (storeP ?q) x \<noteq> None" for x
      using that owned_cell [OF o, of x] Some unfolding find by (metis option.inject)
  qed
  moreover have "abs_manager ?q = DelCacheApi d a (abs_manager h)"
  proof (rule abs_eqI [OF ok(2)])
    fix k
    show "map_option (\<lambda>p. Option.bind p (smap_find (storeP ?q))) (smap_find (cachesP ?q) k) = smap_find (cachesM (DelCacheApi d a (abs_manager h))) k"
      using Some other [of k] unfolding find
      by (cases "smap_find (cachesP h) k") (auto simp: DelCacheApi_def abs_find smap_find_erase find intro!: bind_option_cong)
  qed (use Some ownedD(2) [OF o] in \<open>simp add: DelCacheApi_def abs_find abs_ok sm.invar_erase\<close>)
  ultimately show ?thesis using call by blast
qed

lemma DoClear_DoClear: "DoClear (DoClear c) = DoClear c"
  by (simp add: DoClear_def)

text \<open>The loop over the table does not need the pointers to be distinct, since clearing twice is clearing once.\<close>

lemma clear_entries_result:
  "smap_ok s \<Longrightarrow> (\<And>k a. (k, Some a) \<in> set es \<Longrightarrow> smap_find s a \<noteq> None) \<Longrightarrow>
     \<exists>s'. clear_entries sel es s = Inr s' \<and> smap_ok s' \<and> (\<forall>a. smap_find s' a =
       (if \<exists>k. (k, Some a) \<in> set es \<and> sel k then map_option DoClear (smap_find s a) else smap_find s a))"
proof (induction sel es s rule: clear_entries.induct)
  case (2 sel k rest s)
  then show ?case by auto
next
  case (3 sel k a rest s)
  obtain c where c: "smap_find s a = Some c" using 3(4) [of k a] by auto
  show ?case
  proof (cases "sel k")
    case True
    let ?s = "smap_assign a (DoClear c) s"
    have "smap_ok ?s" "\<And>k' b. (k', Some b) \<in> set rest \<Longrightarrow> smap_find ?s b \<noteq> None"
      using 3(3,4) by (auto simp: sm.invar_assign sm.lookup_assign)
    then obtain s' where s': "clear_entries sel rest ?s = Inr s'" "smap_ok s'" "\<forall>b. smap_find s' b =
        (if \<exists>k. (k, Some b) \<in> set rest \<and> sel k then map_option DoClear (smap_find ?s b) else smap_find ?s b)"
      using 3(1) [OF True] by blast
    have "smap_find s' b = (if \<exists>k'. (k', Some b) \<in> set ((k, Some a) # rest) \<and> sel k' then map_option DoClear (smap_find s b) else smap_find s b)" for b
      using s'(3) True c 3(3) by (cases k) (auto simp: sm.lookup_assign DoClear_DoClear)
    then show ?thesis using s'(1,2) True c by (simp add: deref_def)
  next
    case False
    have "(\<exists>k'. (k', Some b) \<in> set ((k, Some a) # rest) \<and> sel k') \<longleftrightarrow> (\<exists>k'. (k', Some b) \<in> set rest \<and> sel k')" for b
      using False by (cases k) auto
    moreover have "\<And>k' b. (k', Some b) \<in> set rest \<Longrightarrow> smap_find s b \<noteq> None" using 3(4) by (metis list.set_intros(2))
    ultimately show ?thesis using 3(2) [OF False 3(3)] False by simp
  qed
qed simp

lemma heap_clear:
  assumes o: "owned h"
  shows "\<exists>s. clear_entries sel (cachesP h) (storeP h) = Inr s \<and> owned (h\<lparr>storeP := s\<rparr>) \<and> abs_manager (h\<lparr>storeP := s\<rparr>) =
     (abs_manager h)\<lparr>cachesM := map (\<lambda>(k, c). (k, if sel k then map_option DoClear c else c)) (cachesM (abs_manager h))\<rparr>"
proof -
  note entry = smap_find_entry [OF ownedD(2) [OF o]]
  obtain s where s: "clear_entries sel (cachesP h) (storeP h) = Inr s" "smap_ok s"
      "\<And>a. smap_find s a = (if \<exists>k. smap_find (cachesP h) k = Some (Some a) \<and> sel k then map_option DoClear (smap_find (storeP h) a) else smap_find (storeP h) a)"
    using clear_entries_result [OF ownedD(1) [OF o], of "cachesP h" sel] ownedD(3) [OF o] unfolding entry by blast
  have "owned (h\<lparr>storeP := s\<rparr>)" by (rule owned_same_cells [OF o s(2)]) (simp add: s(3))
  moreover have "abs_manager (h\<lparr>storeP := s\<rparr>) =
      (abs_manager h)\<lparr>cachesM := map (\<lambda>(k, c). (k, if sel k then map_option DoClear c else c)) (cachesM (abs_manager h))\<rparr>"
  proof (rule abs_eqI)
    fix k
    have cell: "smap_find s a = (if sel k then map_option DoClear (smap_find (storeP h) a) else smap_find (storeP h) a)"
      if "smap_find (cachesP h) k = Some (Some a)" for a
      using s(3) ownedD(4) [OF o that] that by metis
    show "map_option (\<lambda>p. Option.bind p (smap_find (storeP (h\<lparr>storeP := s\<rparr>)))) (smap_find (cachesP (h\<lparr>storeP := s\<rparr>)) k) =
        smap_find (cachesM ((abs_manager h)\<lparr>cachesM := map (\<lambda>(k, c). (k, if sel k then map_option DoClear c else c)) (cachesM (abs_manager h))\<rparr>)) k"
      using cell
      by (cases "smap_find (cachesP h) k"; cases "the (smap_find (cachesP h) k)")
         (simp_all add: abs_find smap_find_map_val [of "\<lambda>k c. if sel k then map_option DoClear c else c"])
  qed (use ownedD(2) [OF o] in \<open>simp_all add: abs_ok smap_ok_map_val [of _ "\<lambda>k c. if sel k then map_option DoClear c else c"]\<close>)
  ultimately show ?thesis using s(1) by blast
qed

lemma heap_clear_api:
  assumes o: "owned h"
  shows "\<exists>q. heap_ClearCache_api d i h = Inr q \<and> owned q \<and> abs_manager q = ClearCache_api d i (abs_manager h)"
proof (cases "\<exists>a. smap_find (cachesP h) (d, word_of_int i) = Some (Some a)")
  case True
  then obtain a where a: "smap_find (cachesP h) (d, word_of_int i) = Some (Some a)" by blast
  obtain c where c: "deref a (storeP h) = Inr c" "smap_find (cachesM (abs_manager h)) (d, word_of_int i) = Some (Some c)"
    using owned_deref [OF o a] by blast
  then show ?thesis using a store_owned [OF o a, of "DoClear c"] by (simp add: heap_ClearCache_api_def ClearCache_api_def)
next
  case False
  then show ?thesis using o by (auto simp: heap_ClearCache_api_def ClearCache_api_def abs_find split: option.split)
qed

text \<open>A result of an operation on addresses corresponds to the result of the operation on values.\<close>

fun corresponds :: "ub + 'a \<times> heap_manager \<times> clock \<Rightarrow> ub + 'a \<times> api_cache_manager \<times> clock \<Rightarrow> bool" where
  "corresponds (Inl u) r \<longleftrightarrow> r = Inl u"
| "corresponds (Inr (x, h, clk)) r \<longleftrightarrow> owned h \<and> r = Inr (x, abs_manager h, clk)"

lemma heap_pre:
  assumes o: "owned h"
  shows "corresponds (map_sum id (\<lambda>(ret, reply, s). ((ret, reply), s)) (heap_PreSendRequest P d a q r h clk))
     (map_sum id (\<lambda>(ret, reply, s). ((ret, reply), s)) (PreSendRequest P d a q r (abs_manager h) clk))"
proof (cases "\<exists>x. smap_find (cachesP h) (d, a) = Some (Some x)")
  case True
  then obtain x where x: "smap_find (cachesP h) (d, a) = Some (Some x)" by blast
  obtain c where c: "deref x (storeP h) = Inr c" "smap_find (cachesM (abs_manager h)) (d, a) = Some (Some c)"
    using owned_deref [OF o x] by blast
  show ?thesis
  proof (cases "DoGet (GetData P q) c clk")
    case (Inr y)
    obtain v c' clk' where y: "y = (v, c', clk')" using prod_cases3 by blast
    show ?thesis
      using x c store_owned [OF o x, of c'] Inr
      by (simp add: heap_PreSendRequest_def PreSendRequest_def y Let_def split: option.split prod.split)
  qed (use x c in \<open>simp add: heap_PreSendRequest_def PreSendRequest_def\<close>)
next
  case False
  then show ?thesis using o by (auto simp: heap_PreSendRequest_def PreSendRequest_def abs_find split: option.split)
qed

lemma heap_post:
  assumes o: "owned h"
  shows "corresponds (heap_PostSendRequest P d a q r h clk) (PostSendRequest P d a q r (abs_manager h) clk)"
proof (cases "\<exists>x. smap_find (cachesP h) (d, a) = Some (Some x)")
  case True
  then obtain x where x: "smap_find (cachesP h) (d, a) = Some (Some x)" by blast
  obtain c where c: "deref x (storeP h) = Inr c" "smap_find (cachesM (abs_manager h)) (d, a) = Some (Some c)"
    using owned_deref [OF o x] by blast
  show ?thesis
    using x c o store_owned [OF o x]
    by (cases "DoAdd (GetData P q) (GetData P r) c clk") (auto simp: heap_PostSendRequest_def PostSendRequest_def split: prod.split)
next
  case False
  then show ?thesis using o by (auto simp: heap_PostSendRequest_def PostSendRequest_def abs_find split: option.split)
qed

section \<open>Runs\<close>

lemma heap_call_refines:
  assumes new: "allocator new" and o: "owned h"
  shows "corresponds (map_sum id (\<lambda>s. ((), s)) (heap_call new P x (h, clk))) (map_sum id (\<lambda>s. ((), s)) (mgr_call P x (abs_manager h, clk)))"
proof (cases x)
  case (CallAddCacheApi d a e)
  then show ?thesis using heap_add [OF new o] by simp
next
  case (CallDelCacheApi d a)
  then show ?thesis using heap_del [OF o, of d a] by auto
next
  case CallClearCache
  then show ?thesis using heap_clear [OF o, of "\<lambda>k. True"] by (auto simp: heap_ClearCache_def ClearCache_def)
next
  case (CallClearCacheDescriptor d)
  then show ?thesis
    using heap_clear [OF o, of "\<lambda>k. fst k = d"] by (auto simp: heap_ClearCache_descriptor_def ClearCache_descriptor_def)
next
  case (CallClearCacheApi d i)
  then show ?thesis using heap_clear_api [OF o, of d i] by auto
next
  case (CallPreSendRequest d a q r)
  then show ?thesis using heap_pre [OF o, of P d a q r clk] 
    by (cases "heap_PreSendRequest P d a q r h clk"; cases "PreSendRequest P d a q r (abs_manager h) clk") auto
next
  case (CallPostSendRequest d a q r)
  then show ?thesis using heap_post [OF o, of P d a q r clk] by (cases "heap_PostSendRequest P d a q r h clk") auto
qed

lemma heap_run_refines:
  assumes new: "allocator new"
  shows "owned (GetInstance i) \<Longrightarrow> case heap_run new P xs (i, clk) of
       Inl u \<Rightarrow> mgr_run P xs (abs_manager (GetInstance i), clk) = Inl u
     | Inr (j, clk') \<Rightarrow> owned (GetInstance j) \<and> mgr_run P xs (abs_manager (GetInstance i), clk) = Inr (abs_manager (GetInstance j), clk')"
proof (induction xs arbitrary: i clk)
  case (Cons x xs)
  note call = heap_call_refines [OF new Cons.prems, of P x clk]
  show ?case
  proof (cases "heap_call new P x (GetInstance i, clk)")
    case (Inl u)
    then show ?thesis using call by (cases "mgr_call P x (abs_manager (GetInstance i), clk)") auto
  next
    case (Inr s)
    obtain h clk' where s: "s = (h, clk')" by force
    have "owned (GetInstance (Some h))" "mgr_call P x (abs_manager (GetInstance i), clk) = Inr (abs_manager (GetInstance (Some h)), clk')"
      using call Inr by (cases "mgr_call P x (abs_manager (GetInstance i), clk)"; auto simp: s GetInstance_def)+
    then show ?thesis using Cons.IH [of "Some h" clk'] Inr by (auto simp: s split: sum.splits)
  qed
qed simp

lemma delete_entries_result:
  "distinct (map fst es) \<Longrightarrow> (\<And>k k' a. (k, Some a) \<in> set es \<Longrightarrow> (k', Some a) \<in> set es \<Longrightarrow> k = k') \<Longrightarrow>
     (\<And>k a. (k, Some a) \<in> set es \<Longrightarrow> smap_find s a \<noteq> None) \<Longrightarrow>
     \<exists>s'. delete_entries es s = Inr s' \<and> (\<forall>a. smap_find s' a = (if \<exists>k. (k, Some a) \<in> set es then None else smap_find s a))"
proof (induction es s rule: delete_entries.induct)
  case (2 k ptr rest s)
  obtain s1 where s1: "delete_cache ptr s = Inr s1" "\<And>a. smap_find s1 a = (if ptr = Some a then None else smap_find s a)"
    using "2.prems"(3) [of k] by (cases ptr) (fastforce simp: delete_cache_def smap_find_erase)+
  have d: "distinct (map fst rest)" using "2.prems"(1) by simp
  have u: "k = k'" if "(k, Some a) \<in> set rest" "(k', Some a) \<in> set rest" for k k' a
    using "2.prems"(2) [of k a k'] that by simp
  have all: "smap_find s1 a \<noteq> None" if "(k', Some a) \<in> set rest" for k' a
  proof -
    have "k' \<noteq> k" using that "2.prems"(1) by force
    then have "ptr \<noteq> Some a" using that "2.prems"(2) [of k a k'] by auto
    then show ?thesis using that "2.prems"(3) [of k' a] by (simp add: s1(2))
  qed
  have "\<exists>s'. delete_entries rest s1 = Inr s' \<and> (\<forall>a. smap_find s' a = (if \<exists>k. (k, Some a) \<in> set rest then None else smap_find s1 a))"
    by (rule "2.IH" [OF d]) (use u all in blast)+
  then show ?case by (cases k) (auto simp: s1)
qed simp

lemma owned_destroy:
  assumes o: "owned h"
  shows "heap_destroy h = Inr []"
proof -
  note entry = smap_find_entry [OF ownedD(2) [OF o]]
  obtain s where s: "heap_destroy h = Inr s"
      "\<forall>a. smap_find s a = (if \<exists>k. (k, Some a) \<in> set (cachesP h) then None else smap_find (storeP h) a)"
    using delete_entries_result [of "cachesP h" "storeP h"] smap_ok_distinct [OF ownedD(2) [OF o]] ownedD(3,4) [OF o]
    unfolding entry heap_destroy_def by blast
  have "smap_find s a = None" for a using s(2) owned_cell [OF o, of a] unfolding entry by auto
  then have "s = []" by (cases s) (auto simp: smap_find_def split: if_splits, metis option.distinct(1))
  then show ?thesis using s(1) by simp
qed

text \<open>On values, the one undefined behaviour is the hit on an empty reply.\<close>

lemma mgr_call_only_empty:
  assumes ok: "mgr_ok m"
  shows "(\<exists>m' clk'. mgr_call P x (m, clk) = Inr (m', clk') \<and> mgr_ok m') \<or> mgr_call P x (m, clk) = Inl EmptyAccess"
proof (cases x)
  case (CallPreSendRequest d a q r)
  show ?thesis
  proof (cases "\<exists>c. smap_find (cachesM m) (d, a) = Some (Some c)")
    case True
    then obtain c where c: "smap_find (cachesM m) (d, a) = Some (Some c)" by blast
    obtain v c' clk' where g: "DoGet (GetData P q) c clk = Inr (v, c', clk')" "cache_ok c'"
      using lru.get_total [OF mgr_ok_cache [OF ok c]] by blast
    then show ?thesis
      using c ok by (auto simp: CallPreSendRequest PreSendRequest_def Let_def mgr_ok_store split: option.split prod.split)
  qed (use ok in \<open>auto simp: CallPreSendRequest PreSendRequest_def split: option.split\<close>)
next
  case (CallPostSendRequest d a q r)
  have "cached_all (\<lambda>_. True) m" by (simp add: cached_all_def)
  then show ?thesis
    using PostSendRequest_total [OF ok, of "\<lambda>_. True" P r d a q clk] by (auto simp: CallPostSendRequest)
qed (use ok in \<open>auto intro: ok_intros\<close>)

lemma mgr_run_only_empty: "mgr_ok m \<Longrightarrow> mgr_run P xs (m, clk) = Inl u \<Longrightarrow> u = EmptyAccess"
proof (induction xs arbitrary: m clk)
  case (Cons x xs)
  show ?case using mgr_call_only_empty [OF Cons.prems(1), of P x clk] Cons.IH Cons.prems(2) by auto
qed simp

section \<open>Properties\<close>

text \<open>
  C36. Memory safety of the reply caches. In any sequence of calls, with any allocator, no cache is used or deleted after it has been
  deleted: the calls behave as on caches held by value, and the only undefined behaviour is the hit on an empty reply, which cannot occur if no
  empty reply is cached. When the process ends, the destructor deletes every cache exactly once and none is left.
\<close>

theorem cache_memory_safe:
  assumes "allocator new"
  shows "case heap_run new P calls (None, clk) of
       Inl u \<Rightarrow> u = EmptyAccess \<and> mgr_run P calls (ApiCacheManager, clk) = Inl u \<and> \<not> list_all (posts_only P (\<lambda>v. v \<noteq> [])) calls
     | Inr (j, clk') \<Rightarrow> mgr_run P calls (ApiCacheManager, clk) = Inr (abs_manager (GetInstance j), clk') \<and> exit_process j = Inr []"
proof -
  have init: "owned (GetInstance None)" "abs_manager (GetInstance None) = ApiCacheManager"
    using heap_init by (simp_all add: GetInstance_def)
  have "cached_all (\<lambda>v. v \<noteq> []) ApiCacheManager" by (simp add: cached_all_def ApiCacheManager_def)
  then have total: "\<exists>m clk'. mgr_run P calls (ApiCacheManager, clk) = Inr (m, clk')" if "list_all (posts_only P (\<lambda>v. v \<noteq> [])) calls"
    using mgr_run_ok [of "\<lambda>v. v \<noteq> []" ApiCacheManager P calls clk] mgr_ok_init that by blast
  have exit: "exit_process j = Inr []" if "owned (GetInstance j)" for j
    using that owned_destroy by (cases j) (simp_all add: exit_process_def GetInstance_def)
  show ?thesis
    using heap_run_refines [OF assms init(1), of P calls clk] mgr_run_only_empty [OF mgr_ok_init, of P calls clk] total exit
    unfolding init(2) by (fastforce split: sum.splits)
qed

text \<open>An allocator that takes an address above all allocated ones.\<close>

definition next_address :: "store \<Rightarrow> nat" where
  "next_address s = Suc (sum_list (map fst s))"

lemma next_address_allocator: "allocator next_address"
proof -
  have "next_address s \<notin> fst ` set s" for s
    using member_le_sum_list [of "next_address s" "map fst s"] by (auto simp: next_address_def)
  then have "smap_find s (next_address s) = None" for s by (simp add: smap_find_def map_of_eq_None_iff)
  then show ?thesis by (simp add: allocator_def)
qed

theorem cache_memory_safe_witness:
  "\<exists>j clk'. heap_run next_address list_parcel [CallAddCacheApi [65] 3 100, CallPostSendRequest [65] 3 ([1], 9) ([7], 9),
       CallDelCacheApi [65] 3, CallAddCacheApi [66] 3 100, CallPreSendRequest [66] 3 ([1], 9) ([], 9)] (None, sconst 0) = Inr (j, clk')
     \<and> exit_process j = Inr []"
  using cache_memory_safe [OF next_address_allocator, of list_parcel "[CallAddCacheApi [65] 3 100, CallPostSendRequest [65] 3 ([1], 9) ([7], 9),
       CallDelCacheApi [65] 3, CallAddCacheApi [66] 3 100, CallPreSendRequest [66] 3 ([1], 9) ([], 9)]" "sconst 0"]
  by (simp only: list_parcel_def split: sum.splits) auto

end
