(* ===== verification/OnDemand_Reason.thy ===== *)
theory OnDemand_Reason
  imports Safwk_Prelude
begin

text \<open>
  The reason a system ability is started, stopped, idled or activated for, and its extra data
  (\<open>services/safwk/src/system_ability_ondemand_reason.cpp\<close> and its header), with the decoding of a
  reason from JSON (\<open>LocalAbilityManager::JsonToOnDemandReason\<close>).

  A JSON value is a tagged union as in the JSON library: an object is an ordered map from keys to
  values, and a floating-point number is represented by the integer that the conversion to an integral
  type makes of it, the only use the sources make of one. The serialiser and the parser of JSON
  text and the parcel are not part of these sources: they are the arguments \<open>dump\<close>, \<open>parse\<close> and
  \<open>P\<close>, and \<open>parcel_fifo\<close> and \<open>json_text_law\<close> state what is relied on.

  The default constructor of \<open>SystemAbilityOnDemandReason\<close> leaves \<open>reasonId_\<close> uninitialised. The
  indeterminate value found there is an argument (\<open>indet\<close>) of the operations that construct one.
\<close>

section \<open>JSON values\<close>

datatype json =
    JNull
  | JBool bool
  | JInt int
  | JFloat int
  | JStr string
  | JArr "json list"
  | JObj "(string \<times> json) list"

definition json_find :: "json \<Rightarrow> string \<Rightarrow> json option" where
  "json_find j key = (case j of JObj m \<Rightarrow> smap_find m key | _ \<Rightarrow> None)"

definition json_number :: "json \<Rightarrow> int option" where
  "json_number j = (case j of JInt i \<Rightarrow> Some i | JFloat i \<Rightarrow> Some i | _ \<Rightarrow> None)"

definition json_string :: "json \<Rightarrow> string option" where
  "json_string j = (case j of JStr s \<Rightarrow> Some s | _ \<Rightarrow> None)"

text \<open>\<open>j[key] = v\<close>: a null value becomes an object; other values throw.\<close>

definition json_put :: "string \<Rightarrow> json \<Rightarrow> json \<Rightarrow> ub + json" where
  "json_put key v j =
     (case j of
        JNull \<Rightarrow> Inr (JObj [(key, v)])
      | JObj m \<Rightarrow> Inr (JObj (smap_assign key v m))
      | _ \<Rightarrow> Inl UncaughtException)"

text \<open>Iteration: the members of an object with their keys, the elements of an array, a scalar itself.\<close>

definition json_items :: "json \<Rightarrow> (string option \<times> json) list" where
  "json_items j =
     (case j of
        JNull \<Rightarrow> []
      | JObj m \<Rightarrow> map (\<lambda>(k, v). (Some k, v)) m
      | JArr vs \<Rightarrow> map (\<lambda>v. (None, v)) vs
      | _ \<Rightarrow> [(None, j)])"

section \<open>Reasons\<close>

datatype OnDemandReasonId = INTERFACE_CALL | DEVICE_ONLINE | SETTING_SWITCH | PARAM | COMMON_EVENT
  | TIMED_EVENT | UNREF_EVENT

fun reason_id_value :: "OnDemandReasonId \<Rightarrow> int" where
  "reason_id_value INTERFACE_CALL = 0"
| "reason_id_value DEVICE_ONLINE = 1"
| "reason_id_value SETTING_SWITCH = 2"
| "reason_id_value PARAM = 3"
| "reason_id_value COMMON_EVENT = 4"
| "reason_id_value TIMED_EVENT = 5"
| "reason_id_value UNREF_EVENT = 6"

record extra_data =
  codeM :: int
  dataStrM :: string
  wantM :: "(string, string) smap"

definition OnDemandReasonExtraData_default :: extra_data where
  "OnDemandReasonExtraData_default = \<lparr>codeM = -1, dataStrM = [], wantM = []\<rparr>"

definition OnDemandReasonExtraData :: "int \<Rightarrow> string \<Rightarrow> (string, string) smap \<Rightarrow> extra_data" where
  "OnDemandReasonExtraData code dat want = \<lparr>codeM = code, dataStrM = dat, wantM = want\<rparr>"

text \<open>The underlying value of the enumeration is kept, since any integer can be converted to it.\<close>

record reason =
  reasonIdM :: int
  reasonNameM :: string
  reasonValueM :: string
  extraDataIdM :: int
  extraDataM :: extra_data

definition SystemAbilityOnDemandReason_default :: "int \<Rightarrow> reason" where
  "SystemAbilityOnDemandReason_default indet =
     \<lparr>reasonIdM = indet, reasonNameM = [], reasonValueM = [], extraDataIdM = -1,
      extraDataM = OnDemandReasonExtraData_default\<rparr>"

definition SystemAbilityOnDemandReason :: "OnDemandReasonId \<Rightarrow> string \<Rightarrow> string \<Rightarrow> int \<Rightarrow> reason" where
  "SystemAbilityOnDemandReason reasonId reasonName reasonValue extraDataId =
     \<lparr>reasonIdM = reason_id_value reasonId, reasonNameM = reasonName, reasonValueM = reasonValue,
      extraDataIdM = extraDataId, extraDataM = OnDemandReasonExtraData_default\<rparr>"

definition HasExtraData :: "reason \<Rightarrow> bool" where
  "HasExtraData r = (reasonIdM r = reason_id_value COMMON_EVENT)"

definition SetExtraData :: "extra_data \<Rightarrow> reason \<Rightarrow> reason" where
  "SetExtraData e r = r\<lparr>extraDataM := e\<rparr>"

definition SetId :: "int \<Rightarrow> reason \<Rightarrow> reason" where
  [simp]: "SetId reasonId r = r\<lparr>reasonIdM := reasonId\<rparr>"

definition SetName :: "string \<Rightarrow> reason \<Rightarrow> reason" where
  [simp]: "SetName reasonName r = r\<lparr>reasonNameM := reasonName\<rparr>"

definition SetValue :: "string \<Rightarrow> reason \<Rightarrow> reason" where
  [simp]: "SetValue reasonValue r = r\<lparr>reasonValueM := reasonValue\<rparr>"

definition SetExtraDataId :: "int \<Rightarrow> reason \<Rightarrow> reason" where
  [simp]: "SetExtraDataId extraDataId r = r\<lparr>extraDataIdM := extraDataId\<rparr>"

definition GetId :: "reason \<Rightarrow> int" where
  [simp]: "GetId r = reasonIdM r"

definition GetName :: "reason \<Rightarrow> string" where
  [simp]: "GetName r = reasonNameM r"

definition GetValue :: "reason \<Rightarrow> string" where
  [simp]: "GetValue r = reasonValueM r"

definition GetExtraDataId :: "reason \<Rightarrow> int" where
  [simp]: "GetExtraDataId r = extraDataIdM r"

definition GetExtraData :: "reason \<Rightarrow> extra_data" where
  [simp]: "GetExtraData r = extraDataM r"

definition GetData :: "extra_data \<Rightarrow> string" where
  [simp]: "GetData e = dataStrM e"

definition GetCode :: "extra_data \<Rightarrow> int" where
  [simp]: "GetCode e = codeM e"

definition GetWant :: "extra_data \<Rightarrow> (string, string) smap" where
  [simp]: "GetWant e = wantM e"

definition JsonToOnDemandReason :: "int \<Rightarrow> json \<Rightarrow> reason" where
  "JsonToOnDemandReason indet reasonJson =
     (let r = SystemAbilityOnDemandReason_default indet;
          r = (case Option.bind (json_find reasonJson ''eventId'') json_number of
                 Some i \<Rightarrow> SetId (s32 i) r | None \<Rightarrow> r);
          r = (case Option.bind (json_find reasonJson ''name'') json_string of
                 Some s \<Rightarrow> SetName s r | None \<Rightarrow> r);
          r = (case Option.bind (json_find reasonJson ''value'') json_string of
                 Some s \<Rightarrow> SetValue s r | None \<Rightarrow> r)
      in (case Option.bind (json_find reasonJson ''extraDataId'') json_number of
            Some i \<Rightarrow> SetExtraDataId (s64 i) r | None \<Rightarrow> r))"

section \<open>Marshalling\<close>

record 'p parcel_rw =
  WriteInt32 :: "int \<Rightarrow> 'p \<Rightarrow> bool \<times> 'p"
  WriteString :: "string \<Rightarrow> 'p \<Rightarrow> bool \<times> 'p"
  ReadInt32 :: "'p \<Rightarrow> int option \<times> 'p"
  ReadString :: "'p \<Rightarrow> string option \<times> 'p"

fun build_payload :: "(string \<times> string) list \<Rightarrow> json \<Rightarrow> ub + json" where
  "build_payload [] payload = Inr payload"
| "build_payload ((k, v) # rest) payload = ub_bind (json_put k (JStr v) payload) (build_payload rest)"

definition Marshalling :: "'p parcel_rw \<Rightarrow> (json \<Rightarrow> string option) \<Rightarrow> extra_data \<Rightarrow> 'p \<Rightarrow> ub + bool \<times> 'p" where
  "Marshalling P dump e parcel =
     (let (ok, parcel) = WriteInt32 P (codeM e) parcel in
      if \<not> ok then Inr (False, parcel)
      else let (ok, parcel) = WriteString P (dataStrM e) parcel in
        if \<not> ok then Inr (False, parcel)
        else ub_bind (build_payload (wantM e) JNull) (\<lambda>payload.
          case dump payload of
            None \<Rightarrow> Inl UncaughtException
          | Some dumped \<Rightarrow> Inr (WriteString P dumped parcel)))"

fun read_want :: "(string option \<times> json) list \<Rightarrow> (string, string) smap \<Rightarrow> ub + (string, string) smap" where
  "read_want [] want = Inr want"
| "read_want ((k, v) # rest) want =
     (case json_string v of
        None \<Rightarrow> read_want rest want
      | Some s \<Rightarrow> (case k of None \<Rightarrow> Inl UncaughtException
                  | Some key \<Rightarrow> read_want rest (smap_assign key s want)))"

definition Unmarshalling :: "'p parcel_rw \<Rightarrow> (string \<Rightarrow> json) \<Rightarrow> 'p \<Rightarrow> ub + extra_data option \<times> 'p" where
  "Unmarshalling P parse parcel =
     (let (code, parcel) = ReadInt32 P parcel in
      case code of None \<Rightarrow> Inr (None, parcel)
      | Some code \<Rightarrow>
          let (dat, parcel) = ReadString P parcel in
          case dat of None \<Rightarrow> Inr (None, parcel)
          | Some dat \<Rightarrow>
              let (dumped, parcel) = ReadString P parcel;
                  payload = parse (case dumped of None \<Rightarrow> [] | Some s \<Rightarrow> s)
              in ub_bind (read_want (json_items payload) []) (\<lambda>want.
                   Inr (Some (OnDemandReasonExtraData code dat want), parcel)))"

section \<open>Lemmas\<close>

lemma build_payload_obj:
  "smap_ok (m @ map (\<lambda>(k, v). (k, JStr v)) w) \<Longrightarrow>
     build_payload w (JObj m) = Inr (JObj (m @ map (\<lambda>(k, v). (k, JStr v)) w))"
proof (induction w arbitrary: m)
  case (Cons kv w)
  obtain k v where kv: "kv = (k, v)" by force
  have "\<forall>k' \<in> fst ` set m. k' < k"
    using Cons.prems kv by (auto simp: smap_ok_def sorted_wrt_append)
  then have "smap_assign k (JStr v) m = m @ [(k, JStr v)]"
    by (induction k "JStr v" m rule: smap_assign.induct) auto
  then show ?case using Cons.IH [of "m @ [(k, JStr v)]"] Cons.prems kv by (simp add: json_put_def)
qed simp

definition want_json :: "(string, string) smap \<Rightarrow> json" where
  "want_json w = (if w = [] then JNull else JObj (map (\<lambda>(k, v). (k, JStr v)) w))"

lemma smap_ok_map_strings: "smap_ok w \<Longrightarrow> smap_ok (map (\<lambda>(k, v). (k, JStr v)) w)"
  by (simp add: smap_ok_def comp_def case_prod_beta)

lemma build_payload_want: "smap_ok w \<Longrightarrow> build_payload w JNull = Inr (want_json w)"
proof (cases w)
  case (Cons kv w')
  assume ok: "smap_ok w"
  obtain k v where kv: "kv = (k, v)" by force
  have "build_payload w' (JObj [(k, JStr v)]) = Inr (JObj ([(k, JStr v)] @ map (\<lambda>(k, v). (k, JStr v)) w'))"
    by (rule build_payload_obj) (use smap_ok_map_strings [OF ok] Cons kv in simp)
  then show ?thesis using Cons kv by (simp add: json_put_def want_json_def)
qed (simp add: want_json_def)

lemma read_want_strings:
  "smap_ok (acc @ w) \<Longrightarrow>
     read_want (map (\<lambda>(k, v). (Some k, JStr v)) w) acc = Inr (acc @ w)"
proof (induction w arbitrary: acc)
  case (Cons kv w)
  obtain k v where kv: "kv = (k, v)" by force
  have "\<forall>k' \<in> fst ` set acc. k' < k"
    using Cons.prems kv by (auto simp: smap_ok_def sorted_wrt_append)
  then have "smap_assign k v acc = acc @ [(k, v)]"
    by (induction k v acc rule: smap_assign.induct) auto
  then show ?case using Cons.IH [of "acc @ [(k, v)]"] Cons.prems kv by (simp add: json_string_def)
qed simp

lemma want_json_items: "json_items (want_json w) = map (\<lambda>(k, v). (Some k, JStr v)) w"
  by (cases "w = []") (auto simp: want_json_def json_items_def)

lemma read_want_json: "smap_ok w \<Longrightarrow> read_want (json_items (want_json w)) [] = Inr w"
  using read_want_strings [of "[]" w] by (simp add: want_json_items)

section \<open>Properties\<close>

text \<open>
  What the parcel library documents: a successful write appends an item, and reading an item of the
  type at the head returns and removes it. \<open>items\<close> is the queue of items of a parcel.
\<close>

datatype parcel_item = PInt int | PStr string

definition parcel_fifo :: "'p parcel_rw \<Rightarrow> ('p \<Rightarrow> parcel_item list) \<Rightarrow> bool" where
  "parcel_fifo P items \<longleftrightarrow>
     (\<forall>i p. fst (WriteInt32 P i p) \<longrightarrow> items (snd (WriteInt32 P i p)) = items p @ [PInt i]) \<and>
     (\<forall>s p. fst (WriteString P s p) \<longrightarrow> items (snd (WriteString P s p)) = items p @ [PStr s]) \<and>
     (\<forall>i p xs. items p = PInt i # xs \<longrightarrow> fst (ReadInt32 P p) = Some i \<and> items (snd (ReadInt32 P p)) = xs) \<and>
     (\<forall>s p xs. items p = PStr s # xs \<longrightarrow> fst (ReadString P p) = Some s \<and> items (snd (ReadString P p)) = xs)"

text \<open>Parsing the text of an object of strings, or of null, gives that value back.\<close>

definition json_text_law :: "(json \<Rightarrow> string option) \<Rightarrow> (string \<Rightarrow> json) \<Rightarrow> bool" where
  "json_text_law dump parse \<longleftrightarrow> (\<forall>w dumped. dump (want_json w) = Some dumped \<longrightarrow> parse dumped = want_json w)"

text \<open>
  The same for a parcel in which numbers and strings are written between other things: \<open>fi\<close> and \<open>fs\<close> are the items
  that they become. Extra data is marshalled to three items and unmarshalled from them, whatever surrounds them.
\<close>

definition parcel_queue :: "'p parcel_rw \<Rightarrow> ('p \<Rightarrow> 'i list) \<Rightarrow> (int \<Rightarrow> 'i) \<Rightarrow> (string \<Rightarrow> 'i) \<Rightarrow> bool" where
  "parcel_queue P items fi fs \<longleftrightarrow>
     (\<forall>i p q. WriteInt32 P i p = (True, q) \<longrightarrow> items q = items p @ [fi i]) \<and>
     (\<forall>s p q. WriteString P s p = (True, q) \<longrightarrow> items q = items p @ [fs s]) \<and>
     (\<forall>i p xs. items p = fi i # xs \<longrightarrow> (\<exists>q. ReadInt32 P p = (Some i, q) \<and> items q = xs)) \<and>
     (\<forall>s p xs. items p = fs s # xs \<longrightarrow> (\<exists>q. ReadString P p = (Some s, q) \<and> items q = xs))"

lemma fifo_queue: "parcel_fifo P items \<Longrightarrow> parcel_queue P items PInt PStr"
proof -
  assume f: "parcel_fifo P items"
  have "items q = items p @ [PInt i]" if "WriteInt32 P i p = (True, q)" for i p q
    using f that unfolding parcel_fifo_def by (metis fst_conv snd_conv)
  moreover have "items q = items p @ [PStr s]" if "WriteString P s p = (True, q)" for s p q
    using f that unfolding parcel_fifo_def by (metis fst_conv snd_conv)
  moreover have "\<exists>q. ReadInt32 P p = (Some i, q) \<and> items q = xs" if "items p = PInt i # xs" for i p xs
    using f that unfolding parcel_fifo_def by (metis prod.collapse)
  moreover have "\<exists>q. ReadString P p = (Some s, q) \<and> items q = xs" if "items p = PStr s # xs" for s p xs
    using f that unfolding parcel_fifo_def by (metis prod.collapse)
  ultimately show ?thesis by (simp add: parcel_queue_def)
qed

lemma extra_data_marshalled:
  assumes "parcel_queue P items fi fs" and ok: "smap_ok (wantM e)" and m: "Marshalling P dump e p = Inr (True, q)"
  shows "\<exists>dumped. dump (want_json (wantM e)) = Some dumped \<and> items q = items p @ [fi (codeM e), fs (dataStrM e), fs dumped]"
proof -
  obtain p1 where 1: "WriteInt32 P (codeM e) p = (True, p1)"
    using m by (cases "WriteInt32 P (codeM e) p") (auto simp: Marshalling_def split: if_splits)
  obtain p2 where 2: "WriteString P (dataStrM e) p1 = (True, p2)"
    using m 1 by (cases "WriteString P (dataStrM e) p1") (auto simp: Marshalling_def split: if_splits)
  obtain dumped where 3: "dump (want_json (wantM e)) = Some dumped" "WriteString P dumped p2 = (True, q)"
    using m 1 2 build_payload_want [OF ok] by (auto simp: Marshalling_def split: option.splits)
  have "items p1 = items p @ [fi (codeM e)]" "items p2 = items p1 @ [fs (dataStrM e)]" "items q = items p2 @ [fs dumped]"
    using assms(1) 1 2 3(2) unfolding parcel_queue_def by blast+
  then show ?thesis using 3(1) by simp
qed

lemma extra_data_unmarshalled:
  assumes P: "parcel_queue P items fi fs" and "json_text_law dump parse" and "smap_ok (wantM e)"
    and "dump (want_json (wantM e)) = Some dumped" and "items q = fi (codeM e) # fs (dataStrM e) # fs dumped # xs"
  shows "\<exists>r. Unmarshalling P parse q = Inr (Some e, r) \<and> items r = xs"
proof -
  obtain q1 where q1: "ReadInt32 P q = (Some (codeM e), q1)" "items q1 = fs (dataStrM e) # fs dumped # xs"
    using P assms(5) unfolding parcel_queue_def by blast
  obtain q2 where q2: "ReadString P q1 = (Some (dataStrM e), q2)" "items q2 = fs dumped # xs"
    using P q1(2) unfolding parcel_queue_def by blast
  obtain q3 where q3: "ReadString P q2 = (Some dumped, q3)" "items q3 = xs"
    using P q2(2) unfolding parcel_queue_def by blast
  have "parse dumped = want_json (wantM e)" using assms(2,4) by (simp add: json_text_law_def)
  then show ?thesis
    using q1(1) q2(1) q3 read_want_json [OF assms(3)] by (simp add: Unmarshalling_def OnDemandReasonExtraData_def)
qed

text \<open>
  C40. Round trip of the extra data: whenever \<open>Marshalling\<close> succeeds on an empty parcel, \<open>Unmarshalling\<close>
  of that parcel succeeds, throws nothing, and returns the same code, data string and want map.
\<close>

theorem extra_data_roundtrip:
  assumes "parcel_fifo P items"
    and "json_text_law dump parse" and "smap_ok (wantM e)"
    and "items p = []" and "Marshalling P dump e p = Inr (True, p')"
  shows "\<exists>p''. Unmarshalling P parse p' = Inr (Some e, p'')"
proof -
  note q = fifo_queue [OF assms(1)]
  from extra_data_marshalled [OF q assms(3,5)] obtain dumped where "dump (want_json (wantM e)) = Some dumped"
      "items p' = [PInt (codeM e), PStr (dataStrM e), PStr dumped]" using assms(4) by auto
  from extra_data_unmarshalled [OF q assms(2,3) this] show ?thesis by blast
qed

definition item_parcel :: "parcel_item list parcel_rw" where
  "item_parcel = \<lparr>WriteInt32 = (\<lambda>i p. (True, p @ [PInt i])), WriteString = (\<lambda>s p. (True, p @ [PStr s])),
     ReadInt32 = (\<lambda>p. case p of PInt i # xs \<Rightarrow> (Some i, xs) | _ \<Rightarrow> (None, p)),
     ReadString = (\<lambda>p. case p of PStr s # xs \<Rightarrow> (Some s, xs) | _ \<Rightarrow> (None, p))\<rparr>"

theorem extra_data_roundtrip_witness:
  "\<exists>p''. Unmarshalling item_parcel (\<lambda>_. want_json [(''a'', ''b'')]) [PInt 7, PStr ''d'', PStr ''x''] =
     Inr (Some (OnDemandReasonExtraData 7 ''d'' [(''a'', ''b'')]), p'')"
proof (rule extra_data_roundtrip [where items = "\<lambda>p. p" and p = "[]"
      and dump = "\<lambda>j. if j = want_json [(''a'', ''b'')] then Some ''x'' else None"])
  show "parcel_fifo item_parcel (\<lambda>p. p)"
    by (simp add: parcel_fifo_def item_parcel_def)
  show "json_text_law (\<lambda>j. if j = want_json [(''a'', ''b'')] then Some ''x'' else None)
      (\<lambda>_. want_json [(''a'', ''b'')])"
    by (simp add: json_text_law_def)
  show "smap_ok (wantM (OnDemandReasonExtraData 7 ''d'' [(''a'', ''b'')]))"
    by (simp add: OnDemandReasonExtraData_def smap_ok_def)
  show "Marshalling item_parcel (\<lambda>j. if j = want_json [(''a'', ''b'')] then Some ''x'' else None)
      (OnDemandReasonExtraData 7 ''d'' [(''a'', ''b'')]) [] = Inr (True, [PInt 7, PStr ''d'', PStr ''x''])"
    by (simp add: Marshalling_def item_parcel_def OnDemandReasonExtraData_def build_payload_want
        smap_ok_def json_put_def want_json_def)
qed simp

text \<open>
  Decoding a reason: each of the four members is taken exactly when it is present with the right
  kind, and keeps its default otherwise; for the identifier there is no default, so its value is
  whatever was in memory.
\<close>

theorem reason_fields:
  "reasonIdM (JsonToOnDemandReason indet j) =
     (case Option.bind (json_find j ''eventId'') json_number of Some i \<Rightarrow> s32 i | None \<Rightarrow> indet) \<and>
   reasonNameM (JsonToOnDemandReason indet j) =
     (case Option.bind (json_find j ''name'') json_string of Some s \<Rightarrow> s | None \<Rightarrow> []) \<and>
   reasonValueM (JsonToOnDemandReason indet j) =
     (case Option.bind (json_find j ''value'') json_string of Some s \<Rightarrow> s | None \<Rightarrow> []) \<and>
   extraDataIdM (JsonToOnDemandReason indet j) =
     (case Option.bind (json_find j ''extraDataId'') json_number of Some i \<Rightarrow> s64 i | None \<Rightarrow> -1) \<and>
   extraDataM (JsonToOnDemandReason indet j) = OnDemandReasonExtraData_default"
  by (simp add: JsonToOnDemandReason_def Let_def SystemAbilityOnDemandReason_default_def split: option.splits)

end
