(* ===== verification/Safwk_State.thy ===== *)
theory Safwk_State
  imports OnDemand_Reason
begin

text \<open>
  The state of a system ability process and its environment, shared by the models of
  \<open>SystemAbility\<close> and \<open>LocalAbilityManager\<close>.

  \<^item> \<open>system_ability\<close> has the data members of the class \<open>SystemAbility\<close>; the objects live in a heap
    (addresses are naturals; the framework never deletes one) and a pointer is an optional address.
  \<^item> \<open>proc\<close> has the data members of the singleton \<open>LocalAbilityManager\<close>, the heap, the tasks queued
    in the thread pool \<open>initPool_\<close>, the threads detached by \<open>StartAbility\<close> and \<open>StopAbility\<close>, and the
    trace of the process's interactions with the code outside the repository.
  \<^item> Code outside the repository (the system ability manager, the profile parser, the IPC and utility
    libraries, the kernel) and the subclasses' callbacks are the parameter \<open>env\<close>. An
    interaction is an \<open>event\<close>; the answer to it is a function of the whole trace up to and including
    it, so that any deterministic or scripted behaviour of the outside is an instance. Events that run
    foreign code inside the process (callbacks, the loading of a library whose static initialisers
    register abilities, the sleeps during which other threads run) may also change the process state:
    \<open>interfere\<close> is what they do to it.
  \<^item> The static members of \<open>LocalAbilityManagerDumper\<close> are part of \<open>proc\<close>: the handler as the task map of the
    \<open>FFRTHandler\<close> if there is one, and whether the metric buffer is allocated.
\<close>

section \<open>Data\<close>

type_synonym ptr = "nat option"

datatype SystemAbilityState = NOT_LOADED | ACTIVE | IDLE

record system_ability =
  saIdM :: int
  libPathM :: string
  dependSaM :: "int list"
  isRunOnCreateM :: bool
  isDistributedM :: bool
  dumpLevelM :: nat
  dependTimeoutM :: int
  isRunningM :: bool
  abilityStateM :: SystemAbilityState
  capabilityM :: u16string
  publishObjM :: "nat option"
  permissionM :: u16string

datatype ListenerState = INIT | NOTIFIED

datatype status_code = ON_ADD_SYSTEM_ABILITY | ON_REMOVE_SYSTEM_ABILITY | OTHER_STATUS int

text \<open>The members of the profile structure that the framework reads.\<close>

record sa_profile =
  pf_saId :: int
  pf_libPath :: string
  pf_dependSa :: "int list"
  pf_dependTimeout :: int
  pf_runOnCreate :: bool
  pf_distributed :: bool
  pf_dumpLevel :: nat
  pf_bootPhase :: nat
  pf_unusedTimeout :: int

text \<open>One record of the statistics buffer of the FFRT library, and what the IPC library reports of an interface.\<close>

record ffrt_stat =
  taskName :: string
  startTime :: "64 word"
  endTime :: "64 word"

record ipc_cost =
  totalCost :: int
  maxCost :: int
  minCost :: int
  averCost :: int

datatype ffrt_dump_cmd = DUMP_START_STAT | DUMP_STOP_STAT

section \<open>Interactions\<close>

datatype (plugins only: code size) event =
    \<comment> \<open>the system ability manager\<close>
    E_GetSystemAbilityManager
  | E_AddSystemAbility int nat bool nat u16string u16string
  | E_OnStartSystemAbilityFail int int
  | E_CancelUnloadSystemAbility int
  | E_RemoveSystemAbility int
  | E_GetSystemAbility int
  | E_CheckSystemAbility int
  | E_SubscribeSystemAbility int
  | E_UnSubscribeSystemAbility int
  | E_AddOnDemandSystemAbilityInfo int u16string
  | E_AddSystemProcess u16string
  | E_UnloadSystemAbility int
  | E_GetOnDemandReasonExtraData int
  | E_ReadParcelable
    \<comment> \<open>the profile parser\<close>
  | E_ParseSaProfiles string
  | E_GetProcessName
  | E_GetAllSaProfiles
  | E_CheckPathExist string
  | E_ParseTrustConfig string
  | E_RemoveSaProfile int
  | E_GetProfile int
  | E_LoadSaLib int
  | E_OpenSo nat
  | E_ParserClearResource
    \<comment> \<open>the subclass of an ability\<close>
  | E_OnStart nat reason
  | E_OnIdle nat reason
  | E_OnActive nat reason
  | E_OnStop nat reason
  | E_OnAddSystemAbility nat int string
  | E_OnRemoveSystemAbility nat int string
  | E_OnDeviceLevelChanged nat int int string
  | E_OnExtension nat string
  | E_OnSvcCmd nat int "u16string list"
  | E_OnDump nat
  | E_GetLastRequestTime nat
    \<comment> \<open>system calls, timers and the thread pool\<close>
  | E_RealPath string
  | E_GetTickCount
  | E_SteadyClockNow
  | E_HardwareConcurrency
  | E_Usleep int
  | E_WaitForTasks
  | E_PoolStart int
  | E_PoolSetMaxTaskNum int
  | E_PoolStop
  | E_TimerSetup
  | E_TimerRegister int
  | E_TimerUnregister int
  | E_TimerShutdown
  | E_ReportSaMainExit string
  | E_JoinWorkThread
    \<comment> \<open>remote requests\<close>
  | E_VerifyAccessToken string
  | E_BaseOnRemoteRequest "32 word"
  | E_Close int
  | E_SaveStringToFd int string
    \<comment> \<open>statistics of the IPC and FFRT libraries\<close>
  | E_StartIpcStatistics
  | E_StopIpcStatistics
  | E_IpcTotalCount
  | E_IpcTotalCost
  | E_IpcPids
  | E_IpcCount int
  | E_IpcCost int
  | E_IpcDescriptorCodes int
  | E_IpcDescriptorCodeCount int u16string int
  | E_IpcDescriptorCodeCost int u16string int
  | E_FfrtDump ffrt_dump_cmd
  | E_FfrtReadBuffer
  | E_FfrtSubmit string "64 word"
  | E_FfrtCancel nat
  | E_Dlsym string
  | E_FfrtDumpInfo
    \<comment> \<open>the process entry\<close>
  | E_GetParameter string
  | E_Raise int
  | E_ClearArguments nat
  | E_CopyProcessName nat string
  | E_Prctl string
  | E_Mallopt int int

datatype thread_task = StartTask int | StopTask int

record proc =
  heap :: "nat \<Rightarrow> system_ability"
  localAbilityMapM :: "(int, ptr) smap"
  abilityPhaseMapM :: "(nat, ptr list) smap"
  localAbilityManagerM :: bool
  saIdToStartReasonM :: "(int, json) smap"
  saIdToStopReasonM :: "(int, json) smap"
  statusChangeListenerM :: bool
  localListenerMapM :: "(int, (int \<times> ListenerState) list) smap"
  startTaskNumM :: int
  procNameM :: u16string
  startBeginM :: int
  initPoolM :: "nat list"
  idleTimerM :: bool
  unusedCfgMapM :: "(int, int) smap"
  ondemandTimerM :: int
  handlerM :: "(string, nat) smap option"
  ffrtMetricBufferM :: bool
  collectEnableM :: bool
  detached :: "thread_task list"
  trace :: "event list"

record env =
  ans_bool :: "event list \<Rightarrow> bool"
  ans_int :: "event list \<Rightarrow> int"
  ans_name :: "event list \<Rightarrow> u16string"
  ans_path :: "event list \<Rightarrow> string option"
  ans_profiles :: "event list \<Rightarrow> sa_profile list"
  ans_profile :: "event list \<Rightarrow> sa_profile option"
  ans_trust :: "event list \<Rightarrow> (u16string, int list) smap"
  ans_extra :: "event list \<Rightarrow> extra_data option"
  ans_obj :: "event list \<Rightarrow> nat option"
  ans_str :: "event list \<Rightarrow> string"
  ans_schedule :: "event list \<Rightarrow> nat list"
  ans_ints :: "event list \<Rightarrow> int list"
  ans_interfaces :: "event list \<Rightarrow> (u16string \<times> int) list"
  ans_cost :: "event list \<Rightarrow> ipc_cost"
  ans_stats :: "event list \<Rightarrow> ffrt_stat list"
  indeterminate :: "event list \<Rightarrow> int"
  interfere :: "event list \<Rightarrow> proc \<Rightarrow> proc"
  StringToJsonObj :: "string \<Rightarrow> json"
  SplitStr :: "string \<Rightarrow> string \<Rightarrow> string list"
  StrToInt :: "string \<Rightarrow> int option"
  Str16ToStr8 :: "u16string \<Rightarrow> string"
  Str8ToStr16 :: "string \<Rightarrow> u16string"
  FIRST_SYS_ABILITY_ID :: int
  LAST_SYS_ABILITY_ID :: int
  ToString :: "nat \<Rightarrow> string"
  getpid :: int
  ERR_OK :: int
  ERR_NONE :: int
  ERR_NULL_OBJECT :: int
  ERR_PERMISSION_DENIED :: int
  PERMISSION_GRANTED :: int
  INVALID_DATA :: int
  PATH_MAX :: nat
  EOK :: int

section \<open>Performing an interaction\<close>

definition emit :: "event \<Rightarrow> proc \<Rightarrow> proc" where
  "emit ev p = p\<lparr>trace := trace p @ [ev]\<rparr>"

text \<open>An interaction that only answers.\<close>

definition ask :: "('e list \<Rightarrow> 'a) \<Rightarrow> 'e \<Rightarrow> 'e list \<Rightarrow> 'a" where
  "ask f ev h = f (h @ [ev])"

definition ask_bool :: "env \<Rightarrow> event \<Rightarrow> proc \<Rightarrow> bool \<times> proc" where
  "ask_bool env ev p = (ask (ans_bool env) ev (trace p), emit ev p)"

definition ask_int :: "env \<Rightarrow> event \<Rightarrow> proc \<Rightarrow> int \<times> proc" where
  "ask_int env ev p = (ask (ans_int env) ev (trace p), emit ev p)"

text \<open>An interaction that runs foreign code inside the process.\<close>

definition run_foreign :: "env \<Rightarrow> event \<Rightarrow> proc \<Rightarrow> proc" where
  "run_foreign env ev p = interfere env (trace p @ [ev]) (emit ev p)"

text \<open>An interaction of either kind that returns a value.\<close>

definition query :: "(event list \<Rightarrow> 'a) \<Rightarrow> event \<Rightarrow> proc \<Rightarrow> 'a \<times> proc" where
  "query f ev p = (ask f ev (trace p), emit ev p)"

definition call :: "env \<Rightarrow> (event list \<Rightarrow> 'a) \<Rightarrow> event \<Rightarrow> proc \<Rightarrow> 'a \<times> proc" where
  "call env f ev p = (ask f ev (trace p), run_foreign env ev p)"

definition upd_sa :: "nat \<Rightarrow> (system_ability \<Rightarrow> system_ability) \<Rightarrow> proc \<Rightarrow> proc" where
  "upd_sa a f p = p\<lparr>heap := (heap p)(a := f (heap p a))\<rparr>"

lemma emit_fields [simp]:
  "heap (emit ev p) = heap p"
  "localAbilityMapM (emit ev p) = localAbilityMapM p"
  "abilityPhaseMapM (emit ev p) = abilityPhaseMapM p"
  "localAbilityManagerM (emit ev p) = localAbilityManagerM p"
  "saIdToStartReasonM (emit ev p) = saIdToStartReasonM p"
  "saIdToStopReasonM (emit ev p) = saIdToStopReasonM p"
  "statusChangeListenerM (emit ev p) = statusChangeListenerM p"
  "localListenerMapM (emit ev p) = localListenerMapM p"
  "startTaskNumM (emit ev p) = startTaskNumM p"
  "procNameM (emit ev p) = procNameM p"
  "startBeginM (emit ev p) = startBeginM p"
  "initPoolM (emit ev p) = initPoolM p"
  "idleTimerM (emit ev p) = idleTimerM p"
  "unusedCfgMapM (emit ev p) = unusedCfgMapM p"
  "ondemandTimerM (emit ev p) = ondemandTimerM p"
  "handlerM (emit ev p) = handlerM p"
  "ffrtMetricBufferM (emit ev p) = ffrtMetricBufferM p"
  "collectEnableM (emit ev p) = collectEnableM p"
  "detached (emit ev p) = detached p"
  "trace (emit ev p) = trace p @ [ev]"
  by (simp_all add: emit_def)

lemma upd_sa_fields [simp]:
  "heap (upd_sa a f p) = (heap p)(a := f (heap p a))"
  "localAbilityMapM (upd_sa a f p) = localAbilityMapM p"
  "abilityPhaseMapM (upd_sa a f p) = abilityPhaseMapM p"
  "localAbilityManagerM (upd_sa a f p) = localAbilityManagerM p"
  "saIdToStartReasonM (upd_sa a f p) = saIdToStartReasonM p"
  "saIdToStopReasonM (upd_sa a f p) = saIdToStopReasonM p"
  "statusChangeListenerM (upd_sa a f p) = statusChangeListenerM p"
  "localListenerMapM (upd_sa a f p) = localListenerMapM p"
  "startTaskNumM (upd_sa a f p) = startTaskNumM p"
  "procNameM (upd_sa a f p) = procNameM p"
  "startBeginM (upd_sa a f p) = startBeginM p"
  "initPoolM (upd_sa a f p) = initPoolM p"
  "idleTimerM (upd_sa a f p) = idleTimerM p"
  "unusedCfgMapM (upd_sa a f p) = unusedCfgMapM p"
  "ondemandTimerM (upd_sa a f p) = ondemandTimerM p"
  "handlerM (upd_sa a f p) = handlerM p"
  "ffrtMetricBufferM (upd_sa a f p) = ffrtMetricBufferM p"
  "collectEnableM (upd_sa a f p) = collectEnableM p"
  "detached (upd_sa a f p) = detached p"
  "trace (upd_sa a f p) = trace p"
  by (simp_all add: upd_sa_def)

lemmas asks = ask_def ask_bool_def ask_int_def query_def call_def

section \<open>Valid identifiers\<close>

definition CheckInputSysAbilityId :: "env \<Rightarrow> int \<Rightarrow> bool" where
  "CheckInputSysAbilityId env systemAbilityId =
     (systemAbilityId \<ge> FIRST_SYS_ABILITY_ID env \<and> systemAbilityId \<le> LAST_SYS_ABILITY_ID env)"

section \<open>The initial state\<close>

text \<open>The singleton as its constructor and the member initialisers leave it, over a heap of objects.\<close>

definition LocalAbilityManager :: "(nat \<Rightarrow> system_ability) \<Rightarrow> proc" where
  "LocalAbilityManager objs =
     \<lparr>heap = objs, localAbilityMapM = [], abilityPhaseMapM = [], localAbilityManagerM = False,
      saIdToStartReasonM = [], saIdToStopReasonM = [], statusChangeListenerM = False,
      localListenerMapM = [], startTaskNumM = 0, procNameM = [], startBeginM = 0, initPoolM = [],
      idleTimerM = False, unusedCfgMapM = [], ondemandTimerM = 0,
      handlerM = None, ffrtMetricBufferM = False, collectEnableM = False, detached = [], trace = []\<rparr>"

text \<open>
  An environment for concrete runs: every service is available and answers 0, nothing interferes.
\<close>

definition quiet_env :: env where
  "quiet_env = \<lparr>ans_bool = (\<lambda>_. True), ans_int = (\<lambda>_. 0), ans_name = (\<lambda>_. []), ans_path = (\<lambda>_. None),
     ans_profiles = (\<lambda>_. []), ans_profile = (\<lambda>_. None), ans_trust = (\<lambda>_. []), ans_extra = (\<lambda>_. None),
     ans_obj = (\<lambda>_. None), ans_str = (\<lambda>_. []), ans_schedule = (\<lambda>_. []), ans_ints = (\<lambda>_. []), ans_interfaces = (\<lambda>_. []),
     ans_cost = (\<lambda>_. \<lparr>totalCost = 0, maxCost = 0, minCost = 0, averCost = 0\<rparr>), ans_stats = (\<lambda>_. []), indeterminate = (\<lambda>_. 0), interfere = (\<lambda>_ p. p),
     StringToJsonObj = (\<lambda>_. JNull), SplitStr = (\<lambda>s _. [s]), StrToInt = (\<lambda>_. None), Str16ToStr8 = (\<lambda>_. []), Str8ToStr16 = (\<lambda>_. []),
     FIRST_SYS_ABILITY_ID = 1, LAST_SYS_ABILITY_ID = 16777215, 
     ToString = (\<lambda>_. []), getpid = 1, ERR_OK = 0, ERR_NONE = 0, ERR_NULL_OBJECT = 6, ERR_PERMISSION_DENIED = 7,
     PERMISSION_GRANTED = 0, INVALID_DATA = 5, PATH_MAX = 4096, EOK = 0\<rparr>"

end
