(* ===== verification/System_Ability.thy ===== *)
theory System_Ability
  imports Safwk_State
begin

text \<open>
  The base class \<open>SystemAbility\<close> (\<open>services/safwk/src/system_ability.cpp\<close> and its header): the
  members set from the profile, publishing with the system ability manager, and the lifecycle
  operations \<open>Start\<close>, \<open>Idle\<close>, \<open>Active\<close> and \<open>Stop\<close> that the manager drives.

  A method takes the address \<open>a\<close> of the object and the process state. The lifecycle operations check
  the state under \<open>abilityLock\<close>, release the lock, run the callback of the subclass, and commit the new
  state under the lock again: the callback is an event that runs foreign code, and \<open>interfere\<close>
  covers both the calls the callback makes and what other threads do while it runs.
\<close>

section \<open>Construction and members\<close>

definition MIN_DEPENDENCY_TIMEOUT :: int where
  "MIN_DEPENDENCY_TIMEOUT = 200"

definition MAX_DEPENDENCY_TIMEOUT :: int where
  "MAX_DEPENDENCY_TIMEOUT = 60000"

definition DEFAULT_DEPENDENCY_TIMEOUT :: int where
  "DEFAULT_DEPENDENCY_TIMEOUT = 6000"

definition SystemAbility :: "int \<Rightarrow> bool \<Rightarrow> system_ability" where
  "SystemAbility systemAbilityId runOnCreate =
     \<lparr>saIdM = systemAbilityId, libPathM = [], dependSaM = [], isRunOnCreateM = runOnCreate,
      isDistributedM = False, dumpLevelM = 0, dependTimeoutM = DEFAULT_DEPENDENCY_TIMEOUT,
      isRunningM = False, abilityStateM = NOT_LOADED, capabilityM = [], publishObjM = None,
      permissionM = []\<rparr>"

definition SetDependTimeout :: "int \<Rightarrow> system_ability \<Rightarrow> system_ability" where
  "SetDependTimeout t sa =
     (if t \<ge> MIN_DEPENDENCY_TIMEOUT \<and> t \<le> MAX_DEPENDENCY_TIMEOUT then sa\<lparr>dependTimeoutM := t\<rparr> else sa)"

definition SetLibPath :: "string \<Rightarrow> system_ability \<Rightarrow> system_ability" where
  "SetLibPath libPath sa = sa\<lparr>libPathM := libPath\<rparr>"

definition SetDependSa :: "int list \<Rightarrow> system_ability \<Rightarrow> system_ability" where
  "SetDependSa dependSa sa = sa\<lparr>dependSaM := dependSa\<rparr>"

definition SetRunOnCreate :: "bool \<Rightarrow> system_ability \<Rightarrow> system_ability" where
  "SetRunOnCreate isRunOnCreate sa = sa\<lparr>isRunOnCreateM := isRunOnCreate\<rparr>"

definition SetDistributed :: "bool \<Rightarrow> system_ability \<Rightarrow> system_ability" where
  "SetDistributed isDistributed sa = sa\<lparr>isDistributedM := isDistributed\<rparr>"

definition SetDumpLevel :: "nat \<Rightarrow> system_ability \<Rightarrow> system_ability" where
  "SetDumpLevel dumpLevel sa = sa\<lparr>dumpLevelM := dumpLevel\<rparr>"

definition SetCapability :: "u16string \<Rightarrow> system_ability \<Rightarrow> system_ability" where
  "SetCapability c sa = sa\<lparr>capabilityM := c\<rparr>"

definition SetPermission :: "u16string \<Rightarrow> system_ability \<Rightarrow> system_ability" where
  "SetPermission c sa = sa\<lparr>permissionM := c\<rparr>"

definition GetSystemAbilitId :: "system_ability \<Rightarrow> int" where
  [simp]: "GetSystemAbilitId sa = saIdM sa"

definition GetLibPath :: "system_ability \<Rightarrow> string" where
  [simp]: "GetLibPath sa = libPathM sa"

definition GetDependSa :: "system_ability \<Rightarrow> int list" where
  [simp]: "GetDependSa sa = dependSaM sa"

definition IsRunOnCreate :: "system_ability \<Rightarrow> bool" where
  [simp]: "IsRunOnCreate sa = isRunOnCreateM sa"

definition GetDistributed :: "system_ability \<Rightarrow> bool" where
  [simp]: "GetDistributed sa = isDistributedM sa"

definition GetRunningStatus_self :: "system_ability \<Rightarrow> bool" where
  [simp]: "GetRunningStatus_self sa = isRunningM sa"

definition GetAbilityState :: "system_ability \<Rightarrow> SystemAbilityState" where
  [simp]: "GetAbilityState sa = abilityStateM sa"

definition GetDumpLevel :: "system_ability \<Rightarrow> nat" where
  [simp]: "GetDumpLevel sa = dumpLevelM sa"

definition GetDependTimeout :: "system_ability \<Rightarrow> int" where
  [simp]: "GetDependTimeout sa = dependTimeoutM sa"

definition GetCapability :: "system_ability \<Rightarrow> u16string" where
  [simp]: "GetCapability sa = capabilityM sa"

definition GetAbilityRemoteObject :: "system_ability \<Rightarrow> nat option" where
  [simp]: "GetAbilityRemoteObject sa = publishObjM sa"

lemmas setters = SetLibPath_def SetDependSa_def SetRunOnCreate_def SetDistributed_def SetDumpLevel_def
  SetDependTimeout_def SetCapability_def SetPermission_def

section \<open>The reasons kept by the manager\<close>

definition SetStartReason :: "int \<Rightarrow> json \<Rightarrow> proc \<Rightarrow> proc" where
  "SetStartReason saId event p = p\<lparr>saIdToStartReasonM := smap_assign saId event (saIdToStartReasonM p)\<rparr>"

definition SetStopReason :: "int \<Rightarrow> json \<Rightarrow> proc \<Rightarrow> proc" where
  "SetStopReason saId event p = p\<lparr>saIdToStopReasonM := smap_assign saId event (saIdToStopReasonM p)\<rparr>"

text \<open>\<open>operator[]\<close> inserts a null value for a missing key.\<close>

definition GetStartReason :: "int \<Rightarrow> proc \<Rightarrow> json \<times> proc" where
  "GetStartReason saId p =
     (let m = smap_emplace saId JNull (saIdToStartReasonM p)
      in (the (smap_find m saId), p\<lparr>saIdToStartReasonM := m\<rparr>))"

definition GetStopReason :: "int \<Rightarrow> proc \<Rightarrow> json \<times> proc" where
  "GetStopReason saId p =
     (let m = smap_emplace saId JNull (saIdToStopReasonM p)
      in (the (smap_find m saId), p\<lparr>saIdToStopReasonM := m\<rparr>))"

section \<open>Calls to the system ability manager\<close>

definition Publish :: "env \<Rightarrow> nat \<Rightarrow> nat option \<Rightarrow> proc \<Rightarrow> bool \<times> proc" where
  "Publish env a obj p =
     (case obj of
        None \<Rightarrow> (False, p)
      | Some ob \<Rightarrow>
          let p = upd_sa a (\<lambda>sa. sa\<lparr>publishObjM := Some ob\<rparr>) p;
              (samgr, p) = ask_bool env E_GetSystemAbilityManager p
          in if \<not> samgr then (False, p)
             else let sa = heap p a;
                      (result, p) = ask_int env (E_AddSystemAbility (saIdM sa) ob (GetDistributed sa)
                        (GetDumpLevel sa) (capabilityM sa) (permissionM sa)) p
                  in if result = ERR_OK env
                     then (True, upd_sa a (\<lambda>sa. sa\<lparr>abilityStateM := ACTIVE\<rparr>) p)
                     else (False, p))"

definition OnStartFail :: "env \<Rightarrow> nat \<Rightarrow> int \<Rightarrow> proc \<Rightarrow> bool \<times> proc" where
  "OnStartFail env a errCode p =
     (let (samgr, p) = ask_bool env E_GetSystemAbilityManager p in
      if \<not> samgr then (False, p)
      else let (result, p) = ask_int env (E_OnStartSystemAbilityFail (saIdM (heap p a)) errCode) p
           in (result = ERR_OK env, p))"

definition CancelIdle :: "env \<Rightarrow> nat \<Rightarrow> proc \<Rightarrow> bool \<times> proc" where
  "CancelIdle env a p =
     (if abilityStateM (heap p a) \<noteq> IDLE then (True, p)
      else let (samgr, p) = ask_bool env E_GetSystemAbilityManager p in
        if \<not> samgr then (False, p)
        else let (result, p) = ask_int env (E_CancelUnloadSystemAbility (saIdM (heap p a))) p
             in (result = ERR_OK env, p))"

definition StopAbility_samgr :: "env \<Rightarrow> int \<Rightarrow> proc \<Rightarrow> proc" where
  "StopAbility_samgr env saId p =
     (let (samgr, p) = ask_bool env E_GetSystemAbilityManager p in
      if \<not> samgr then p else emit (E_RemoveSystemAbility saId) p)"

definition GetSystemAbility :: "env \<Rightarrow> int \<Rightarrow> proc \<Rightarrow> nat option \<times> proc" where
  "GetSystemAbility env saId p =
     (let (samgr, p) = ask_bool env E_GetSystemAbilityManager p in
      if \<not> samgr then (None, p)
      else (ask (ans_obj env) (E_GetSystemAbility saId) (trace p), emit (E_GetSystemAbility saId) p))"

definition GetOnDemandReasonExtraData :: "env \<Rightarrow> reason \<Rightarrow> proc \<Rightarrow> reason \<times> proc" where
  "GetOnDemandReasonExtraData env r p =
     (if \<not> HasExtraData r then (r, p)
      else let (samgr, p) = ask_bool env E_GetSystemAbilityManager p in
        if \<not> samgr then (r, p)
        else let (ret, p) = ask_int env (E_GetOnDemandReasonExtraData (extraDataIdM r)) p in
          if ret \<noteq> ERR_OK env then (r, p)
          else (case ask (ans_extra env) E_ReadParcelable (trace p) of
                  None \<Rightarrow> (r, emit E_ReadParcelable p)
                | Some e \<Rightarrow> (SetExtraData e r, emit E_ReadParcelable p)))"

section \<open>The lifecycle\<close>

definition Start :: "env \<Rightarrow> nat \<Rightarrow> proc \<Rightarrow> proc" where
  "Start env a p =
     (if abilityStateM (heap p a) \<noteq> NOT_LOADED then p
      else let (startReason, p) = GetStartReason (saIdM (heap p a)) p;
               r = JsonToOnDemandReason (indeterminate env (trace p)) startReason;
               (r, p) = GetOnDemandReasonExtraData env r p;
               p = run_foreign env (E_OnStart a r) p
           in upd_sa a (\<lambda>sa. sa\<lparr>isRunningM := True\<rparr>) p)"

definition Idle :: "env \<Rightarrow> nat \<Rightarrow> reason \<Rightarrow> proc \<Rightarrow> int \<times> proc" where
  "Idle env a idleReason p =
     (if abilityStateM (heap p a) \<noteq> ACTIVE then (-1, p)
      else let (r, p) = GetOnDemandReasonExtraData env idleReason p;
               delayTime = ask (ans_int env) (E_OnIdle a r) (trace p);
               p = run_foreign env (E_OnIdle a r) p
           in (delayTime, if delayTime = 0 then upd_sa a (\<lambda>sa. sa\<lparr>abilityStateM := IDLE\<rparr>) p else p))"

definition Active :: "env \<Rightarrow> nat \<Rightarrow> reason \<Rightarrow> proc \<Rightarrow> proc" where
  "Active env a activeReason p =
     (if abilityStateM (heap p a) \<noteq> IDLE then p
      else let (r, p) = GetOnDemandReasonExtraData env activeReason p;
               p = run_foreign env (E_OnActive a r) p
           in upd_sa a (\<lambda>sa. sa\<lparr>abilityStateM := ACTIVE\<rparr>) p)"

definition Stop :: "env \<Rightarrow> nat \<Rightarrow> proc \<Rightarrow> proc" where
  "Stop env a p =
     (if abilityStateM (heap p a) = NOT_LOADED then p
      else let (stopReason, p) = GetStopReason (saIdM (heap p a)) p;
               r = JsonToOnDemandReason (indeterminate env (trace p)) stopReason;
               (r, p) = GetOnDemandReasonExtraData env r p;
               p = run_foreign env (E_OnStop a r) p;
               p = upd_sa a (\<lambda>sa. sa\<lparr>abilityStateM := NOT_LOADED, isRunningM := False\<rparr>) p;
               (samgr, p) = ask_bool env E_GetSystemAbilityManager p
           in if \<not> samgr then p else emit (E_RemoveSystemAbility (saIdM (heap p a))) p)"

definition SADump :: "env \<Rightarrow> nat \<Rightarrow> proc \<Rightarrow> proc" where
  "SADump env a p = run_foreign env (E_OnDump a) p"

section \<open>The callbacks\<close>

text \<open>
  The virtual methods of the class and their bodies in the base class: the callback that a body passes on to, if any, and the number that it
  returns (0 for the methods that return nothing). What a subclass does in the methods it overrides is part of the environment.
\<close>

datatype sa_callback =
    OnDump
  | OnStart
  | OnStartReason reason
  | OnIdle reason
  | OnActive reason
  | OnStop
  | OnStopReason reason
  | OnAddSA int string
  | OnRemoveSA int string
  | OnSvcCmd int "u16string list"
  | OnDeviceLevelChanged int int string
  | OnExtension string

fun base_callback :: "sa_callback \<Rightarrow> sa_callback option \<times> int" where
  "base_callback (OnStartReason startReason) = (Some OnStart, 0)"
| "base_callback (OnStopReason stopReason) = (Some OnStop, 0)"
| "base_callback (OnSvcCmd fd args) = (None, -1)"
| "base_callback _ = (None, 0)"

section \<open>The lifecycle contract\<close>

text \<open>
  What a caller of the lifecycle may rely on: the guard of each operation makes it a no-op outside
  its source states, and a stop always leaves the ability unloaded. The commands that reach an
  ability in sequence are a list.
\<close>

datatype 'r command = CStart | CIdle 'r | CActive 'r | CStop

fun exec_command :: "('s \<Rightarrow> 's) \<Rightarrow> ('r \<Rightarrow> 's \<Rightarrow> int \<times> 's) \<Rightarrow> ('r \<Rightarrow> 's \<Rightarrow> 's) \<Rightarrow> ('s \<Rightarrow> 's)
    \<Rightarrow> 'r command \<Rightarrow> 's \<Rightarrow> 's" where
  "exec_command start idle active stop CStart s = start s"
| "exec_command start idle active stop (CIdle r) s = snd (idle r s)"
| "exec_command start idle active stop (CActive r) s = active r s"
| "exec_command start idle active stop CStop s = stop s"

locale ability_lifecycle =
  fixes st :: "'s \<Rightarrow> SystemAbilityState"
    and start :: "'s \<Rightarrow> 's"
    and idle :: "'r \<Rightarrow> 's \<Rightarrow> int \<times> 's"
    and active :: "'r \<Rightarrow> 's \<Rightarrow> 's"
    and stop :: "'s \<Rightarrow> 's"
  assumes start_guard: "st s \<noteq> NOT_LOADED \<Longrightarrow> start s = s"
    and idle_guard: "st s \<noteq> ACTIVE \<Longrightarrow> idle r s = (-1, s)"
    and idle_commit: "st s = ACTIVE \<Longrightarrow> fst (idle r s) = 0 \<Longrightarrow> st (snd (idle r s)) = IDLE"
    and active_guard: "st s \<noteq> IDLE \<Longrightarrow> active r s = s"
    and active_commit: "st s = IDLE \<Longrightarrow> st (active r s) = ACTIVE"
    and stop_guard: "st s = NOT_LOADED \<Longrightarrow> stop s = s"
    and stop_commit: "st (stop s) = NOT_LOADED"
begin

lemma stop_idem: "stop (stop s) = stop s"
  by (rule stop_guard) (rule stop_commit)

lemma unloaded_inert: "st s = NOT_LOADED \<Longrightarrow> CStart \<notin> set cs \<Longrightarrow> fold (exec_command start idle active stop) cs s = s"
proof (induction cs)
  case (Cons c cs)
  then have "exec_command start idle active stop c s = s" by (cases c) (auto simp: idle_guard active_guard stop_guard)
  then show ?case using Cons by simp
qed simp

lemma start_idem: "st (start s) \<noteq> NOT_LOADED \<Longrightarrow> start (start s) = start s"
  by (rule start_guard)

lemma idle_then_active: "st s = ACTIVE \<Longrightarrow> fst (idle r s) = 0 \<Longrightarrow> st (active r' (snd (idle r s))) = ACTIVE"
  by (simp add: active_commit idle_commit)

lemma after_stop: "CStart \<notin> set cs \<Longrightarrow> fold (exec_command start idle active stop) cs (stop s) = stop s"
  by (rule unloaded_inert) (rule stop_commit)

end

lemma Stop_state: "abilityStateM (heap (Stop env a p) a) = NOT_LOADED"
  by (auto simp: Stop_def Let_def ask_bool_def split: prod.splits)

lemma Idle_zero:
  "abilityStateM (heap p a) = ACTIVE \<Longrightarrow> fst (Idle env a r p) = 0 \<Longrightarrow>
     abilityStateM (heap (snd (Idle env a r p)) a) = IDLE"
  by (auto simp: Idle_def Let_def split: prod.splits)

lemma Start_guard: "abilityStateM (heap p a) \<noteq> NOT_LOADED \<Longrightarrow> Start env a p = p"
  by (simp add: Start_def)

lemma Idle_guard: "abilityStateM (heap p a) \<noteq> ACTIVE \<Longrightarrow> Idle env a r p = (-1, p)"
  by (simp add: Idle_def)

lemma Active_guard: "abilityStateM (heap p a) \<noteq> IDLE \<Longrightarrow> Active env a r p = p"
  by (simp add: Active_def)

lemma Active_commit: "abilityStateM (heap p a) = IDLE \<Longrightarrow> abilityStateM (heap (Active env a r p) a) = ACTIVE"
  by (auto simp: Active_def Let_def split: prod.splits)

lemma Stop_guard: "abilityStateM (heap p a) = NOT_LOADED \<Longrightarrow> Stop env a p = p"
  by (simp add: Stop_def)

interpretation sa: ability_lifecycle "\<lambda>p. abilityStateM (heap p a)" "Start env a" "Idle env a"
    "Active env a" "Stop env a" for env a
  by unfold_locales
     (simp_all add: Start_guard Idle_guard Idle_zero Active_guard Active_commit Stop_guard Stop_state)

section \<open>Lemmas on the parts of the operations\<close>

lemma GetOnDemandReasonExtraData_frame:
  assumes "GetOnDemandReasonExtraData env r p = (r', p')"
  shows "\<exists>evs. p' = p\<lparr>trace := trace p @ evs\<rparr> \<and> set evs \<subseteq> {E_GetSystemAbilityManager,
      E_GetOnDemandReasonExtraData (extraDataIdM r), E_ReadParcelable}"
    and "r'\<lparr>extraDataM := extraDataM r\<rparr> = r"
proof -
  show "\<exists>evs. p' = p\<lparr>trace := trace p @ evs\<rparr> \<and> set evs \<subseteq> {E_GetSystemAbilityManager,
      E_GetOnDemandReasonExtraData (extraDataIdM r), E_ReadParcelable}"
    using assms
    by (auto simp: GetOnDemandReasonExtraData_def asks emit_def split: if_splits option.splits
        intro: exI [of _ "[]"] exI [of _ "[E_GetSystemAbilityManager]"]
          exI [of _ "[E_GetSystemAbilityManager, E_GetOnDemandReasonExtraData (extraDataIdM r)]"]
          exI [of _ "[E_GetSystemAbilityManager, E_GetOnDemandReasonExtraData (extraDataIdM r), E_ReadParcelable]"])
  show "r'\<lparr>extraDataM := extraDataM r\<rparr> = r"
    using assms
    by (auto simp: GetOnDemandReasonExtraData_def asks SetExtraData_def split: if_splits option.splits)
qed

lemma GetOnDemandReasonExtraData_none [simp]:
  "\<not> HasExtraData r \<Longrightarrow> GetOnDemandReasonExtraData env r p = (r, p)"
  by (simp add: GetOnDemandReasonExtraData_def)

lemma fetched_reason:
  assumes "GetOnDemandReasonExtraData env (JsonToOnDemandReason n j) p = (r, q)"
  shows "\<exists>evs. q = p\<lparr>trace := trace p @ evs\<rparr> \<and> set evs \<subseteq> {E_GetSystemAbilityManager,
      E_GetOnDemandReasonExtraData (extraDataIdM r), E_ReadParcelable}"
    and "r\<lparr>extraDataM := OnDemandReasonExtraData_default\<rparr> = JsonToOnDemandReason n j"
proof -
  have r: "r\<lparr>extraDataM := extraDataM (JsonToOnDemandReason n j)\<rparr> = JsonToOnDemandReason n j"
    by (rule GetOnDemandReasonExtraData_frame(2) [OF assms])
  have "extraDataM (JsonToOnDemandReason n j) = OnDemandReasonExtraData_default"
    by (simp add: JsonToOnDemandReason_def Let_def SystemAbilityOnDemandReason_default_def split: option.splits)
  with r show "r\<lparr>extraDataM := OnDemandReasonExtraData_default\<rparr> = JsonToOnDemandReason n j" by simp
  have "extraDataIdM (JsonToOnDemandReason n j) = extraDataIdM r" by (subst r [symmetric]) simp
  then show "\<exists>evs. q = p\<lparr>trace := trace p @ evs\<rparr> \<and> set evs \<subseteq> {E_GetSystemAbilityManager,
      E_GetOnDemandReasonExtraData (extraDataIdM r), E_ReadParcelable}"
    using GetOnDemandReasonExtraData_frame(1) [OF assms] by simp
qed

lemma GetStartReason_value:
  "fst (GetStartReason i p) = (case smap_find (saIdToStartReasonM p) i of None \<Rightarrow> JNull | Some j \<Rightarrow> j)"
  by (simp add: GetStartReason_def smap_emplace_def Let_def split: option.split)

lemma GetStopReason_value:
  "fst (GetStopReason i p) = (case smap_find (saIdToStopReasonM p) i of None \<Rightarrow> JNull | Some j \<Rightarrow> j)"
  by (simp add: GetStopReason_def smap_emplace_def Let_def split: option.split)

lemma GetStartReason_frame [simp]:
  "heap (snd (GetStartReason i p)) = heap p" "trace (snd (GetStartReason i p)) = trace p"
  "localAbilityMapM (snd (GetStartReason i p)) = localAbilityMapM p"
  by (simp_all add: GetStartReason_def Let_def)

lemma GetStopReason_frame [simp]:
  "heap (snd (GetStopReason i p)) = heap p" "trace (snd (GetStopReason i p)) = trace p"
  "localAbilityMapM (snd (GetStopReason i p)) = localAbilityMapM p"
  by (simp_all add: GetStopReason_def Let_def)

lemmas reason_tables = SetStartReason_def SetStopReason_def GetStartReason_def GetStopReason_def Let_def

section \<open>Invariants of the process under the lifecycle\<close>

text \<open>
  An invariant of the process that does not look at the trace or the lifecycle members of the objects, and that the operations on
  the stored reasons keep, is kept by every operation of an ability, provided that the foreign code
  keeps it. \<open>keeps_identity\<close> is what the lifecycle operations leave of an object.
\<close>

definition keeps_identity :: "(system_ability \<Rightarrow> system_ability) \<Rightarrow> bool" where
  "keeps_identity f \<longleftrightarrow> (\<forall>sa. saIdM (f sa) = saIdM sa \<and> dependTimeoutM (f sa) = dependTimeoutM sa
     \<and> isRunOnCreateM (f sa) = isRunOnCreateM sa \<and> dependSaM (f sa) = dependSaM sa)"

definition rely :: "env \<Rightarrow> (proc \<Rightarrow> bool) \<Rightarrow> bool" where
  "rely env I \<longleftrightarrow> (\<forall>h p. I p \<longrightarrow> I (interfere env h p))"

lemma relyD: "rely env I \<Longrightarrow> I p \<Longrightarrow> I (interfere env h p)"
  by (simp add: rely_def)

lemma keeps_identity_lifecycle [simp]:
  "keeps_identity (\<lambda>sa. sa\<lparr>isRunningM := b\<rparr>)"
  "keeps_identity (\<lambda>sa. sa\<lparr>abilityStateM := s\<rparr>)"
  "keeps_identity (\<lambda>sa. sa\<lparr>abilityStateM := s, isRunningM := b\<rparr>)"
  "keeps_identity (\<lambda>sa. sa\<lparr>publishObjM := ob\<rparr>)"
  by (simp_all add: keeps_identity_def)

locale framework_invariant =
  fixes inv :: "proc \<Rightarrow> bool"
  assumes inv_trace: "inv p \<Longrightarrow> inv (p\<lparr>trace := t\<rparr>)"
    and inv_sa: "inv p \<Longrightarrow> keeps_identity f \<Longrightarrow> inv (upd_sa a f p)"
    and inv_SetStartReason: "inv p \<Longrightarrow> inv (SetStartReason i j p)"
    and inv_SetStopReason: "inv p \<Longrightarrow> inv (SetStopReason i j p)"
    and inv_GetStartReason: "inv p \<Longrightarrow> inv (snd (GetStartReason i p))"
    and inv_GetStopReason: "inv p \<Longrightarrow> inv (snd (GetStopReason i p))"
begin

lemma inv_emit: "inv p \<Longrightarrow> inv (emit ev p)"
  by (simp add: emit_def inv_trace)

lemma inv_run_foreign: "rely env inv \<Longrightarrow> inv p \<Longrightarrow> inv (run_foreign env ev p)"
  by (simp add: run_foreign_def relyD inv_emit)

lemma inv_extra: "inv p \<Longrightarrow> inv (snd (GetOnDemandReasonExtraData env r p))"
  by (simp add: GetOnDemandReasonExtraData_def asks inv_emit split: option.split)

lemma inv_Start: "rely env inv \<Longrightarrow> inv p \<Longrightarrow> inv (Start env a p)"
  by (simp add: Start_def Let_def case_prod_beta inv_sa inv_run_foreign inv_extra inv_GetStartReason)

lemma inv_Idle: "rely env inv \<Longrightarrow> inv p \<Longrightarrow> inv (snd (Idle env a r p))"
  by (simp add: Idle_def Let_def case_prod_beta inv_sa inv_run_foreign inv_extra)

lemma inv_Active: "rely env inv \<Longrightarrow> inv p \<Longrightarrow> inv (Active env a r p)"
  by (simp add: Active_def Let_def case_prod_beta inv_sa inv_run_foreign inv_extra)

lemma inv_Stop: "rely env inv \<Longrightarrow> inv p \<Longrightarrow> inv (Stop env a p)"
  by (simp add: Stop_def Let_def case_prod_beta inv_sa inv_run_foreign inv_extra inv_GetStopReason
      ask_bool_def inv_emit)

lemma inv_Publish: "inv p \<Longrightarrow> inv (snd (Publish env a ob p))"
  by (simp add: Publish_def Let_def case_prod_beta asks inv_sa inv_emit split: option.split)

lemmas inv_ops = inv_emit inv_run_foreign inv_Start inv_Idle inv_Active inv_Stop inv_Publish
  inv_SetStartReason inv_SetStopReason

end

lemma Start_outcome:
  "if abilityStateM (heap p a) \<noteq> NOT_LOADED then Start env a p = p
   else \<exists>r q evs. Start env a p = upd_sa a (\<lambda>sa. sa\<lparr>isRunningM := True\<rparr>) (run_foreign env (E_OnStart a r) q)
     \<and> heap q = heap p \<and> trace q = trace p @ evs
     \<and> set evs \<subseteq> {E_GetSystemAbilityManager, E_GetOnDemandReasonExtraData (extraDataIdM r), E_ReadParcelable}
     \<and> r\<lparr>extraDataM := OnDemandReasonExtraData_default\<rparr> =
         JsonToOnDemandReason (indeterminate env (trace p))
           (case smap_find (saIdToStartReasonM p) (saIdM (heap p a)) of None \<Rightarrow> JNull | Some j \<Rightarrow> j)"
proof (cases "abilityStateM (heap p a) = NOT_LOADED")
  case True
  obtain j p1 where 1: "GetStartReason (saIdM (heap p a)) p = (j, p1)" by force
  have p1: "heap p1 = heap p" "trace p1 = trace p"
    and j: "j = (case smap_find (saIdToStartReasonM p) (saIdM (heap p a)) of None \<Rightarrow> JNull | Some j \<Rightarrow> j)"
    using GetStartReason_frame [of "saIdM (heap p a)" p] GetStartReason_value [of "saIdM (heap p a)" p] 1
    by auto
  obtain r p2 where 2: "GetOnDemandReasonExtraData env (JsonToOnDemandReason (indeterminate env (trace p)) j) p1 = (r, p2)"
    by force
  obtain evs where evs: "p2 = p1\<lparr>trace := trace p1 @ evs\<rparr>" "set evs \<subseteq> {E_GetSystemAbilityManager,
      E_GetOnDemandReasonExtraData (extraDataIdM r), E_ReadParcelable}"
    using fetched_reason(1) [OF 2] by blast
  have st: "Start env a p = upd_sa a (\<lambda>sa. sa\<lparr>isRunningM := True\<rparr>) (run_foreign env (E_OnStart a r) p2)"
    using True 1 2 p1(2) by (simp add: Start_def Let_def)
  have "\<exists>r q evs. Start env a p = upd_sa a (\<lambda>sa. sa\<lparr>isRunningM := True\<rparr>) (run_foreign env (E_OnStart a r) q)
     \<and> heap q = heap p \<and> trace q = trace p @ evs
     \<and> set evs \<subseteq> {E_GetSystemAbilityManager, E_GetOnDemandReasonExtraData (extraDataIdM r), E_ReadParcelable}
     \<and> r\<lparr>extraDataM := OnDemandReasonExtraData_default\<rparr> = JsonToOnDemandReason (indeterminate env (trace p))
      (case smap_find (saIdToStartReasonM p) (saIdM (heap p a)) of None \<Rightarrow> JNull | Some j \<Rightarrow> j)"
    using st evs p1 j fetched_reason(2) [OF 2] by (intro exI [of _ r] exI [of _ p2] exI [of _ evs]) simp
  then show ?thesis using True by simp
qed (simp add: Start_guard)

text \<open>The last part of \<open>Stop\<close>: the new state, and the removal from the system ability manager.\<close>

definition after_OnStop :: "env \<Rightarrow> nat \<Rightarrow> proc \<Rightarrow> proc" where
  "after_OnStop env a p =
     (let p = emit E_GetSystemAbilityManager (upd_sa a (\<lambda>sa. sa\<lparr>abilityStateM := NOT_LOADED, isRunningM := False\<rparr>) p)
      in if ans_bool env (trace p) then emit (E_RemoveSystemAbility (saIdM (heap p a))) p else p)"

lemma Stop_outcome:
  assumes "abilityStateM (heap p a) \<noteq> NOT_LOADED"
  shows "\<exists>r q evs. Stop env a p = after_OnStop env a (run_foreign env (E_OnStop a r) q)
     \<and> heap q = heap p \<and> localAbilityMapM q = localAbilityMapM p \<and> trace q = trace p @ evs
     \<and> set evs \<subseteq> {E_GetSystemAbilityManager, E_GetOnDemandReasonExtraData (extraDataIdM r), E_ReadParcelable}
     \<and> r\<lparr>extraDataM := OnDemandReasonExtraData_default\<rparr> =
         JsonToOnDemandReason (indeterminate env (trace p))
           (case smap_find (saIdToStopReasonM p) (saIdM (heap p a)) of None \<Rightarrow> JNull | Some j \<Rightarrow> j)"
proof -
  obtain j p1 where 1: "GetStopReason (saIdM (heap p a)) p = (j, p1)" by force
  have p1: "heap p1 = heap p" "trace p1 = trace p" "localAbilityMapM p1 = localAbilityMapM p"
    and j: "j = (case smap_find (saIdToStopReasonM p) (saIdM (heap p a)) of None \<Rightarrow> JNull | Some j \<Rightarrow> j)"
    using GetStopReason_frame [of "saIdM (heap p a)" p] GetStopReason_value [of "saIdM (heap p a)" p] 1 by auto
  obtain r p2 where 2: "GetOnDemandReasonExtraData env (JsonToOnDemandReason (indeterminate env (trace p)) j) p1 = (r, p2)"
    by force
  have "Stop env a p = after_OnStop env a (run_foreign env (E_OnStop a r) p2)"
    using assms 1 2 p1(2) by (simp add: Stop_def after_OnStop_def asks Let_def)
  moreover obtain evs where "p2 = p1\<lparr>trace := trace p1 @ evs\<rparr>"
      "set evs \<subseteq> {E_GetSystemAbilityManager, E_GetOnDemandReasonExtraData (extraDataIdM r), E_ReadParcelable}"
    using fetched_reason(1) [OF 2] by blast
  ultimately show ?thesis
    using fetched_reason(2) [OF 2] p1 j by (intro exI [of _ r] exI [of _ p2] exI [of _ evs]) simp
qed


section \<open>Properties\<close>

text \<open>
  \<open>Stop\<close> on a loaded ability always ends unloaded and not running, whatever the callback did, and
  its last action is to remove the ability from the system ability manager if that is reachable; on
  an unloaded ability it does nothing.
\<close>

theorem Stop_unloads:
  "if abilityStateM (heap p a) = NOT_LOADED then Stop env a p = p
   else abilityStateM (heap (Stop env a p) a) = NOT_LOADED \<and> \<not> isRunningM (heap (Stop env a p) a)
     \<and> (\<exists>h. trace (Stop env a p) = h @ E_GetSystemAbilityManager #
           (if ans_bool env (h @ [E_GetSystemAbilityManager])
            then [E_RemoveSystemAbility (saIdM (heap (Stop env a p) a))] else []))"
  by (auto simp: Stop_def Let_def asks split: prod.splits)

text \<open>
  An unloaded ability ignores every sequence of idle, active and stop commands: only a start can
  bring it back, and nothing is called meanwhile (the process state is unchanged).
\<close>

theorem unloaded_ability_inert:
  assumes "abilityStateM (heap p a) = NOT_LOADED" and "CStart \<notin> set cs"
  shows "fold (exec_command (Start env a) (Idle env a) (Active env a) (Stop env a)) cs p = p"
  using assms by (rule sa.unloaded_inert)

theorem unloaded_ability_inert_witness:
  "fold (exec_command (Start quiet_env 0) (Idle quiet_env 0) (Active quiet_env 0) (Stop quiet_env 0))
     [CStop, CIdle (SystemAbilityOnDemandReason_default 0)] (LocalAbilityManager (\<lambda>_. SystemAbility 7 True))
   = LocalAbilityManager (\<lambda>_. SystemAbility 7 True)"
  by (rule unloaded_ability_inert) (simp_all add: LocalAbilityManager_def SystemAbility_def)



text \<open>
  C25. The check and the commit of \<open>Idle\<close> are separate critical sections: if the ability is stopped
  while its \<open>OnIdle\<close> runs, the commit overwrites the unloaded state with IDLE. The ability is then
  recorded as idle though it is not running, and every later \<open>Start\<close> is refused.
\<close>

theorem idle_overwrites_stop:
  assumes "abilityStateM (heap p a) = ACTIVE" and "\<not> HasExtraData r"
    and "ans_int env (trace p @ [E_OnIdle a r]) = 0"
    and "interfere env (trace p @ [E_OnIdle a r]) (emit (E_OnIdle a r) p) = Stop env' a (emit (E_OnIdle a r) p)"
  shows "abilityStateM (heap (snd (Idle env a r p)) a) = IDLE
     \<and> \<not> isRunningM (heap (snd (Idle env a r p)) a)
     \<and> Start env'' a (snd (Idle env a r p)) = snd (Idle env a r p)"
proof -
  have eq: "Idle env a r p = (0, upd_sa a (\<lambda>sa. sa\<lparr>abilityStateM := IDLE\<rparr>) (Stop env' a (emit (E_OnIdle a r) p)))"
    using assms by (simp add: Idle_def ask_def run_foreign_def)
  have "\<not> isRunningM (heap (Stop env' a (emit (E_OnIdle a r) p)) a)"
    using assms(1) by (auto simp: Stop_def Let_def asks split: prod.splits)
  then show ?thesis by (simp add: eq Start_guard)
qed

theorem idle_overwrites_stop_witness:
  "\<exists>env p. abilityStateM (heap p 0) = ACTIVE \<and>
     abilityStateM (heap (snd (Idle env 0 (SystemAbilityOnDemandReason_default 0) p)) 0) = IDLE
     \<and> \<not> isRunningM (heap (snd (Idle env 0 (SystemAbilityOnDemandReason_default 0) p)) 0)"
proof -
  let ?env = "quiet_env\<lparr>interfere := (\<lambda>h p. Stop quiet_env 0 p)\<rparr>"
  let ?p = "LocalAbilityManager (\<lambda>_. (SystemAbility 7 True)\<lparr>abilityStateM := ACTIVE, isRunningM := True\<rparr>)"
  let ?r = "SystemAbilityOnDemandReason_default 0"
  have st: "abilityStateM (heap ?p 0) = ACTIVE" by (simp add: LocalAbilityManager_def)
  have h: "\<not> HasExtraData ?r" by (simp add: HasExtraData_def SystemAbilityOnDemandReason_default_def)
  show ?thesis
    using idle_overwrites_stop [OF st h, of ?env quiet_env quiet_env] st
    by (intro exI [of _ ?env] exI [of _ ?p]) (simp add: quiet_env_def)
qed

text \<open>
  C26. An ability whose \<open>OnStart\<close> did not publish is still unloaded after \<open>Start\<close>: it reports that it
  is running, but \<open>Stop\<close> refuses it and another \<open>Start\<close> runs its \<open>OnStart\<close> again.
\<close>

theorem unpublished_start:
  assumes "abilityStateM (heap p a) = NOT_LOADED" and "abilityStateM (heap (Start env a p) a) = NOT_LOADED"
  shows "isRunningM (heap (Start env a p) a) \<and> Stop env' a (Start env a p) = Start env a p
     \<and> (\<exists>r q. Start env' a (Start env a p) =
           upd_sa a (\<lambda>sa. sa\<lparr>isRunningM := True\<rparr>) (run_foreign env' (E_OnStart a r) q))"
  using assms by (auto simp: Stop_guard) (auto simp: Start_def Let_def split: prod.splits)

theorem unpublished_start_witness:
  "isRunningM (heap (Start quiet_env 0 (LocalAbilityManager (\<lambda>_. SystemAbility 7 True))) 0)"
proof -
  let ?p = "LocalAbilityManager (\<lambda>_. SystemAbility 7 True)"
  have "abilityStateM (heap ?p 0) = NOT_LOADED" "abilityStateM (heap (Start quiet_env 0 ?p) 0) = NOT_LOADED"
    by (simp_all add: LocalAbilityManager_def SystemAbility_def Start_def GetStartReason_def Let_def
        GetOnDemandReasonExtraData_def asks quiet_env_def run_foreign_def split: option.splits)
  then show ?thesis using unpublished_start [of ?p 0 quiet_env quiet_env] by blast
qed

text \<open>
  Publishing: the ability becomes active exactly when the system ability manager is reachable and
  accepts it under its own identifier and attributes; in every other case its state is unchanged, and
  a non-null object is kept alive even when publishing fails.
\<close>

theorem Publish_result:
  "Publish env a None p = (False, p) \<and>
   (let p1 = upd_sa a (\<lambda>sa. sa\<lparr>publishObjM := Some ob\<rparr>) p;
        h1 = trace p @ [E_GetSystemAbilityManager];
        sa = heap p a;
        h2 = h1 @ [E_AddSystemAbility (saIdM sa) ob (isDistributedM sa) (dumpLevelM sa) (capabilityM sa) (permissionM sa)]
    in Publish env a (Some ob) p =
         (if \<not> ans_bool env h1 then (False, p1\<lparr>trace := h1\<rparr>)
          else if ans_int env h2 = ERR_OK env
               then (True, upd_sa a (\<lambda>sa. sa\<lparr>abilityStateM := ACTIVE\<rparr>) (p1\<lparr>trace := h2\<rparr>))
               else (False, p1\<lparr>trace := h2\<rparr>)))"
  by (simp add: Publish_def asks Let_def emit_def upd_sa_def)

end
