(* ===== verification/Lam_Abilities.thy ===== *)
theory Lam_Abilities
  imports System_Ability
begin

text \<open>
  The registry of the abilities of the process and the requests on single abilities:
  \<open>services/safwk/src/local_ability_manager.cpp\<close>, \<open>AddAbility\<close> to \<open>RemoveAbility\<close>, \<open>OnStartAbility\<close> to
  \<open>IdleAbility\<close>, \<open>SendStrategyToSA\<close>, \<open>SystemAbilityExtProc\<close> and \<open>ServiceControlCmd\<close>.

  The threads that \<open>StartAbility\<close> and \<open>StopAbility\<close> detach are kept in \<open>detached\<close>;
  \<open>run_detached\<close> executes one of them. Readings of the clock that only reach a log line are not
  modelled.
\<close>

section \<open>The registry\<close>

definition apply_profile :: "sa_profile \<Rightarrow> system_ability \<Rightarrow> system_ability" where
  "apply_profile pf sa =
     (let sa = SetLibPath (pf_libPath pf) sa;
          sa = SetRunOnCreate (pf_runOnCreate pf) sa;
          sa = SetDependSa (pf_dependSa pf) sa;
          sa = SetDependTimeout (pf_dependTimeout pf) sa;
          sa = SetDistributed (pf_distributed pf) sa
      in SetDumpLevel (pf_dumpLevel pf) sa)"

definition AddAbility :: "env \<Rightarrow> ptr \<Rightarrow> proc \<Rightarrow> bool \<times> proc" where
  "AddAbility env ability p =
     (case ability of
        None \<Rightarrow> (False, p)
      | Some a \<Rightarrow>
          let saId = GetSystemAbilitId (heap p a);
              (saProfile, p) = query (ans_profile env) (E_GetProfile saId) p
          in case saProfile of
               None \<Rightarrow> (False, p)
             | Some pf \<Rightarrow>
                 (case smap_find (localAbilityMapM p) saId of
                    Some _ \<Rightarrow> (False, p)
                  | None \<Rightarrow>
                      let p = upd_sa a (apply_profile pf) p
                      in (True, p\<lparr>localAbilityMapM := smap_emplace saId (Some a) (localAbilityMapM p)\<rparr>)))"

definition MakeAndRegisterAbility :: "env \<Rightarrow> ptr \<Rightarrow> proc \<Rightarrow> bool \<times> proc" where
  "MakeAndRegisterAbility env systemAbility p = AddAbility env systemAbility p"

definition RemoveAbility :: "int \<Rightarrow> proc \<Rightarrow> bool \<times> proc" where
  "RemoveAbility systemAbilityId p =
     (if systemAbilityId \<le> 0 then (False, p)
      else (True, p\<lparr>localAbilityMapM := smap_erase systemAbilityId (localAbilityMapM p)\<rparr>))"

definition ClearResource :: "proc \<Rightarrow> proc" where
  "ClearResource p = emit E_ParserClearResource p"

definition GetAbility :: "int \<Rightarrow> proc \<Rightarrow> ptr" where
  "GetAbility systemAbilityId p =
     (case smap_find (localAbilityMapM p) systemAbilityId of None \<Rightarrow> None | Some ability \<Rightarrow> ability)"

definition GetRunningStatus :: "int \<Rightarrow> proc \<Rightarrow> bool" where
  "GetRunningStatus systemAbilityId p =
     (case GetAbility systemAbilityId p of None \<Rightarrow> False | Some a \<Rightarrow> GetRunningStatus_self (heap p a))"

section \<open>Starting and stopping on demand\<close>

definition RETRY_TIMES_FOR_ONDEMAND :: nat where
  "RETRY_TIMES_FOR_ONDEMAND = 10"

definition MILLISECONDS_WAITING_ONDEMAND_ONE_TIME :: int where
  "MILLISECONDS_WAITING_ONDEMAND_ONE_TIME = 100"

definition OnStartAbility :: "env \<Rightarrow> int \<Rightarrow> proc \<Rightarrow> bool \<times> proc" where
  "OnStartAbility env systemAbilityId p =
     (case GetAbility systemAbilityId p of None \<Rightarrow> (False, p) | Some a \<Rightarrow> (True, Start env a p))"

definition OnStopAbility :: "env \<Rightarrow> int \<Rightarrow> proc \<Rightarrow> bool \<times> proc" where
  "OnStopAbility env systemAbilityId p =
     (case GetAbility systemAbilityId p of None \<Rightarrow> (False, p) | Some a \<Rightarrow> (True, Stop env a p))"

text \<open>The waiting loop, counting \<open>timeout\<close> down; True means that it was left by the break.\<close>

fun wait_registered :: "env \<Rightarrow> int \<Rightarrow> nat \<Rightarrow> proc \<Rightarrow> bool \<times> proc" where
  "wait_registered env systemAbilityId 0 p = (False, p)"
| "wait_registered env systemAbilityId (Suc timeout) p =
     (if smap_find (localAbilityMapM p) systemAbilityId \<noteq> None then (True, p)
      else wait_registered env systemAbilityId timeout
             (run_foreign env (E_Usleep (1000 * MILLISECONDS_WAITING_ONDEMAND_ONE_TIME)) p))"

definition StartOndemandSystemAbility :: "env \<Rightarrow> int \<Rightarrow> proc \<Rightarrow> proc" where
  "StartOndemandSystemAbility env systemAbilityId p =
     (let (isExist, p) = call env (ans_bool env) (E_LoadSaLib systemAbilityId) p in
      if \<not> isExist then p
      else let (found, p) = wait_registered env systemAbilityId RETRY_TIMES_FOR_ONDEMAND p in
           if \<not> found then p else snd (OnStartAbility env systemAbilityId p))"

definition StopOndemandSystemAbility :: "env \<Rightarrow> int \<Rightarrow> proc \<Rightarrow> proc" where
  "StopOndemandSystemAbility env systemAbilityId p = snd (OnStopAbility env systemAbilityId p)"

definition StartAbility :: "env \<Rightarrow> int \<Rightarrow> string \<Rightarrow> proc \<Rightarrow> bool \<times> proc" where
  "StartAbility env systemAbilityId eventStr p =
     (let startReason = StringToJsonObj env eventStr;
          p = SetStartReason systemAbilityId startReason p
      in (True, p\<lparr>detached := detached p @ [StartTask systemAbilityId]\<rparr>))"

definition StopAbility :: "env \<Rightarrow> int \<Rightarrow> string \<Rightarrow> proc \<Rightarrow> bool \<times> proc" where
  "StopAbility env systemAbilityId eventStr p =
     (let stopReason = StringToJsonObj env eventStr;
          p = SetStopReason systemAbilityId stopReason p
      in (True, p\<lparr>detached := detached p @ [StopTask systemAbilityId]\<rparr>))"

text \<open>The scheduler runs the detached thread at position \<open>i\<close>.\<close>

fun thread_body :: "env \<Rightarrow> thread_task \<Rightarrow> proc \<Rightarrow> proc" where
  "thread_body env (StartTask saId) p = StartOndemandSystemAbility env saId p"
| "thread_body env (StopTask saId) p = StopOndemandSystemAbility env saId p"

definition run_detached :: "env \<Rightarrow> nat \<Rightarrow> proc \<Rightarrow> proc" where
  "run_detached env i p =
     (if i < length (detached p)
      then thread_body env (detached p ! i)
             (p\<lparr>detached := take i (detached p) @ drop (Suc i) (detached p)\<rparr>)
      else p)"

section \<open>Other requests\<close>

definition ActiveAbility :: "env \<Rightarrow> int \<Rightarrow> json \<Rightarrow> proc \<Rightarrow> bool \<times> proc" where
  "ActiveAbility env systemAbilityId activeReason p =
     (case GetAbility systemAbilityId p of
        None \<Rightarrow> (False, p)
      | Some a \<Rightarrow>
          (True, Active env a (JsonToOnDemandReason (indeterminate env (trace p)) activeReason) p))"

text \<open>The out-parameter \<open>delayTime\<close> is the second component; it is left alone if there is no ability.\<close>

definition IdleAbility :: "env \<Rightarrow> int \<Rightarrow> json \<Rightarrow> int \<Rightarrow> proc \<Rightarrow> bool \<times> int \<times> proc" where
  "IdleAbility env systemAbilityId idleReason delayTime p =
     (case GetAbility systemAbilityId p of
        None \<Rightarrow> (False, delayTime, p)
      | Some a \<Rightarrow>
          let (delayTime, p) = Idle env a (JsonToOnDemandReason (indeterminate env (trace p)) idleReason) p
          in (True, delayTime, p))"

text \<open>\<open>action\<close> is passed by reference; its second value is what the callback leaves in it.\<close>

definition SendStrategyToSA :: "env \<Rightarrow> int \<Rightarrow> int \<Rightarrow> int \<Rightarrow> string \<Rightarrow> proc \<Rightarrow> bool \<times> string \<times> proc" where
  "SendStrategyToSA env type systemAbilityId level action p =
     (case GetAbility systemAbilityId p of
        None \<Rightarrow> (False, action, p)
      | Some a \<Rightarrow>
          let (action, p) = call env (ans_str env) (E_OnDeviceLevelChanged a type level action) p
          in (True, action, p))"

text \<open>The pointer \<open>callback\<close> carries the two parcels; \<open>isAsync\<close> is not used.\<close>

definition SystemAbilityExtProc :: "env \<Rightarrow> string \<Rightarrow> int \<Rightarrow> ptr \<Rightarrow> bool \<Rightarrow> proc \<Rightarrow> int \<times> proc" where
  "SystemAbilityExtProc env extension said callback isAsync p =
     (if callback = None then (INVALID_DATA env, p)
      else case GetAbility said p of
             None \<Rightarrow> (INVALID_DATA env, p)
           | Some a \<Rightarrow> call env (ans_int env) (E_OnExtension a extension) p)"

definition ServiceControlCmd :: "env \<Rightarrow> int \<Rightarrow> int \<Rightarrow> u16string list \<Rightarrow> proc \<Rightarrow> int \<times> proc" where
  "ServiceControlCmd env fd systemAbilityId args p =
     (case GetAbility systemAbilityId p of
        None \<Rightarrow> (INVALID_DATA env, p)
      | Some a \<Rightarrow> call env (ans_int env) (E_OnSvcCmd a fd args) p)"

section \<open>The registry invariant\<close>

text \<open>
  The map is ordered; every entry points to an object, of the key's identifier, whose dependency
  timeout is within the documented limits.
\<close>

definition timeout_ok :: "system_ability \<Rightarrow> bool" where
  "timeout_ok sa \<longleftrightarrow> MIN_DEPENDENCY_TIMEOUT \<le> dependTimeoutM sa \<and> dependTimeoutM sa \<le> MAX_DEPENDENCY_TIMEOUT"

definition registry_ok :: "proc \<Rightarrow> bool" where
  "registry_ok p \<longleftrightarrow> smap_ok (localAbilityMapM p)
     \<and> (\<forall>k v. smap_find (localAbilityMapM p) k = Some v \<longrightarrow> (\<exists>a. v = Some a \<and> saIdM (heap p a) = k))
     \<and> (\<forall>a. timeout_ok (heap p a))"

text \<open>
  An invariant of the whole process is kept by every request on an ability, and by every detached
  thread, as soon as it survives registration and removal and does not look at the thread list.
\<close>

locale manager_invariant = framework_invariant +
  assumes inv_detached: "inv p \<Longrightarrow> inv (p\<lparr>detached := d\<rparr>)"
    and inv_AddAbility: "inv p \<Longrightarrow> inv (snd (AddAbility env q p))"
    and inv_RemoveAbility: "inv p \<Longrightarrow> inv (snd (RemoveAbility i p))"
begin

lemma inv_call: "rely env inv \<Longrightarrow> inv p \<Longrightarrow> inv (snd (call env f ev p))"
  by (simp add: call_def inv_run_foreign)

lemma inv_query: "inv p \<Longrightarrow> inv (snd (query f ev p))"
  by (simp add: query_def inv_emit)

lemma inv_OnStartAbility: "rely env inv \<Longrightarrow> inv p \<Longrightarrow> inv (snd (OnStartAbility env i p))"
  by (simp add: OnStartAbility_def inv_Start split: option.split)

lemma inv_OnStopAbility: "rely env inv \<Longrightarrow> inv p \<Longrightarrow> inv (snd (OnStopAbility env i p))"
  by (simp add: OnStopAbility_def inv_Stop split: option.split)

lemma inv_wait: "rely env inv \<Longrightarrow> inv p \<Longrightarrow> inv (snd (wait_registered env i n p))"
  by (induction n arbitrary: p) (simp_all add: inv_run_foreign)

lemma inv_StartOndemand: "rely env inv \<Longrightarrow> inv p \<Longrightarrow> inv (StartOndemandSystemAbility env i p)"
  by (simp add: StartOndemandSystemAbility_def case_prod_beta inv_call inv_wait inv_OnStartAbility)

lemma inv_StopOndemand: "rely env inv \<Longrightarrow> inv p \<Longrightarrow> inv (StopOndemandSystemAbility env i p)"
  by (simp add: StopOndemandSystemAbility_def inv_OnStopAbility)

lemma inv_StartAbility: "inv p \<Longrightarrow> inv (snd (StartAbility env i s p))"
  by (simp add: StartAbility_def Let_def inv_detached inv_SetStartReason)

lemma inv_StopAbility: "inv p \<Longrightarrow> inv (snd (StopAbility env i s p))"
  by (simp add: StopAbility_def Let_def inv_detached inv_SetStopReason)

lemma inv_thread_body: "rely env inv \<Longrightarrow> inv p \<Longrightarrow> inv (thread_body env t p)"
  by (cases t) (simp_all add: inv_StartOndemand inv_StopOndemand)

lemma inv_run_detached: "rely env inv \<Longrightarrow> inv p \<Longrightarrow> inv (run_detached env i p)"
  by (simp add: run_detached_def inv_thread_body inv_detached)

lemma inv_ActiveAbility: "rely env inv \<Longrightarrow> inv p \<Longrightarrow> inv (snd (ActiveAbility env i j p))"
  by (simp add: ActiveAbility_def inv_Active split: option.split)

lemma inv_IdleAbility: "rely env inv \<Longrightarrow> inv p \<Longrightarrow> inv (snd (snd (IdleAbility env i j d p)))"
  by (simp add: IdleAbility_def inv_Idle case_prod_beta split: option.split)

lemma inv_SendStrategy: "rely env inv \<Longrightarrow> inv p \<Longrightarrow> inv (snd (snd (SendStrategyToSA env ty i l s p)))"
  by (simp add: SendStrategyToSA_def inv_call case_prod_beta split: option.split)

lemma inv_ExtProc: "rely env inv \<Longrightarrow> inv p \<Longrightarrow> inv (snd (SystemAbilityExtProc env e i c b p))"
  by (simp add: SystemAbilityExtProc_def inv_call split: option.split)

lemma inv_ServiceControlCmd: "rely env inv \<Longrightarrow> inv p \<Longrightarrow> inv (snd (ServiceControlCmd env fd i args p))"
  by (simp add: ServiceControlCmd_def inv_call split: option.split)

lemmas inv_requests = inv_AddAbility inv_RemoveAbility inv_StartAbility inv_StopAbility inv_run_detached
  inv_ActiveAbility inv_IdleAbility inv_SendStrategy inv_ExtProc inv_ServiceControlCmd

end

lemma apply_profile_fields [simp]:
  "saIdM (apply_profile pf sa) = saIdM sa"
  "isRunningM (apply_profile pf sa) = isRunningM sa"
  "abilityStateM (apply_profile pf sa) = abilityStateM sa"
  "isRunOnCreateM (apply_profile pf sa) = pf_runOnCreate pf"
  "dependSaM (apply_profile pf sa) = pf_dependSa pf"
  by (simp_all add: apply_profile_def setters Let_def)

lemma timeout_ok_apply_profile: "timeout_ok sa \<Longrightarrow> timeout_ok (apply_profile pf sa)"
  by (simp add: timeout_ok_def apply_profile_def setters Let_def)

lemma timeout_ok_identity: "keeps_identity f \<Longrightarrow> timeout_ok sa \<Longrightarrow> timeout_ok (f sa)"
  by (simp add: timeout_ok_def keeps_identity_def)

lemma registry_okD:
  "registry_ok p \<Longrightarrow> smap_ok (localAbilityMapM p)"
  "registry_ok p \<Longrightarrow> smap_find (localAbilityMapM p) k = Some v \<Longrightarrow> \<exists>a. v = Some a \<and> saIdM (heap p a) = k"
  "registry_ok p \<Longrightarrow> timeout_ok (heap p a)"
  by (auto simp: registry_ok_def)

lemma registry_GetAbility: "registry_ok p \<Longrightarrow> GetAbility i p = Some a \<Longrightarrow> saIdM (heap p a) = i"
  using registry_okD(2) by (fastforce simp: GetAbility_def split: option.splits)


lemma registry_ok_cong:
  assumes "registry_ok p" and "localAbilityMapM q = localAbilityMapM p"
    and "\<And>a. saIdM (heap q a) = saIdM (heap p a)" and "\<And>a. timeout_ok (heap q a)"
  shows "registry_ok q"
  using assms by (simp add: registry_ok_def)

lemma registry_ok_emplace:
  "registry_ok p \<Longrightarrow> saIdM (heap p a) = k \<Longrightarrow> localAbilityMapM p = m \<Longrightarrow>
     registry_ok (p\<lparr>localAbilityMapM := smap_emplace k (Some a) m\<rparr>)"
  by (auto simp: registry_ok_def smap_ok_emplace smap_find_emplace)

lemma registry_ok_emit: "registry_ok p \<Longrightarrow> registry_ok (emit ev p)"
  by (rule registry_ok_cong [of p]) (simp_all add: registry_okD)

lemma registry_ok_profile: "registry_ok p \<Longrightarrow> registry_ok (upd_sa a (apply_profile pf) p)"
  by (rule registry_ok_cong [of p]) (simp_all add: timeout_ok_apply_profile registry_okD)

lemma registry_ok_AddAbility: "registry_ok p \<Longrightarrow> registry_ok (snd (AddAbility env q p))"
  by (cases q)
     (simp_all add: AddAbility_def Let_def query_def registry_ok_emit registry_ok_profile
       registry_ok_emplace split: option.split)

lemma registry_ok_RemoveAbility: "registry_ok p \<Longrightarrow> registry_ok (snd (RemoveAbility i p))"
  by (simp add: RemoveAbility_def registry_ok_def sm.invar_erase smap_find_erase)

lemma registry_ok_identity: "registry_ok p \<Longrightarrow> keeps_identity f \<Longrightarrow> registry_ok (upd_sa a f p)"
  by (rule registry_ok_cong [of p]) (auto simp: keeps_identity_def timeout_ok_identity registry_okD)

lemma registry_ok_frame:
  "registry_ok (p\<lparr>trace := t\<rparr>) = registry_ok p"
  "registry_ok (p\<lparr>saIdToStartReasonM := m\<rparr>) = registry_ok p"
  "registry_ok (p\<lparr>saIdToStopReasonM := m\<rparr>) = registry_ok p"
  "registry_ok (p\<lparr>detached := d\<rparr>) = registry_ok p"
  by (simp_all add: registry_ok_def)

interpretation reg: manager_invariant registry_ok
  by unfold_locales
     (simp_all add: registry_ok_frame registry_ok_identity registry_ok_AddAbility registry_ok_RemoveAbility reason_tables)

section \<open>Properties\<close>



lemma wait_registered_outcome:
  "wait_registered env i n p =
     (let sleep = run_foreign env (E_Usleep 100000);
          registered = (\<lambda>k. smap_find (localAbilityMapM ((sleep ^^ k) p)) i \<noteq> None)
      in case find registered [0..<n] of None \<Rightarrow> (False, (sleep ^^ n) p) | Some k \<Rightarrow> (True, (sleep ^^ k) p))"
proof (induction n arbitrary: p)
  case (Suc n)
  let ?s = "run_foreign env (E_Usleep 100000)"
  have shift: "find R [0..<Suc n] = (if R 0 then Some 0 else map_option Suc (find (\<lambda>k. R (Suc k)) [0..<n]))"
    for R :: "nat \<Rightarrow> bool"
    by (simp add: upt_conv_Cons find_map flip: map_Suc_upt del: upt_Suc)
  show ?case
    by (simp add: Suc.IH shift funpow_Suc_right MILLISECONDS_WAITING_ONDEMAND_ONE_TIME_def Let_def
        del: funpow.simps upt_Suc split: option.split)
qed simp

text \<open>
  A start on demand loads the library, and if that succeeds polls the registry before each of at most
  ten sleeps of 100 ms. The ability is started in the first polled state in which it is registered; if it is
  in none, the thread has slept ten times and starts nothing.
\<close>

theorem ondemand_start_outcome:
  "let p1 = run_foreign env (E_LoadSaLib i) p;
       sleep = run_foreign env (E_Usleep 100000);
       registered = (\<lambda>k. smap_find (localAbilityMapM ((sleep ^^ k) p1)) i \<noteq> None)
   in StartOndemandSystemAbility env i p =
        (if \<not> ans_bool env (trace p @ [E_LoadSaLib i]) then p1
         else case find registered [0..<10] of
                None \<Rightarrow> (sleep ^^ 10) p1
              | Some k \<Rightarrow>
                  (case GetAbility i ((sleep ^^ k) p1) of
                     None \<Rightarrow> (sleep ^^ k) p1
                   | Some a \<Rightarrow> Start env a ((sleep ^^ k) p1)))"
  by (simp add: StartOndemandSystemAbility_def call_def ask_def wait_registered_outcome
      RETRY_TIMES_FOR_ONDEMAND_def OnStartAbility_def Let_def del: upt.simps upt_rec_numeral
      split: option.split)

end
