(* ===== verification/Lam_Listeners.thy ===== *)
theory Lam_Listeners
  imports Lam_Abilities
begin

text \<open>
  The listeners for the status of other abilities:
  \<open>services/safwk/src/local_ability_manager.cpp\<close>, \<open>AddSystemAbilityListener\<close> to
  \<open>FindAndNotifyAbilityListeners\<close>, \<open>GetSystemAbilityStatusChange\<close> and the nested class
  \<open>SystemAbilityListener\<close>. A listener is an ability of the process; the process subscribes with the system
  ability manager once per observed ability and distributes what it is told.
\<close>

section \<open>Operations\<close>

text \<open>The object is created by the first call; the calls that pass it on ignore the result here.\<close>

definition GetSystemAbilityStatusChange :: "proc \<Rightarrow> proc" where
  "GetSystemAbilityStatusChange p =
     (if \<not> statusChangeListenerM p then p\<lparr>statusChangeListenerM := True\<rparr> else p)"

definition NotifyAbilityListener :: "env \<Rightarrow> int \<Rightarrow> int \<Rightarrow> string \<Rightarrow> status_code \<Rightarrow> proc \<Rightarrow> proc" where
  "NotifyAbilityListener env systemAbilityId listenerSaId deviceId code p =
     (case GetAbility listenerSaId p of
        None \<Rightarrow> p
      | Some a \<Rightarrow>
          (case code of
             ON_ADD_SYSTEM_ABILITY \<Rightarrow> run_foreign env (E_OnAddSystemAbility a systemAbilityId deviceId) p
           | ON_REMOVE_SYSTEM_ABILITY \<Rightarrow> run_foreign env (E_OnRemoveSystemAbility a systemAbilityId deviceId) p
           | OTHER_STATUS _ \<Rightarrow> p))"

definition AddSystemAbilityListener :: "env \<Rightarrow> int \<Rightarrow> int \<Rightarrow> proc \<Rightarrow> bool \<times> proc" where
  "AddSystemAbilityListener env systemAbilityId listenerSaId p =
     (if \<not> CheckInputSysAbilityId env systemAbilityId \<or> \<not> CheckInputSysAbilityId env listenerSaId
      then (False, p)
      else
        let (samgrProxy, p) = ask_bool env E_GetSystemAbilityManager p in
        if \<not> samgrProxy then (False, p)
        else
          let m = smap_emplace systemAbilityId [] (localListenerMapM p);
              listenerList = the (smap_find m systemAbilityId);
              found = listenerSaId \<in> fst ` set listenerList;
              (isNeedNotify, p) = (if length listenerList > 0
                 then ask_bool env (E_CheckSystemAbility systemAbilityId) p else (False, p));
              listenerList = (if \<not> found
                 then listenerList @ [(listenerSaId, if isNeedNotify then NOTIFIED else INIT)] else listenerList);
              p = p\<lparr>localListenerMapM := smap_assign systemAbilityId listenerList m\<rparr>
          in if length listenerList > 1
             then (True, if isNeedNotify
                     then NotifyAbilityListener env systemAbilityId listenerSaId [] ON_ADD_SYSTEM_ABILITY p else p)
             else let p = GetSystemAbilityStatusChange p;
                      (ret, p) = ask_int env (E_SubscribeSystemAbility systemAbilityId) p
                  in (ret = 0, p))"

text \<open>\<open>std::find_if\<close> and \<open>erase\<close> take out the first entry of the listener.\<close>

fun erase_listener :: "int \<Rightarrow> (int \<times> ListenerState) list \<Rightarrow> (int \<times> ListenerState) list" where
  "erase_listener l [] = []"
| "erase_listener l (x # xs) = (if fst x = l then xs else x # erase_listener l xs)"

definition RemoveSystemAbilityListener :: "env \<Rightarrow> int \<Rightarrow> int \<Rightarrow> proc \<Rightarrow> bool \<times> proc" where
  "RemoveSystemAbilityListener env systemAbilityId listenerSaId p =
     (if \<not> CheckInputSysAbilityId env systemAbilityId \<or> \<not> CheckInputSysAbilityId env listenerSaId
      then (False, p)
      else case smap_find (localListenerMapM p) systemAbilityId of
        None \<Rightarrow> (True, p)
      | Some listenerList \<Rightarrow>
          let listenerList = erase_listener listenerSaId listenerList;
              p = p\<lparr>localListenerMapM := smap_assign systemAbilityId listenerList (localListenerMapM p)\<rparr>
          in if listenerList \<noteq> [] then (True, p)
             else
               let p = p\<lparr>localListenerMapM := smap_erase systemAbilityId (localListenerMapM p)\<rparr>;
                   (samgrProxy, p) = ask_bool env E_GetSystemAbilityManager p
               in if \<not> samgrProxy then (False, p)
                  else let p = GetSystemAbilityStatusChange p;
                           (ret, p) = ask_int env (E_UnSubscribeSystemAbility systemAbilityId) p
                       in (ret = 0, p))"

text \<open>One pass over the list of an ability: whom to notify, and the updated states.\<close>

fun mark_listeners :: "status_code \<Rightarrow> (int \<times> ListenerState) list \<Rightarrow> int list \<times> (int \<times> ListenerState) list" where
  "mark_listeners code [] = ([], [])"
| "mark_listeners code ((l, st) # xs) =
     (let (listenerSaIdVec, ys) = mark_listeners code xs
      in case code of
           ON_ADD_SYSTEM_ABILITY \<Rightarrow>
             if st = INIT then (l # listenerSaIdVec, (l, NOTIFIED) # ys) else (listenerSaIdVec, (l, st) # ys)
         | ON_REMOVE_SYSTEM_ABILITY \<Rightarrow>
             (l # listenerSaIdVec, (l, if st = NOTIFIED then INIT else st) # ys)
         | OTHER_STATUS _ \<Rightarrow> (listenerSaIdVec, (l, st) # ys))"

definition FindAndNotifyAbilityListeners :: "env \<Rightarrow> int \<Rightarrow> string \<Rightarrow> status_code \<Rightarrow> proc \<Rightarrow> proc" where
  "FindAndNotifyAbilityListeners env systemAbilityId deviceId code p =
     (case smap_find (localListenerMapM p) systemAbilityId of
        None \<Rightarrow> p
      | Some listenerList \<Rightarrow>
          let (listenerSaIdVec, listenerList) = mark_listeners code listenerList;
              p = p\<lparr>localListenerMapM := smap_assign systemAbilityId listenerList (localListenerMapM p)\<rparr>
          in fold (\<lambda>listenerSaId. NotifyAbilityListener env systemAbilityId listenerSaId deviceId code)
               listenerSaIdVec p)"

definition OnAddSystemAbility :: "env \<Rightarrow> int \<Rightarrow> string \<Rightarrow> proc \<Rightarrow> proc" where
  "OnAddSystemAbility env systemAbilityId deviceId p =
     (if \<not> CheckInputSysAbilityId env systemAbilityId then p
      else FindAndNotifyAbilityListeners env systemAbilityId deviceId ON_ADD_SYSTEM_ABILITY p)"

definition OnRemoveSystemAbility :: "env \<Rightarrow> int \<Rightarrow> string \<Rightarrow> proc \<Rightarrow> proc" where
  "OnRemoveSystemAbility env systemAbilityId deviceId p =
     (if \<not> CheckInputSysAbilityId env systemAbilityId then p
      else FindAndNotifyAbilityListeners env systemAbilityId deviceId ON_REMOVE_SYSTEM_ABILITY p)"

text \<open>The methods of the base class by which an ability listens for itself.\<close>

definition AddSystemAbilityListener_self :: "env \<Rightarrow> nat \<Rightarrow> int \<Rightarrow> proc \<Rightarrow> bool \<times> proc" where
  "AddSystemAbilityListener_self env a systemAbilityId p =
     AddSystemAbilityListener env systemAbilityId (saIdM (heap p a)) p"

definition RemoveSystemAbilityListener_self :: "env \<Rightarrow> nat \<Rightarrow> int \<Rightarrow> proc \<Rightarrow> bool \<times> proc" where
  "RemoveSystemAbilityListener_self env a systemAbilityId p =
     RemoveSystemAbilityListener env systemAbilityId (saIdM (heap p a)) p"

section \<open>The listener invariant\<close>

text \<open>The map is ordered, no listener is listed twice for an ability, and no list is empty.\<close>

definition listeners_ok :: "proc \<Rightarrow> bool" where
  "listeners_ok p \<longleftrightarrow> smap_ok (localListenerMapM p)
     \<and> (\<forall>k xs. smap_find (localListenerMapM p) k = Some xs \<longrightarrow> xs \<noteq> [] \<and> distinct (map fst xs))"

definition listeners_of :: "int \<Rightarrow> proc \<Rightarrow> (int \<times> ListenerState) list" where
  "listeners_of i p = (case smap_find (localListenerMapM p) i of None \<Rightarrow> [] | Some xs \<Rightarrow> xs)"

text \<open>
  The contract the reachability argument needs of an invariant: every entry point of the manager,
  those of the listeners included, keeps it.
\<close>

locale service_invariant = manager_invariant +
  assumes inv_AddListener: "rely env inv \<Longrightarrow> inv p \<Longrightarrow> inv (snd (AddSystemAbilityListener env i l p))"
    and inv_RemoveListener: "inv p \<Longrightarrow> inv (snd (RemoveSystemAbilityListener env i l p))"
    and inv_FindAndNotify: "rely env inv \<Longrightarrow> inv p \<Longrightarrow> inv (FindAndNotifyAbilityListeners env i d code p)"
begin

lemma inv_OnAddSystemAbility: "rely env inv \<Longrightarrow> inv p \<Longrightarrow> inv (OnAddSystemAbility env i d p)"
  by (simp add: OnAddSystemAbility_def inv_FindAndNotify)

lemma inv_OnRemoveSystemAbility: "rely env inv \<Longrightarrow> inv p \<Longrightarrow> inv (OnRemoveSystemAbility env i d p)"
  by (simp add: OnRemoveSystemAbility_def inv_FindAndNotify)

lemmas inv_services = inv_requests inv_AddListener inv_RemoveListener inv_OnAddSystemAbility
  inv_OnRemoveSystemAbility

end

text \<open>An invariant that does not look at the listener members is one of these.\<close>

locale listener_blind = manager_invariant +
  assumes inv_listenerMap: "inv p \<Longrightarrow> inv (p\<lparr>localListenerMapM := m\<rparr>)"
    and inv_statusChange: "inv p \<Longrightarrow> inv (p\<lparr>statusChangeListenerM := b\<rparr>)"
begin

lemma inv_GetStatusChange: "inv p \<Longrightarrow> inv (GetSystemAbilityStatusChange p)"
  by (simp add: GetSystemAbilityStatusChange_def inv_statusChange)

lemma inv_Notify: "rely env inv \<Longrightarrow> inv p \<Longrightarrow> inv (NotifyAbilityListener env i l d code p)"
  by (simp add: NotifyAbilityListener_def inv_run_foreign split: option.split status_code.split)

lemma inv_Notify_fold:
  "rely env inv \<Longrightarrow> inv p \<Longrightarrow> inv (fold (\<lambda>l. NotifyAbilityListener env i l d code) ls p)"
  by (induction ls arbitrary: p) (simp_all add: inv_Notify)

end

sublocale listener_blind \<subseteq> service_invariant
proof unfold_locales
  fix env p i l assume "rely env inv" "inv p"
  then show "inv (snd (AddSystemAbilityListener env i l p))"
    by (simp add: AddSystemAbilityListener_def Let_def case_prod_beta asks inv_emit inv_listenerMap inv_Notify
        inv_GetStatusChange)
next
  fix env p i l assume "inv p"
  then show "inv (snd (RemoveSystemAbilityListener env i l p))"
    by (simp add: RemoveSystemAbilityListener_def Let_def case_prod_beta asks inv_emit inv_listenerMap
        inv_GetStatusChange split: option.split)
next
  fix env p i d code assume "rely env inv" "inv p"
  then show "inv (FindAndNotifyAbilityListeners env i d code p)"
    by (simp add: FindAndNotifyAbilityListeners_def Let_def case_prod_beta inv_listenerMap inv_Notify_fold
        split: option.split)
qed

interpretation reg: listener_blind registry_ok
  by unfold_locales (simp_all add: registry_ok_def)

subsection \<open>The operations keep it\<close>

lemma mark_listeners_ids [simp]: "map fst (snd (mark_listeners code xs)) = map fst xs"
  by (induction code xs rule: mark_listeners.induct)
     (auto simp: case_prod_beta Let_def split: status_code.split)

lemma mark_listeners_Nil [simp]: "snd (mark_listeners code xs) = [] \<longleftrightarrow> xs = []"
  by (metis mark_listeners_ids map_is_Nil_conv)

lemma set_erase_listener: "set (erase_listener l xs) \<subseteq> set xs"
  by (induction xs) auto

lemma erase_listener_filter:
  "distinct (map fst xs) \<Longrightarrow> erase_listener l xs = filter (\<lambda>x. fst x \<noteq> l) xs"
  by (induction xs) (auto simp: image_iff intro!: filter_True [symmetric])

lemma listeners_okD:
  "listeners_ok p \<Longrightarrow> smap_ok (localListenerMapM p)"
  "listeners_ok p \<Longrightarrow> smap_find (localListenerMapM p) k = Some xs \<Longrightarrow> xs \<noteq> []"
  "listeners_ok p \<Longrightarrow> smap_find (localListenerMapM p) k = Some xs \<Longrightarrow> distinct (map fst xs)"
  by (auto simp: listeners_ok_def)

lemma listeners_of_distinct: "listeners_ok p \<Longrightarrow> distinct (map fst (listeners_of i p))"
  by (simp add: listeners_of_def listeners_okD(3) split: option.split)

lemma listeners_ok_cong: "listeners_ok p \<Longrightarrow> localListenerMapM q = localListenerMapM p \<Longrightarrow> listeners_ok q"
  by (simp add: listeners_ok_def)

lemma listeners_ok_assign:
  "listeners_ok p \<Longrightarrow> xs \<noteq> [] \<Longrightarrow> distinct (map fst xs) \<Longrightarrow> localListenerMapM q = smap_assign i xs (localListenerMapM p)
     \<Longrightarrow> listeners_ok q"
  by (simp add: listeners_ok_def sm.invar_assign sm.lookup_assign)

lemma listeners_ok_erase:
  "listeners_ok p \<Longrightarrow> localListenerMapM q = smap_erase i (localListenerMapM p) \<Longrightarrow> listeners_ok q"
  by (simp add: listeners_ok_def sm.invar_erase smap_find_erase)

lemma smap_assign_emplace:
  "smap_ok m \<Longrightarrow> smap_assign i xs (smap_emplace i ys m) = smap_assign i xs m"
  by (induction i xs m rule: smap_assign.induct)
     (auto simp: smap_emplace_def smap_find_def smap_ok_Cons split: option.split)

lemma smap_erase_assign:
  "smap_ok m \<Longrightarrow> smap_erase i (smap_assign i xs m) = smap_erase i m"
  by (induction i xs m rule: smap_assign.induct) (auto simp: smap_erase_def smap_ok_Cons)

lemma GetStatusChange_fields [simp]:
  "localListenerMapM (GetSystemAbilityStatusChange p) = localListenerMapM p"
  "localAbilityMapM (GetSystemAbilityStatusChange p) = localAbilityMapM p"
  "heap (GetSystemAbilityStatusChange p) = heap p"
  "trace (GetSystemAbilityStatusChange p) = trace p"
  by (simp_all add: GetSystemAbilityStatusChange_def)

lemma listeners_ok_emit [simp]: "listeners_ok (emit ev p) = listeners_ok p"
  by (simp add: listeners_ok_def)

lemma listeners_ok_status [simp]: "listeners_ok (GetSystemAbilityStatusChange p) = listeners_ok p"
  by (simp add: listeners_ok_def)

lemma listeners_ok_Notify:
  "rely env listeners_ok \<Longrightarrow> listeners_ok p \<Longrightarrow> listeners_ok (NotifyAbilityListener env i l d code p)"
  by (simp add: NotifyAbilityListener_def run_foreign_def relyD listeners_ok_emit
      split: option.split status_code.split)

lemma listeners_ok_Notify_fold:
  "rely env listeners_ok \<Longrightarrow> listeners_ok p \<Longrightarrow>
     listeners_ok (fold (\<lambda>l. NotifyAbilityListener env i l d code) ls p)"
  by (induction ls arbitrary: p) (simp_all add: listeners_ok_Notify)

text \<open>
  Adding in one equation: the state after the locked section is \<open>q\<close>, from which either the listener is told at
  once or the subscription is made.
\<close>

lemma AddListener_unfold:
  fixes env i l p
  defines "xs \<equiv> listeners_of i p" and "h \<equiv> trace p @ [E_GetSystemAbilityManager]"
  defines "need \<equiv> xs \<noteq> [] \<and> ans_bool env (h @ [E_CheckSystemAbility i])"
  defines "ys \<equiv> (if l \<in> fst ` set xs then xs else xs @ [(l, if need then NOTIFIED else INIT)])"
  defines "q \<equiv> p\<lparr>trace := h @ (if xs = [] then [] else [E_CheckSystemAbility i]),
                 localListenerMapM := smap_assign i ys (localListenerMapM p)\<rparr>"
  assumes "smap_ok (localListenerMapM p)"
    and "CheckInputSysAbilityId env i" "CheckInputSysAbilityId env l" "ans_bool env h"
  shows "AddSystemAbilityListener env i l p =
     (if length ys > 1 then (True, if need then NotifyAbilityListener env i l [] ON_ADD_SYSTEM_ABILITY q else q)
      else (ans_int env (trace q @ [E_SubscribeSystemAbility i]) = 0,
            emit (E_SubscribeSystemAbility i) (GetSystemAbilityStatusChange q)))"
proof -
  have 1: "the (smap_find (smap_emplace i [] (localListenerMapM p)) i) = xs"
    using assms(6) by (simp add: smap_find_emplace xs_def listeners_of_def split: option.split)
  show ?thesis
    using assms(6-) 1
    by (simp add: AddSystemAbilityListener_def Let_def asks h_def need_def ys_def q_def smap_assign_emplace
        emit_def cong: if_cong)
qed

lemma AddListener_guards:
  "\<not> (CheckInputSysAbilityId env i \<and> CheckInputSysAbilityId env l) \<Longrightarrow> AddSystemAbilityListener env i l p = (False, p)"
  "CheckInputSysAbilityId env i \<Longrightarrow> CheckInputSysAbilityId env l \<Longrightarrow> \<not> ans_bool env (trace p @ [E_GetSystemAbilityManager]) \<Longrightarrow>
     AddSystemAbilityListener env i l p = (False, emit E_GetSystemAbilityManager p)"
  by (auto simp: AddSystemAbilityListener_def asks)

lemma listeners_ok_added:
  assumes "listeners_ok p" and "localListenerMapM q = smap_assign i ys (localListenerMapM p)"
    and "ys = (if l \<in> fst ` set (listeners_of i p) then listeners_of i p else listeners_of i p @ [(l, st)])"
  shows "listeners_ok q"
  by (rule listeners_ok_assign [OF assms(1) _ _ assms(2)])
     (use assms(3) listeners_of_distinct [OF assms(1), of i] in \<open>auto simp: distinct_append\<close>)

lemma listeners_ok_added_branches:
  "rely env listeners_ok \<Longrightarrow> listeners_ok q \<Longrightarrow>
     listeners_ok (snd (if A then (True, if N then NotifyAbilityListener env i l d c q else q)
       else (b, emit ev (GetSystemAbilityStatusChange q))))"
  by (simp add: listeners_ok_Notify)

lemma listeners_ok_AddListener:
  assumes "rely env listeners_ok" and "listeners_ok p"
  shows "listeners_ok (snd (AddSystemAbilityListener env i l p))"
proof (cases "CheckInputSysAbilityId env i \<and> CheckInputSysAbilityId env l")
  case valid: True
  show ?thesis
  proof (cases "ans_bool env (trace p @ [E_GetSystemAbilityManager])")
    case True
    show ?thesis
      by (subst AddListener_unfold)
         (use valid True assms in \<open>simp_all only: listeners_okD(1) simp_thms\<close>,
          intro listeners_ok_added_branches listeners_ok_added [OF assms(2) _ refl] assms, simp)
  qed (use valid assms in \<open>simp add: AddListener_guards listeners_ok_emit\<close>)
qed (use assms in \<open>simp add: AddListener_guards\<close>)

lemma RemoveListener_unfold:
  assumes "listeners_ok p" and "CheckInputSysAbilityId env i" "CheckInputSysAbilityId env l"
    and xs: "smap_find (localListenerMapM p) i = Some xs"
  defines "ys \<equiv> filter (\<lambda>x. fst x \<noteq> l) xs"
  defines "q \<equiv> emit E_GetSystemAbilityManager (p\<lparr>localListenerMapM := smap_erase i (localListenerMapM p)\<rparr>)"
  shows "RemoveSystemAbilityListener env i l p =
     (if ys \<noteq> [] then (True, p\<lparr>localListenerMapM := smap_assign i ys (localListenerMapM p)\<rparr>)
      else if \<not> ans_bool env (trace q) then (False, q)
      else (ans_int env (trace q @ [E_UnSubscribeSystemAbility i]) = 0,
            emit (E_UnSubscribeSystemAbility i) (GetSystemAbilityStatusChange q)))"
  using assms(1-3) xs listeners_okD(3) [OF assms(1) xs]
  by (simp add: RemoveSystemAbilityListener_def ys_def q_def erase_listener_filter Let_def asks smap_erase_assign
      listeners_okD(1))

lemma listeners_ok_RemoveListener:
  assumes "listeners_ok p"
  shows "listeners_ok (snd (RemoveSystemAbilityListener env i l p))"
proof (cases "CheckInputSysAbilityId env i \<and> CheckInputSysAbilityId env l \<and> smap_find (localListenerMapM p) i \<noteq> None")
  case True
  then obtain xs where xs: "smap_find (localListenerMapM p) i = Some xs" by auto
  let ?ys = "filter (\<lambda>x. fst x \<noteq> l) xs"
  have 1: "listeners_ok (p\<lparr>localListenerMapM := smap_assign i ?ys (localListenerMapM p)\<rparr>)" if "?ys \<noteq> []"
    by (rule listeners_ok_assign [OF assms that])
       (use listeners_okD(3) [OF assms xs] in \<open>simp_all add: distinct_map_filter_pairs\<close>)
  have 2: "listeners_ok (p\<lparr>localListenerMapM := smap_erase i (localListenerMapM p)\<rparr>)"
    by (rule listeners_ok_erase [OF assms]) simp
  show ?thesis
    using True 1 2 by (simp add: RemoveListener_unfold [OF assms _ _ xs])
qed (use assms in \<open>auto simp: RemoveSystemAbilityListener_def\<close>)

lemma listeners_ok_FindAndNotify:
  assumes "rely env listeners_ok" and "listeners_ok p"
  shows "listeners_ok (FindAndNotifyAbilityListeners env i d code p)"
proof (cases "smap_find (localListenerMapM p) i")
  case (Some xs)
  have "listeners_ok (p\<lparr>localListenerMapM := smap_assign i (snd (mark_listeners code xs)) (localListenerMapM p)\<rparr>)"
    by (rule listeners_ok_assign [OF assms(2)]) (use listeners_okD(2,3) [OF assms(2) Some] in simp_all)
  then show ?thesis
    using Some assms(1) by (simp add: FindAndNotifyAbilityListeners_def case_prod_beta listeners_ok_Notify_fold)
qed (use assms in \<open>simp add: FindAndNotifyAbilityListeners_def\<close>)

lemma AddAbility_frame [simp]:
  "localListenerMapM (snd (AddAbility env q p)) = localListenerMapM p"
  "unusedCfgMapM (snd (AddAbility env q p)) = unusedCfgMapM p"
  by (simp_all add: AddAbility_def Let_def query_def split: option.split)

lemma RemoveAbility_frame [simp]:
  "localListenerMapM (snd (RemoveAbility i p)) = localListenerMapM p"
  "unusedCfgMapM (snd (RemoveAbility i p)) = unusedCfgMapM p"
  by (simp_all add: RemoveAbility_def)

interpretation lis: service_invariant listeners_ok
  by unfold_locales
     (simp_all add: listeners_ok_AddListener listeners_ok_RemoveListener listeners_ok_FindAndNotify,
      (simp_all add: listeners_ok_def reason_tables))

section \<open>What a listener hears\<close>

text \<open>
  The specification of the notifications one listener gets for one ability, as a machine over the states of
  its entry: an addition is passed on if the listener has not been told of one since the last removal;
  a removal always is.
\<close>

fun heard :: "ListenerState \<Rightarrow> status_code list \<Rightarrow> status_code list" where
  "heard st [] = []"
| "heard INIT (ON_ADD_SYSTEM_ABILITY # cs) = ON_ADD_SYSTEM_ABILITY # heard NOTIFIED cs"
| "heard NOTIFIED (ON_ADD_SYSTEM_ABILITY # cs) = heard NOTIFIED cs"
| "heard st (ON_REMOVE_SYSTEM_ABILITY # cs) = ON_REMOVE_SYSTEM_ABILITY # heard INIT cs"
| "heard st (OTHER_STATUS n # cs) = heard st cs"

text \<open>The codes that a stretch of the trace delivers to the ability at \<open>a\<close> about the ability \<open>i\<close>.\<close>

fun notification :: "nat \<Rightarrow> int \<Rightarrow> event \<Rightarrow> status_code list" where
  "notification a i (E_OnAddSystemAbility b j d) = (if b = a \<and> j = i then [ON_ADD_SYSTEM_ABILITY] else [])"
| "notification a i (E_OnRemoveSystemAbility b j d) = (if b = a \<and> j = i then [ON_REMOVE_SYSTEM_ABILITY] else [])"
| "notification a i _ = []"

definition told :: "nat \<Rightarrow> int \<Rightarrow> event list \<Rightarrow> status_code list" where
  "told a i evs = concat (map (notification a i) evs)"

lemma told_append [simp]: "told a i (xs @ ys) = told a i xs @ told a i ys"
  by (simp add: told_def)

lemma told_Nil [simp]: "told a i [] = []"
  by (simp add: told_def)

definition next_state :: "status_code \<Rightarrow> ListenerState \<Rightarrow> ListenerState" where
  "next_state code st = (case code of ON_ADD_SYSTEM_ABILITY \<Rightarrow> NOTIFIED | ON_REMOVE_SYSTEM_ABILITY \<Rightarrow> INIT
     | OTHER_STATUS _ \<Rightarrow> st)"

definition passed_on :: "status_code \<Rightarrow> ListenerState \<Rightarrow> bool" where
  "passed_on code st = (case code of ON_ADD_SYSTEM_ABILITY \<Rightarrow> st = INIT | ON_REMOVE_SYSTEM_ABILITY \<Rightarrow> True
     | OTHER_STATUS _ \<Rightarrow> False)"

lemma heard_Cons: "heard st (c # cs) = (if passed_on c st then [c] else []) @ heard (next_state c st) cs"
  by (cases st; cases c) (simp_all add: passed_on_def next_state_def)

lemma ListenerState_neq: "st \<noteq> INIT \<longleftrightarrow> st = NOTIFIED" "st \<noteq> NOTIFIED \<longleftrightarrow> st = INIT"
  by (cases st; simp)+

lemma mark_listeners_closed:
  "mark_listeners code xs =
     (map fst (filter (\<lambda>(l, st). passed_on code st) xs), map (\<lambda>(l, st). (l, next_state code st)) xs)"
  by (induction code xs rule: mark_listeners.induct)
     (auto simp: passed_on_def next_state_def ListenerState_neq split: status_code.split)

text \<open>Callbacks that change nothing in the framework.\<close>

definition silent :: "env \<Rightarrow> bool" where
  "silent env \<longleftrightarrow> (\<forall>h p. interfere env h p = p)"

lemma Notify_silent:
  assumes "silent env"
  shows "NotifyAbilityListener env i l d code p =
    p\<lparr>trace := trace p @ (case GetAbility l p of None \<Rightarrow> [] | Some a \<Rightarrow>
        (case code of ON_ADD_SYSTEM_ABILITY \<Rightarrow> [E_OnAddSystemAbility a i d]
           | ON_REMOVE_SYSTEM_ABILITY \<Rightarrow> [E_OnRemoveSystemAbility a i d] | OTHER_STATUS _ \<Rightarrow> []))\<rparr>"
  using assms
  by (simp add: NotifyAbilityListener_def run_foreign_def silent_def emit_def split: option.split status_code.split)

lemma Notify_fold_told:
  assumes "silent env" and "registry_ok p" and a: "GetAbility l p = Some a" and "distinct ls"
    and code: "\<And>n. code \<noteq> OTHER_STATUS n"
  shows "\<exists>evs. fold (\<lambda>l. NotifyAbilityListener env i l d code) ls p = p\<lparr>trace := trace p @ evs\<rparr>
     \<and> told a i evs = (if l \<in> set ls then [code] else [])"
  using \<open>distinct ls\<close>
proof (induction ls rule: rev_induct)
  case (snoc x ls)
  then obtain evs where evs: "fold (\<lambda>l. NotifyAbilityListener env i l d code) ls p = p\<lparr>trace := trace p @ evs\<rparr>"
      "told a i evs = (if l \<in> set ls then [code] else [])" by auto
  have g: "GetAbility x (p\<lparr>trace := t\<rparr>) = GetAbility x p" for t by (simp add: GetAbility_def)
  have other: "b \<noteq> a" if "GetAbility x p = Some b" "x \<noteq> l" for b
    using that registry_GetAbility [OF assms(2)] a by auto
  define es where "es = (case GetAbility x p of None \<Rightarrow> [] | Some a \<Rightarrow>
        (case code of ON_ADD_SYSTEM_ABILITY \<Rightarrow> [E_OnAddSystemAbility a i d]
           | ON_REMOVE_SYSTEM_ABILITY \<Rightarrow> [E_OnRemoveSystemAbility a i d] | OTHER_STATUS _ \<Rightarrow> []))"
  have "fold (\<lambda>l. NotifyAbilityListener env i l d code) (ls @ [x]) p = p\<lparr>trace := trace p @ (evs @ es)\<rparr>"
    by (simp add: evs(1) Notify_silent [OF assms(1)] g es_def)
  moreover have "told a i es = (if x = l then [code] else [])"
    using a other code by (auto simp: es_def told_def split: option.split status_code.split)
  ultimately show ?case using snoc.prems evs(2) by (intro exI [of _ "evs @ es"]) auto
qed (rule exI [of _ "[]"], simp)

lemma FindAndNotify_told:
  assumes "silent env" and "registry_ok p" and "listeners_ok p" and a: "GetAbility l p = Some a"
    and st: "(l, st) \<in> set (listeners_of i p)"
  shows "\<exists>evs. trace (FindAndNotifyAbilityListeners env i d code p) = trace p @ evs
     \<and> told a i evs = (if passed_on code st then [code] else [])
     \<and> localAbilityMapM (FindAndNotifyAbilityListeners env i d code p) = localAbilityMapM p
     \<and> heap (FindAndNotifyAbilityListeners env i d code p) = heap p
     \<and> (l, next_state code st) \<in> set (listeners_of i (FindAndNotifyAbilityListeners env i d code p))"
proof -
  obtain xs where xs: "smap_find (localListenerMapM p) i = Some xs" and m: "(l, st) \<in> set xs"
    using st by (cases "smap_find (localListenerMapM p) i") (auto simp: listeners_of_def)
  define ls where "ls = map fst (filter (\<lambda>(l, st). passed_on code st) xs)"
  define q where "q = p\<lparr>localListenerMapM := smap_assign i (map (\<lambda>(l, st). (l, next_state code st)) xs) (localListenerMapM p)\<rparr>"
  have d: "distinct (map fst xs)" using listeners_okD(3) [OF assms(3) xs] .
  then have ls: "distinct ls" "l \<in> set ls \<longleftrightarrow> passed_on code st"
    using m by (auto simp: ls_def distinct_map_filter_pairs image_iff dest: eq_key_imp_eq_value)
  have q: "registry_ok q" "GetAbility l q = Some a" "listeners_of i q = map (\<lambda>(l, st). (l, next_state code st)) xs"
    using assms(2) a by (simp_all add: q_def registry_ok_def GetAbility_def listeners_of_def)
  have f: "FindAndNotifyAbilityListeners env i d code p = fold (\<lambda>l. NotifyAbilityListener env i l d code) ls q"
    by (simp add: FindAndNotifyAbilityListeners_def xs mark_listeners_closed ls_def q_def)
  have res: "(l, next_state code st) \<in> set (listeners_of i q)" using m by (force simp: q(3))
  have fields: "trace q = trace p" "localAbilityMapM q = localAbilityMapM p" "heap q = heap p"
    by (simp_all add: q_def)
  have "\<exists>evs. fold (\<lambda>l. NotifyAbilityListener env i l d code) ls q = q\<lparr>trace := trace q @ evs\<rparr>
     \<and> told a i evs = (if passed_on code st then [code] else [])"
  proof (cases "\<exists>n. code = OTHER_STATUS n")
    case True
    then have "ls = []" "\<not> passed_on code st" by (auto simp: ls_def passed_on_def)
    then show ?thesis by (intro exI [of _ "[]"]) simp
  next
    case False
    then show ?thesis using Notify_fold_told [OF assms(1) q(1,2) ls(1), of code i d] ls(2) by simp
  qed
  then obtain evs where "fold (\<lambda>l. NotifyAbilityListener env i l d code) ls q = q\<lparr>trace := trace q @ evs\<rparr>"
     "told a i evs = (if passed_on code st then [code] else [])" by blast
  moreover have "listeners_of i (q\<lparr>trace := t\<rparr>) = listeners_of i q" for t by (simp add: listeners_of_def)
  ultimately show ?thesis using res fields by (intro exI [of _ evs]) (simp add: f)
qed

lemma run_status_told:
  assumes "silent env" and "registry_ok p" and "listeners_ok p" and "GetAbility l p = Some a"
    and "(l, st) \<in> set (listeners_of i p)"
  shows "\<exists>evs. trace (fold (FindAndNotifyAbilityListeners env i d) cs p) = trace p @ evs
     \<and> told a i evs = heard st cs"
  using assms(2-)
proof (induction cs arbitrary: p st)
  case (Cons c cs)
  let ?q = "FindAndNotifyAbilityListeners env i d c p"
  obtain evs where q: "trace ?q = trace p @ evs" "told a i evs = (if passed_on c st then [c] else [])"
      "localAbilityMapM ?q = localAbilityMapM p" "heap ?q = heap p" "(l, next_state c st) \<in> set (listeners_of i ?q)"
    using FindAndNotify_told [OF assms(1) Cons.prems] by blast
  have "rely env listeners_ok" using assms(1) by (simp add: rely_def silent_def)
  then have "listeners_ok ?q" using Cons.prems by (simp add: listeners_ok_FindAndNotify)
  moreover have "registry_ok ?q" "GetAbility l ?q = Some a"
    using Cons.prems q(3,4) by (simp_all add: registry_ok_def GetAbility_def)
  ultimately obtain es where "trace (fold (FindAndNotifyAbilityListeners env i d) cs ?q) = trace ?q @ es"
      "told a i es = heard (next_state c st) cs" using Cons.IH [OF _ _ _ q(5)] by blast
  then show ?case using q(1,2) by (intro exI [of _ "evs @ es"]) (simp add: heard_Cons)
qed (rule exI [of _ "[]"], simp)

lemma smap_assign_assign: "smap_ok m \<Longrightarrow> smap_assign i xs (smap_assign i ys m) = smap_assign i xs m"
  by (induction i ys m rule: smap_assign.induct) (auto simp: smap_ok_Cons)

lemma smap_assign_same: "smap_ok m \<Longrightarrow> smap_find m i = Some xs \<Longrightarrow> smap_assign i xs m = m"
  by (induction i xs m rule: smap_assign.induct) (fastforce simp: smap_ok_Cons smap_find_def dest: map_of_SomeD split: if_splits)+

lemma smap_erase_absent: "smap_find m i = None \<Longrightarrow> smap_erase i m = m"
  by (auto simp: smap_erase_def smap_find_def map_of_eq_None_iff image_iff filter_id_conv)

lemma Notify_keeps_listeners:
  assumes "\<And>h q. localListenerMapM (interfere env h q) = localListenerMapM q"
  shows "localListenerMapM (NotifyAbilityListener env i l d code p) = localListenerMapM p"
  using assms by (simp add: NotifyAbilityListener_def run_foreign_def split: option.split status_code.split)

text \<open>The map after adding a listener, when callbacks leave the map alone.\<close>

lemma AddListener_map:
  assumes "listeners_ok p" and "CheckInputSysAbilityId env i" "CheckInputSysAbilityId env l"
    and "ans_bool env (trace p @ [E_GetSystemAbilityManager])"
    and "\<And>h q. localListenerMapM (interfere env h q) = localListenerMapM q"
    and "l \<notin> fst ` set (listeners_of i p)"
  shows "\<exists>st. localListenerMapM (snd (AddSystemAbilityListener env i l p)) =
     smap_assign i (listeners_of i p @ [(l, st)]) (localListenerMapM p)"
  using assms by (simp add: AddListener_unfold [OF listeners_okD(1)] Notify_keeps_listeners) blast

section \<open>Properties\<close>

text \<open>
  C2. Exactly-once notification. With callbacks that do not re-enter the manager, a registered listener of an
  ability is told, over any sequence of status changes of that ability, exactly what the
  specification \<open>heard\<close> says: every removal, and an addition only if it has not been told of one since the last removal.
\<close>

theorem listener_hears:
  assumes "silent env" and "registry_ok p" and "listeners_ok p" and "GetAbility l p = Some a"
    and "(l, st) \<in> set (listeners_of i p)"
  shows "\<exists>evs. trace (fold (FindAndNotifyAbilityListeners env i d) cs p) = trace p @ evs
     \<and> told a i evs = heard st cs"
  using assms by (rule run_status_told)

theorem listener_hears_witness:
  "\<exists>evs. trace (fold (FindAndNotifyAbilityListeners quiet_env 9 ''dev'')
        [ON_ADD_SYSTEM_ABILITY, ON_ADD_SYSTEM_ABILITY, ON_REMOVE_SYSTEM_ABILITY]
        ((LocalAbilityManager (\<lambda>_. SystemAbility 7 False))\<lparr>localAbilityMapM := [(7, Some 0)],
           localListenerMapM := [(9, [(7, INIT)])]\<rparr>)) = evs
     \<and> told 0 9 evs = [ON_ADD_SYSTEM_ABILITY, ON_REMOVE_SYSTEM_ABILITY]"
proof -
  let ?p = "(LocalAbilityManager (\<lambda>_. SystemAbility 7 False))\<lparr>localAbilityMapM := [(7, Some 0)],
           localListenerMapM := [(9, [(7, INIT)])]\<rparr>"
  have "silent quiet_env" by (simp add: silent_def quiet_env_def)
  moreover have "registry_ok ?p"
    by (simp add: registry_ok_def smap_ok_def smap_find_def LocalAbilityManager_def SystemAbility_def timeout_ok_def
        MIN_DEPENDENCY_TIMEOUT_def MAX_DEPENDENCY_TIMEOUT_def DEFAULT_DEPENDENCY_TIMEOUT_def)
  moreover have "listeners_ok ?p" by (simp add: listeners_ok_def smap_ok_def smap_find_def)
  moreover have "GetAbility 7 ?p = Some 0" "(7, INIT) \<in> set (listeners_of 9 ?p)" "trace ?p = []"
    by (simp_all add: GetAbility_def listeners_of_def smap_find_def LocalAbilityManager_def)
  ultimately show ?thesis
    using listener_hears [of quiet_env ?p 7 0 INIT 9 "''dev''"
      "[ON_ADD_SYSTEM_ABILITY, ON_ADD_SYSTEM_ABILITY, ON_REMOVE_SYSTEM_ABILITY]"] by auto
qed

text \<open>
  C27. Adding a listener and removing it again restores the listener table: when the identifiers are valid,
  the system ability manager is reachable at the addition, and callbacks do not touch the table, the table after the
  two calls is the one before them, whether the subscription calls succeeded or not.
\<close>

theorem add_remove_listener:
  assumes "listeners_ok p" and "CheckInputSysAbilityId env i" "CheckInputSysAbilityId env l"
    and "ans_bool env (trace p @ [E_GetSystemAbilityManager])"
    and "\<And>h q. localListenerMapM (interfere env h q) = localListenerMapM q"
    and "l \<notin> fst ` set (listeners_of i p)"
  shows "localListenerMapM (snd (RemoveSystemAbilityListener env i l (snd (AddSystemAbilityListener env i l p))))
     = localListenerMapM p"
proof -
  let ?q = "snd (AddSystemAbilityListener env i l p)"
  have "rely env listeners_ok" using assms(5) by (simp add: rely_def listeners_ok_def)
  then have ok: "listeners_ok ?q" using assms(1) by (rule listeners_ok_AddListener)
  obtain st where m: "localListenerMapM ?q = smap_assign i (listeners_of i p @ [(l, st)]) (localListenerMapM p)"
    using AddListener_map [OF assms] by blast
  then have f: "smap_find (localListenerMapM ?q) i = Some (listeners_of i p @ [(l, st)])" by simp
  have "filter (\<lambda>x. fst x \<noteq> l) (listeners_of i p @ [(l, st)]) = listeners_of i p"
    using assms(6) by (auto simp: filter_id_conv image_iff)
  moreover have "smap_assign i (listeners_of i p) (localListenerMapM p) = localListenerMapM p" if "listeners_of i p \<noteq> []"
    using that assms(1) by (simp add: listeners_of_def smap_assign_same listeners_okD split: option.splits)
  moreover have "smap_erase i (localListenerMapM p) = localListenerMapM p" if "listeners_of i p = []"
    using that listeners_okD(2) [OF assms(1), of i]
    by (intro smap_erase_absent) (auto simp: listeners_of_def split: option.splits)
  ultimately show ?thesis
    using assms(1) by (simp add: RemoveListener_unfold [OF ok assms(2,3) f] m smap_assign_assign smap_erase_assign listeners_okD(1))
qed

theorem add_remove_listener_witness:
  "localListenerMapM (snd (RemoveSystemAbilityListener quiet_env 9 7
     (snd (AddSystemAbilityListener quiet_env 9 7 (LocalAbilityManager (\<lambda>_. SystemAbility 7 False)))))) = []"
proof -
  let ?p = "LocalAbilityManager (\<lambda>_. SystemAbility 7 False)"
  have 1: "listeners_ok ?p" "(7::int) \<notin> fst ` set (listeners_of 9 ?p)" "localListenerMapM ?p = []"
    by (simp_all add: listeners_ok_def listeners_of_def LocalAbilityManager_def)
  show ?thesis
    using add_remove_listener [of ?p quiet_env 9 7] 1 by (simp add: quiet_env_def CheckInputSysAbilityId_def)
qed

text \<open>
  C28. A listener whose subscription failed stays in the table: \<open>AddSystemAbilityListener\<close> reports the failure to
  the first listener, but a second listener added while the ability is absent is told that it succeeded,
  without a subscription having been made or tried again.
\<close>

theorem failed_subscribe_stays:
  assumes "listeners_ok p" and "listeners_of i p = []" and "l2 \<noteq> l1"
    and "CheckInputSysAbilityId env i" "CheckInputSysAbilityId env l1" "CheckInputSysAbilityId env l2"
    and h1: "h1 = trace p @ [E_GetSystemAbilityManager, E_SubscribeSystemAbility i]"
    and "ans_bool env (trace p @ [E_GetSystemAbilityManager])" "ans_int env h1 \<noteq> 0"
    and "ans_bool env (h1 @ [E_GetSystemAbilityManager])"
    and "\<not> ans_bool env (h1 @ [E_GetSystemAbilityManager, E_CheckSystemAbility i])"
  shows "case AddSystemAbilityListener env i l1 p of (ok1, p1) \<Rightarrow>
     case AddSystemAbilityListener env i l2 p1 of (ok2, p2) \<Rightarrow>
       \<not> ok1 \<and> ok2 \<and> listeners_of i p2 = [(l1, INIT), (l2, INIT)]
       \<and> trace p2 = h1 @ [E_GetSystemAbilityManager, E_CheckSystemAbility i]"
proof -
  obtain ok1 p1 where a1: "AddSystemAbilityListener env i l1 p = (ok1, p1)" by force
  have m: "smap_ok (localListenerMapM p)" using assms(1) by (rule listeners_okD)
  have 1: "\<not> ok1" "trace p1 = h1" "localListenerMapM p1 = smap_assign i [(l1, INIT)] (localListenerMapM p)"
    using a1 assms by (auto simp: AddListener_unfold [OF m])
  have m1: "smap_ok (localListenerMapM p1)" using m by (simp add: 1(3) sm.invar_assign)
  have l: "listeners_of i p1 = [(l1, INIT)]" by (simp add: listeners_of_def 1(3))
  show ?thesis
    using assms 1 a1 l by (simp add: AddListener_unfold [OF m1]) (simp add: listeners_of_def)
qed

theorem failed_subscribe_stays_witness:
  "fst (AddSystemAbilityListener (quiet_env\<lparr>ans_int := (\<lambda>_. 1), ans_bool := (\<lambda>h. last h = E_GetSystemAbilityManager)\<rparr>) 9 8
     (snd (AddSystemAbilityListener (quiet_env\<lparr>ans_int := (\<lambda>_. 1), ans_bool := (\<lambda>h. last h = E_GetSystemAbilityManager)\<rparr>) 9 7
       (LocalAbilityManager (\<lambda>_. SystemAbility 7 False)))))"
proof -
  let ?p = "LocalAbilityManager (\<lambda>_. SystemAbility 7 False)"
  let ?e = "quiet_env\<lparr>ans_int := (\<lambda>_. 1), ans_bool := (\<lambda>h. last h = E_GetSystemAbilityManager)\<rparr>"
  have 1: "listeners_ok ?p" "listeners_of 9 ?p = []"
    by (simp_all add: listeners_ok_def listeners_of_def LocalAbilityManager_def)
  have c: "CheckInputSysAbilityId ?e 9" "CheckInputSysAbilityId ?e 7" "CheckInputSysAbilityId ?e 8"
    by (simp_all add: quiet_env_def CheckInputSysAbilityId_def)
  show ?thesis
    using failed_subscribe_stays [OF 1 _ c refl] by (simp add: case_prod_beta)
qed

end
