(* ===== verification/Lam_Unused.thy ===== *)
theory Lam_Unused
  imports Lam_Listeners
begin

text \<open>
  The unloading of on-demand abilities that are not used:
  \<open>services/safwk/src/local_ability_manager.cpp\<close>, \<open>IsResident\<close> to \<open>StopTimedQuery\<close>. In a process without a
  resident ability a timer fires every minute and \<open>IdentifyUnusedOndemand\<close> asks the system ability manager to
  unload each configured ability whose last request is older than its configured limit.

  Times are unsigned 64-bit milliseconds; the configured limits are \<open>int32_t\<close>. The product in
  \<open>LimitUnusedTimeout\<close> is computed in 32 bits before it is widened: C++ leaves its overflow undefined, the model
  takes the two's complement result.
\<close>

section \<open>Configuration\<close>

definition UNUSED_ONDEMAND_TIMER_INTERVAL_MSECONDS :: int where
  "UNUSED_ONDEMAND_TIMER_INTERVAL_MSECONDS = 1000 * 60 * 1"

definition ONDEMAND_SA_UNUSED_TIMEOUT_LOWLIMIT :: int where
  "ONDEMAND_SA_UNUSED_TIMEOUT_LOWLIMIT = UNUSED_ONDEMAND_TIMER_INTERVAL_MSECONDS"

definition ONDEMAND_SA_UNUSED_TIMEOUT_UPLIMIT :: int where
  "ONDEMAND_SA_UNUSED_TIMEOUT_UPLIMIT = 1000 * 60 * 120"

definition TIME_S_TO_MS :: int where
  "TIME_S_TO_MS = 1000"

lemmas unused_consts = UNUSED_ONDEMAND_TIMER_INTERVAL_MSECONDS_def ONDEMAND_SA_UNUSED_TIMEOUT_LOWLIMIT_def
  ONDEMAND_SA_UNUSED_TIMEOUT_UPLIMIT_def TIME_S_TO_MS_def

definition IsResident :: "proc \<Rightarrow> bool" where
  "IsResident p = list_ex (\<lambda>(k, ability). case ability of None \<Rightarrow> False | Some a \<Rightarrow> IsRunOnCreate (heap p a))
     (localAbilityMapM p)"

definition NoNeedCheckUnused :: "int \<Rightarrow> bool" where
  "NoNeedCheckUnused saId = (let saIdWhiteList = {} in saId \<in> saIdWhiteList)"

definition IsConfigUnused :: "proc \<Rightarrow> bool" where
  "IsConfigUnused p = (unusedCfgMapM p \<noteq> [])"

definition LimitUnusedTimeout :: "int \<Rightarrow> int \<Rightarrow> proc \<Rightarrow> proc" where
  "LimitUnusedTimeout saId timeout p =
     (let millisecTimeout = s64 (s32 (timeout * TIME_S_TO_MS))
      in if millisecTimeout < ONDEMAND_SA_UNUSED_TIMEOUT_LOWLIMIT
         then p\<lparr>unusedCfgMapM := smap_assign saId ONDEMAND_SA_UNUSED_TIMEOUT_LOWLIMIT (unusedCfgMapM p)\<rparr>
         else if millisecTimeout > ONDEMAND_SA_UNUSED_TIMEOUT_UPLIMIT
         then p\<lparr>unusedCfgMapM := smap_assign saId ONDEMAND_SA_UNUSED_TIMEOUT_UPLIMIT (unusedCfgMapM p)\<rparr>
         else p\<lparr>unusedCfgMapM := smap_assign saId (s32 millisecTimeout) (unusedCfgMapM p)\<rparr>)"

definition init_unused_entry :: "sa_profile \<Rightarrow> proc \<Rightarrow> proc" where
  "init_unused_entry saProfile p =
     (if \<not> pf_runOnCreate saProfile \<and> pf_unusedTimeout saProfile \<noteq> -1
      then LimitUnusedTimeout (pf_saId saProfile) (pf_unusedTimeout saProfile) p else p)"

definition InitUnusedCfg :: "env \<Rightarrow> proc \<Rightarrow> proc" where
  "InitUnusedCfg env p =
     (let (saProfileList, p) = query (ans_profiles env) E_GetAllSaProfiles p
      in fold init_unused_entry saProfileList p)"

section \<open>Finding unused abilities\<close>

definition GetSaLastRequestTime :: "env \<Rightarrow> int \<Rightarrow> proc \<Rightarrow> 64 word option \<times> proc" where
  "GetSaLastRequestTime env saId p =
     (case GetAbility saId p of
        None \<Rightarrow> (None, p)
      | Some a \<Rightarrow>
          (case GetAbilityRemoteObject (heap p a) of
             None \<Rightarrow> (None, p)
           | Some ob \<Rightarrow>
               let (t, p) = ask_int env (E_GetLastRequestTime ob) p in (Some (word_of_int t), p)))"

definition check_unused :: "env \<Rightarrow> 64 word \<Rightarrow> int \<times> int \<Rightarrow> proc \<Rightarrow> proc" where
  "check_unused env currTime it p =
     (let saId = fst it; (ret, p) = GetSaLastRequestTime env saId p
      in case ret of
           None \<Rightarrow> p
         | Some lastRequestTime \<Rightarrow>
             if currTime \<le> lastRequestTime then p
             else let threshold = word_of_int (snd it); idleTime = currTime - lastRequestTime
                  in if idleTime > threshold then emit (E_UnloadSystemAbility saId) p else p)"

definition IdentifyUnusedOndemand :: "env \<Rightarrow> proc \<Rightarrow> proc" where
  "IdentifyUnusedOndemand env p =
     (let (cur, p) = ask_int env E_SteadyClockNow p;
          currTime = word_of_int cur;
          (samgr, p) = ask_bool env E_GetSystemAbilityManager p
      in if \<not> samgr then p else fold (check_unused env currTime) (unusedCfgMapM p) p)"

section \<open>The timer\<close>

definition StartOnDemandTimer :: "env \<Rightarrow> proc \<Rightarrow> proc" where
  "StartOnDemandTimer env p =
     (let p = InitUnusedCfg env p in
      if IsConfigUnused p
      then let timerInterval = UNUSED_ONDEMAND_TIMER_INTERVAL_MSECONDS;
               p = emit E_TimerSetup (p\<lparr>idleTimerM := True\<rparr>);
               (timer, p) = ask_int env (E_TimerRegister timerInterval) p
           in p\<lparr>ondemandTimerM := timer\<rparr>
      else p)"

definition StartTimedQuery :: "env \<Rightarrow> proc \<Rightarrow> proc" where
  "StartTimedQuery env p =
     (if list_ex (\<lambda>it. NoNeedCheckUnused (fst it)) (localAbilityMapM p) then p
      else if \<not> IsResident p then StartOnDemandTimer env p
      else p)"

definition StopTimedQuery :: "proc \<Rightarrow> proc" where
  "StopTimedQuery p =
     (if idleTimerM p
      then (emit E_TimerShutdown (emit (E_TimerUnregister (ondemandTimerM p)) p))\<lparr>idleTimerM := False\<rparr>
      else p)"

section \<open>The configuration invariant\<close>

definition unused_ok :: "proc \<Rightarrow> bool" where
  "unused_ok p \<longleftrightarrow> smap_ok (unusedCfgMapM p)
     \<and> (\<forall>k t. smap_find (unusedCfgMapM p) k = Some t \<longrightarrow>
          ONDEMAND_SA_UNUSED_TIMEOUT_LOWLIMIT \<le> t \<and> t \<le> ONDEMAND_SA_UNUSED_TIMEOUT_UPLIMIT)"

lemma unused_ok_cong: "unused_ok p \<Longrightarrow> unusedCfgMapM q = unusedCfgMapM p \<Longrightarrow> unused_ok q"
  by (simp add: unused_ok_def)

interpretation unu: listener_blind unused_ok
  by unfold_locales (auto simp: reason_tables intro: unused_ok_cong)

text \<open>The value a timeout is stored as.\<close>

definition limited :: "int \<Rightarrow> int" where
  "limited timeout = max 60000 (min 7200000 (s32 (timeout * 1000)))"

lemma LimitUnusedTimeout_eq:
  "LimitUnusedTimeout saId timeout p = p\<lparr>unusedCfgMapM := smap_assign saId (limited timeout) (unusedCfgMapM p)\<rparr>"
proof -
  have "s64 (s32 x) = s32 x" for x using s32_range [of x] by (intro s64_id) auto
  moreover have "s32 (s32 x) = s32 x" for x using s32_range [of x] by (intro s32_id) auto
  ultimately show ?thesis by (simp add: LimitUnusedTimeout_def limited_def unused_consts Let_def)
qed

lemma limited_bounds: "60000 \<le> limited t \<and> limited t \<le> 7200000"
  by (simp add: limited_def)

lemma unused_ok_Limit: "unused_ok p \<Longrightarrow> unused_ok (LimitUnusedTimeout i t p)"
  using limited_bounds [of t]
  by (auto simp: LimitUnusedTimeout_eq unused_ok_def unused_consts sm.invar_assign sm.lookup_assign)

lemma unused_ok_entries: "unused_ok p \<Longrightarrow> unused_ok (fold init_unused_entry pfs p)"
  by (induction pfs arbitrary: p) (simp_all add: init_unused_entry_def unused_ok_Limit)

lemma unused_ok_InitUnusedCfg: "unused_ok p \<Longrightarrow> unused_ok (InitUnusedCfg env p)"
  by (simp add: InitUnusedCfg_def query_def unused_ok_entries unu.inv_emit)

lemma unused_ok_StartTimedQuery: "unused_ok p \<Longrightarrow> unused_ok (StartTimedQuery env p)"
  using unused_ok_InitUnusedCfg [of p env]
  by (auto simp: StartTimedQuery_def StartOnDemandTimer_def Let_def asks intro: unused_ok_cong)

section \<open>The configured limits\<close>

lemma entries_fields [simp]:
  "heap (fold init_unused_entry pfs p) = heap p"
  "localAbilityMapM (fold init_unused_entry pfs p) = localAbilityMapM p"
  "trace (fold init_unused_entry pfs p) = trace p"
  by (induction pfs arbitrary: p) (simp_all add: init_unused_entry_def LimitUnusedTimeout_eq)

text \<open>The last profile of an identifier that configures a timeout decides.\<close>

definition configured :: "int \<Rightarrow> sa_profile \<Rightarrow> bool" where
  "configured i pf \<longleftrightarrow> pf_saId pf = i \<and> \<not> pf_runOnCreate pf \<and> pf_unusedTimeout pf \<noteq> -1"

lemma entries_find:
  "unused_ok p \<Longrightarrow> smap_find (unusedCfgMapM (fold init_unused_entry pfs p)) i =
     (if filter (configured i) pfs = [] then smap_find (unusedCfgMapM p) i
      else Some (limited (pf_unusedTimeout (last (filter (configured i) pfs)))))"
proof (induction pfs rule: rev_induct)
  case (snoc pf pfs)
  let ?q = "fold init_unused_entry pfs p"
  have "smap_ok (unusedCfgMapM ?q)" using unused_ok_entries [OF snoc.prems] by (simp add: unused_ok_def)
  then show ?case
    using snoc
    by (auto simp: init_unused_entry_def [of pf ?q] configured_def [of i pf] LimitUnusedTimeout_eq sm.lookup_assign)
qed simp

section \<open>Which abilities are unloaded\<close>

text \<open>
  The specification: with the objects' last request times given by \<open>lastReq\<close>, an ability is unused when it is
  registered and published, was last called before now, and has been idle for longer than its limit.
\<close>

definition unused :: "(nat \<Rightarrow> 64 word) \<Rightarrow> 64 word \<Rightarrow> proc \<Rightarrow> int \<times> int \<Rightarrow> bool" where
  "unused lastReq now p it =
     (case GetAbility (fst it) p of
        None \<Rightarrow> False
      | Some a \<Rightarrow>
          (case publishObjM (heap p a) of
             None \<Rightarrow> False
           | Some ob \<Rightarrow> lastReq ob < now \<and> int (unat now) - int (unat (lastReq ob)) > snd it))"

fun unloads :: "event list \<Rightarrow> int list" where
  "unloads [] = []"
| "unloads (E_UnloadSystemAbility i # evs) = i # unloads evs"
| "unloads (_ # evs) = unloads evs"

lemma unloads_append [simp]: "unloads (xs @ ys) = unloads xs @ unloads ys"
  by (induction xs rule: unloads.induct) simp_all

lemma idle_exceeds:
  fixes now last :: "64 word"
  assumes "last < now" "0 \<le> t" "t < 2 ^ 63"
  shows "word_of_int t < now - last \<longleftrightarrow> t < int (unat now) - int (unat last)"
proof -
  have "uint (now - last) = uint now - uint last"
    using assms(1) uint_sub_lem [of last now] by (simp add: word_less_def)
  moreover have "uint (word_of_int t :: 64 word) = t" using assms(2,3) by (simp add: uint_word_of_int)
  ultimately show ?thesis by (simp add: word_less_def)
qed

lemma check_unused_step:
  assumes "\<And>h ob. ans_int env (h @ [E_GetLastRequestTime ob]) = uint (lastReq ob)"
    and "0 \<le> snd it" "snd it < 2 ^ 63"
  shows "\<exists>evs. check_unused env now it p = p\<lparr>trace := trace p @ evs\<rparr>
     \<and> unloads evs = (if unused lastReq now p it then [fst it] else [])"
proof -
  consider "GetAbility (fst it) p = None" | a where "GetAbility (fst it) p = Some a" "publishObjM (heap p a) = None"
    | a ob where "GetAbility (fst it) p = Some a" "publishObjM (heap p a) = Some ob"
    by (metis not_None_eq)
  then show ?thesis
  proof cases
    case 3
    let ?q = "E_GetLastRequestTime ob"
    show ?thesis
    proof (cases "unused lastReq now p it")
      case True
      then have "check_unused env now it p = p\<lparr>trace := trace p @ [?q, E_UnloadSystemAbility (fst it)]\<rparr>"
        using 3 assms by (simp add: check_unused_def GetSaLastRequestTime_def asks unused_def idle_exceeds emit_def not_le)
      then show ?thesis using True by (intro exI [of _ "[?q, E_UnloadSystemAbility (fst it)]"]) simp
    next
      case False
      then have "check_unused env now it p = p\<lparr>trace := trace p @ [?q]\<rparr>"
        using 3 assms by (simp add: check_unused_def GetSaLastRequestTime_def asks unused_def idle_exceeds emit_def not_le)
      then show ?thesis using False by (intro exI [of _ "[?q]"]) simp
    qed
  qed (intro exI [of _ "[]"], simp add: check_unused_def GetSaLastRequestTime_def unused_def)+
qed

lemma check_unused_fold:
  assumes "\<And>h ob. ans_int env (h @ [E_GetLastRequestTime ob]) = uint (lastReq ob)"
    and "\<forall>it \<in> set its. 0 \<le> snd it \<and> snd it < 2 ^ 63"
  shows "\<exists>evs. fold (check_unused env now) its p = p\<lparr>trace := trace p @ evs\<rparr>
     \<and> unloads evs = map fst (filter (unused lastReq now p) its)"
  using assms(2)
proof (induction its rule: rev_induct)
  case (snoc it its)
  then obtain evs where evs: "fold (check_unused env now) its p = p\<lparr>trace := trace p @ evs\<rparr>"
     "unloads evs = map fst (filter (unused lastReq now p) its)" by auto
  have "GetAbility k (p\<lparr>trace := t\<rparr>) = GetAbility k p" for k t by (simp add: GetAbility_def)
  then have "unused lastReq now (p\<lparr>trace := t\<rparr>) it = unused lastReq now p it" for t
    by (simp add: unused_def cong: option.case_cong)
  then obtain es where "check_unused env now it (p\<lparr>trace := trace p @ evs\<rparr>) = p\<lparr>trace := trace p @ (evs @ es)\<rparr>"
     "unloads es = (if unused lastReq now p it then [fst it] else [])"
    using check_unused_step [of env lastReq it now "p\<lparr>trace := trace p @ evs\<rparr>", OF assms(1)] snoc.prems by auto
  then show ?case using evs by (intro exI [of _ "evs @ es"]) simp
qed (rule exI [of _ "[]"], simp)

section \<open>Properties\<close>

text \<open>
  C30. The configured limits: after \<open>InitUnusedCfg\<close> every limit is between one minute and two hours, and the limit
  of an ability is that of its last profile which is not run on create and sets a timeout,
  in milliseconds and clamped, provided the product fits into 32 bits.
\<close>

theorem InitUnusedCfg_limits:
  fixes env p
  assumes "unused_ok p"
  defines "pfs \<equiv> ans_profiles env (trace p @ [E_GetAllSaProfiles])"
  shows "unused_ok (InitUnusedCfg env p)
     \<and> smap_find (unusedCfgMapM (InitUnusedCfg env p)) i =
         (if filter (configured i) pfs = [] then smap_find (unusedCfgMapM p) i
          else let t = pf_unusedTimeout (last (filter (configured i) pfs))
               in Some (if \<bar>t\<bar> \<le> 2147483 then max 60000 (min 7200000 (t * 1000)) else limited t))"
proof -
  have "\<bar>t\<bar> \<le> 2147483 \<Longrightarrow> s32 (t * 1000) = t * 1000" for t :: int by (intro s32_id) auto
  then have "\<bar>t\<bar> \<le> 2147483 \<Longrightarrow> limited t = max 60000 (min 7200000 (t * 1000))" for t by (simp add: limited_def)
  moreover have "unused_ok (emit E_GetAllSaProfiles p)" using assms(1) by (rule unu.inv_emit)
  ultimately show ?thesis
    using unused_ok_InitUnusedCfg [OF assms(1), of env]
    by (simp add: InitUnusedCfg_def asks pfs_def entries_find Let_def)
qed

theorem InitUnusedCfg_limits_witness:
  "unused_ok (InitUnusedCfg quiet_env (LocalAbilityManager (\<lambda>_. SystemAbility 7 False)))"
  using InitUnusedCfg_limits [of "LocalAbilityManager (\<lambda>_. SystemAbility 7 False)" quiet_env]
  by (simp add: unused_ok_def LocalAbilityManager_def)

text \<open>
  The product in \<open>LimitUnusedTimeout\<close> is computed in 32 bits: the largest timeout whose product fits is
  stored as the upper limit, but the next one, 2147484 s, overflows and is stored as the lower limit of one minute.
\<close>

theorem unused_timeout_overflow:
  "unusedCfgMapM (LimitUnusedTimeout i 2147483 p) = smap_assign i ONDEMAND_SA_UNUSED_TIMEOUT_UPLIMIT (unusedCfgMapM p)
   \<and> unusedCfgMapM (LimitUnusedTimeout i 2147484 p) = smap_assign i ONDEMAND_SA_UNUSED_TIMEOUT_LOWLIMIT (unusedCfgMapM p)"
  by (simp add: LimitUnusedTimeout_eq limited_def s32_def unused_consts)

text \<open>
  C29. A run of the timer, with the system ability manager reachable, unloads exactly the unused abilities, in the order
  of their identifiers, and changes nothing else: those configured, registered and published whose last request is
  older than their limit. An ability called at or after the reading of the clock is never unloaded.
\<close>

theorem unused_abilities_unloaded:
  assumes "unused_ok p"
    and "\<And>h ob. ans_int env (h @ [E_GetLastRequestTime ob]) = uint (lastReq ob)"
    and "ans_int env (trace p @ [E_SteadyClockNow]) = uint now"
    and "ans_bool env (trace p @ [E_SteadyClockNow, E_GetSystemAbilityManager])"
  shows "\<exists>evs. IdentifyUnusedOndemand env p = p\<lparr>trace := trace p @ evs\<rparr>
     \<and> unloads evs = map fst (filter (unused lastReq now p) (unusedCfgMapM p))"
proof -
  let ?h = "[E_SteadyClockNow, E_GetSystemAbilityManager]"
  let ?q = "p\<lparr>trace := trace p @ ?h\<rparr>"
  have "\<forall>it \<in> set (unusedCfgMapM p). 0 \<le> snd it \<and> snd it < 2 ^ 63"
    using assms(1) by (force simp: unused_ok_def unused_consts smap_find_entry [symmetric])
  then obtain evs where evs: "fold (check_unused env now) (unusedCfgMapM p) ?q = ?q\<lparr>trace := trace ?q @ evs\<rparr>"
     "unloads evs = map fst (filter (unused lastReq now ?q) (unusedCfgMapM p))"
    using check_unused_fold [of env lastReq "unusedCfgMapM p" now ?q, OF assms(2)] by auto
  have "IdentifyUnusedOndemand env p = fold (check_unused env now) (unusedCfgMapM p) ?q"
    using assms(3,4) by (simp add: IdentifyUnusedOndemand_def asks emit_def)
  moreover have "GetAbility k ?q = GetAbility k p" for k by (simp add: GetAbility_def)
  then have "unused lastReq now ?q = unused lastReq now p"
    by (intro ext) (simp add: unused_def cong: option.case_cong)
  ultimately show ?thesis using evs by (intro exI [of _ "?h @ evs"]) simp
qed

theorem unused_abilities_unloaded_witness:
  "\<exists>evs. IdentifyUnusedOndemand (quiet_env\<lparr>ans_int := (\<lambda>h. if last h = E_SteadyClockNow then 60010 else 5)\<rparr>)
       ((LocalAbilityManager (\<lambda>_. (SystemAbility 7 False)\<lparr>publishObjM := Some 3\<rparr>))\<lparr>localAbilityMapM := [(7, Some 0)],
          unusedCfgMapM := [(7, 60000)]\<rparr>) =
      ((LocalAbilityManager (\<lambda>_. (SystemAbility 7 False)\<lparr>publishObjM := Some 3\<rparr>))\<lparr>localAbilityMapM := [(7, Some 0)],
          unusedCfgMapM := [(7, 60000)], trace := evs\<rparr>)
     \<and> unloads evs = [7]"
proof -
  let ?p = "(LocalAbilityManager (\<lambda>_. (SystemAbility 7 False)\<lparr>publishObjM := Some 3\<rparr>))\<lparr>localAbilityMapM := [(7, Some 0)],
          unusedCfgMapM := [(7, 60000)]\<rparr>"
  let ?e = "quiet_env\<lparr>ans_int := (\<lambda>h. if last h = E_SteadyClockNow then 60010 else 5)\<rparr>"
  have "unused_ok ?p" by (simp add: unused_ok_def smap_ok_def smap_find_def unused_consts)
  moreover have "trace ?p = []" "filter (unused (\<lambda>_. 5) 60010 ?p) (unusedCfgMapM ?p) = [(7, 60000)]"
    by (simp_all add: LocalAbilityManager_def unused_def GetAbility_def smap_find_def)
  ultimately show ?thesis
    using unused_abilities_unloaded [of ?p ?e "\<lambda>_. 5" 60010] by (simp add: quiet_env_def)
qed

end
