(* ===== verification/Lam_Boot.thy ===== *)
theory Lam_Boot
  imports Lam_Unused
begin

text \<open>
  The start of a system ability process:
  \<open>services/safwk/src/local_ability_manager.cpp\<close>, \<open>DoStartSAProcess\<close> to \<open>CheckTrustSa\<close>, \<open>InitializeOnDemandSaProfile\<close>
  to \<open>AddLocalAbilityManager\<close>. The profiles are loaded and checked against the trust configuration, the
  libraries of the boot phases are opened, the abilities of one phase are started by a thread pool and the next phase begins when they
  have finished or a time limit has passed.

  \<^item> The pool holds the queued tasks. Which of them finish during a wait, and in which order, is the answer of the
    environment to the wait (\<open>ans_schedule\<close>, positions in the queue); a schedule that ends before the count of tasks is
    zero is a wait that timed out. A task runs as a whole; what other threads do in between is part of
    \<open>interfere\<close> at its callbacks and sleeps. That \<open>AddTask\<close> may block on a full queue is not modelled.
  \<^item> The loop of \<open>StartDependSaTask\<close> ends only when the clock advances, so it takes fuel, and running out of it is
    None. \<open>StartDependSaTask_returns\<close> shows that 1201 rounds are enough with a clock that respects the sleeps.
  \<^item> Tracing, the watchdog and the thread priority are left out.
\<close>

definition DEFAULT_SAID :: int where
  "DEFAULT_SAID = -1"

definition BOOT_START :: nat where
  "BOOT_START = 1"

definition CORE_START :: nat where
  "CORE_START = 2"

definition OTHER_START :: nat where
  "OTHER_START = 3"

definition RETRY_TIMES_FOR_SAMGR :: nat where
  "RETRY_TIMES_FOR_SAMGR = 50"

definition MILLISECONDS_WAITING_SAMGR_ONE_TIME :: int where
  "MILLISECONDS_WAITING_SAMGR_ONE_TIME = 200"

definition CHECK_DEPENDENT_SA_PERIOD :: int where
  "CHECK_DEPENDENT_SA_PERIOD = 50000"

definition MAX_TASK_NUMBER :: int where
  "MAX_TASK_NUMBER = 20"

definition SUFFIX_LENGTH :: nat where
  "SUFFIX_LENGTH = 5"

section \<open>Profiles\<close>

definition GetTraceTag :: "env \<Rightarrow> string \<Rightarrow> string" where
  "GetTraceTag env profilePath =
     (let libPathVec = SplitStr env profilePath ''/''; traceTag = ''default_proc'' in
      if length libPathVec > 0
      then let traceTag = libPathVec ! (length libPathVec - 1); size' = length traceTag
           in if size' > SUFFIX_LENGTH then take (size' - SUFFIX_LENGTH) traceTag else traceTag
      else traceTag)"

definition CheckAndGetProfilePath :: "env \<Rightarrow> string \<Rightarrow> proc \<Rightarrow> string option \<times> proc" where
  "CheckAndGetProfilePath env profilePath p =
     (if length profilePath > PATH_MAX env then (None, p)
      else query (ans_path env) (E_RealPath profilePath) p)"

fun wait_samgr :: "env \<Rightarrow> nat \<Rightarrow> bool \<Rightarrow> proc \<Rightarrow> bool \<times> proc" where
  "wait_samgr env timeout True p = (True, p)"
| "wait_samgr env 0 False p = (False, p)"
| "wait_samgr env (Suc timeout) False p =
     (let p = run_foreign env (E_Usleep (1000 * MILLISECONDS_WAITING_SAMGR_ONE_TIME)) p;
          (samgrProxy, p) = ask_bool env E_GetSystemAbilityManager p
      in wait_samgr env timeout samgrProxy p)"

definition CheckSystemAbilityManagerReady :: "env \<Rightarrow> proc \<Rightarrow> bool \<times> proc" where
  "CheckSystemAbilityManagerReady env p =
     (let (samgrProxy, p) = ask_bool env E_GetSystemAbilityManager p
      in wait_samgr env RETRY_TIMES_FOR_SAMGR samgrProxy p)"

text \<open>The trust configuration maps a process to the abilities it may load; \<open>operator[]\<close> gives a missing one the empty set.\<close>

definition CheckTrustSa :: "env \<Rightarrow> string \<Rightarrow> string \<Rightarrow> sa_profile list \<Rightarrow> proc \<Rightarrow> proc" where
  "CheckTrustSa env path process saInfos p =
     (let ret = ask (ans_bool env) (E_ParseTrustConfig path) (trace p);
          trustMaps = ask (ans_trust env) (E_ParseTrustConfig path) (trace p);
          p = emit (E_ParseTrustConfig path) p
      in if ret \<and> trustMaps \<noteq> []
         then let saSets = (case smap_find trustMaps (Str8ToStr16 env process) of None \<Rightarrow> [] | Some s \<Rightarrow> s)
              in fold (\<lambda>saInfo p. if pf_saId saInfo \<notin> set saSets then emit (E_RemoveSaProfile (pf_saId saInfo)) p else p)
                   saInfos p
         else p)"

definition InitializeSaProfilesInnerLocked :: "sa_profile \<Rightarrow> proc \<Rightarrow> bool \<times> proc" where
  "InitializeSaProfilesInnerLocked saProfile p =
     (case smap_find (localAbilityMapM p) (pf_saId saProfile) of
        None \<Rightarrow> (False, p)
      | Some None \<Rightarrow> (False, p)
      | Some (Some a) \<Rightarrow>
          if pf_bootPhase saProfile > OTHER_START then (False, p)
          else let m = smap_emplace (pf_bootPhase saProfile) [] (abilityPhaseMapM p);
                   saList = the (smap_find m (pf_bootPhase saProfile)) @ [Some a]
               in (True, p\<lparr>abilityPhaseMapM := smap_assign (pf_bootPhase saProfile) saList m\<rparr>))"

definition InitializeOnDemandSaProfile :: "env \<Rightarrow> int \<Rightarrow> proc \<Rightarrow> bool \<times> proc" where
  "InitializeOnDemandSaProfile env saId p =
     (let (result, p) = call env (ans_bool env) (E_LoadSaLib saId) p in
      if \<not> result then (False, p)
      else let (saProfile, p) = query (ans_profile env) (E_GetProfile saId) p
           in case saProfile of
                None \<Rightarrow> (False, p)
              | Some saProfile \<Rightarrow> InitializeSaProfilesInnerLocked saProfile p)"

definition init_phase_profile :: "nat \<Rightarrow> sa_profile \<Rightarrow> proc \<Rightarrow> proc" where
  "init_phase_profile bootPhase saProfile p =
     (if pf_bootPhase saProfile \<noteq> bootPhase then p else snd (InitializeSaProfilesInnerLocked saProfile p))"

definition InitializeRunOnCreateSaProfiles :: "env \<Rightarrow> nat \<Rightarrow> proc \<Rightarrow> bool \<times> proc" where
  "InitializeRunOnCreateSaProfiles env bootPhase p =
     (if bootPhase > OTHER_START then (False, p)
      else let p = run_foreign env (E_OpenSo bootPhase) p;
               (saProfileList, p) = query (ans_profiles env) E_GetAllSaProfiles p
           in if saProfileList = [] then (False, p)
              else (True, fold (init_phase_profile bootPhase) saProfileList p))"

definition InitializeSaProfiles :: "env \<Rightarrow> int \<Rightarrow> proc \<Rightarrow> bool \<times> proc" where
  "InitializeSaProfiles env saId p =
     (if saId \<noteq> DEFAULT_SAID then InitializeOnDemandSaProfile env saId p
      else InitializeRunOnCreateSaProfiles env BOOT_START p)"

definition InitSystemAbilityProfiles :: "env \<Rightarrow> string \<Rightarrow> int \<Rightarrow> proc \<Rightarrow> bool \<times> proc" where
  "InitSystemAbilityProfiles env profilePath saId p =
     (let (ret, p) = ask_bool env (E_ParseSaProfiles profilePath) p in
      if \<not> ret then (False, p)
      else
        let (procName, p) = query (ans_name env) E_GetProcessName p;
            p = p\<lparr>procNameM := procName\<rparr>;
            (saInfos, p) = query (ans_profiles env) E_GetAllSaProfiles p;
            process = Str16ToStr8 env (procNameM p);
            path = ''/system/profile/'' @ process @ ''_trust.json'';
            (isExist, p) = ask_bool env (E_CheckPathExist path) p;
            p = (if isExist then CheckTrustSa env path process saInfos p else p)
        in InitializeSaProfiles env saId p)"

section \<open>Dependencies\<close>

fun check_each :: "env \<Rightarrow> int list \<Rightarrow> proc \<Rightarrow> int list \<times> proc" where
  "check_each env [] p = ([], p)"
| "check_each env (saId # rest) p =
     (if CheckInputSysAbilityId env saId
      then let (saObject, p) = ask_bool env (E_CheckSystemAbility saId) p;
               (result, p) = check_each env rest p
           in (if \<not> saObject then saId # result else result, p)
      else check_each env rest p)"

definition CheckDependencyStatus :: "env \<Rightarrow> int list \<Rightarrow> proc \<Rightarrow> int list \<times> proc" where
  "CheckDependencyStatus env dependSa p =
     (let (samgrProxy, p) = ask_bool env E_GetSystemAbilityManager p in
      if \<not> samgrProxy then (dependSa, p) else check_each env dependSa p)"

text \<open>The arithmetic of the backward case overflows \<open>int64_t\<close>; the model wraps.\<close>

definition wait_duration :: "int \<Rightarrow> int \<Rightarrow> int" where
  "wait_duration start end' = (if end' \<ge> start then s64 (end' - start) else s64 (s64 (INT64_MAX - end') + start))"

fun depend_wait :: "env \<Rightarrow> nat \<Rightarrow> int \<Rightarrow> int \<Rightarrow> nat \<Rightarrow> nat \<Rightarrow> proc \<Rightarrow> proc option" where
  "depend_wait env fuel start dependTimeout a 0 p = Some p"
| "depend_wait env 0 start dependTimeout a (Suc lastSize) p = None"
| "depend_wait env (Suc fuel) start dependTimeout a (Suc lastSize) p =
     (let (end', p) = ask_int env E_GetTickCount p in
      if wait_duration start end' < dependTimeout
      then let p = run_foreign env (E_Usleep CHECK_DEPENDENT_SA_PERIOD) p;
               (temp, p) = CheckDependencyStatus env (GetDependSa (heap p a)) p
           in depend_wait env fuel start dependTimeout a (length temp) p
      else Some p)"

definition StartDependSaTask :: "env \<Rightarrow> nat \<Rightarrow> ptr \<Rightarrow> proc \<Rightarrow> proc option" where
  "StartDependSaTask env fuel ability p =
     (case ability of
        None \<Rightarrow> Some p
      | Some a \<Rightarrow>
          let (start, p) = ask_int env E_GetTickCount p;
              dependTimeout = GetDependTimeout (heap p a);
              (deps, p) = CheckDependencyStatus env (GetDependSa (heap p a)) p
          in case depend_wait env fuel start dependTimeout a (length deps) p of
               None \<Rightarrow> None
             | Some p \<Rightarrow>
                 let (unpreparedDeps, p) = CheckDependencyStatus env (GetDependSa (heap p a)) p
                 in Some (if unpreparedDeps = [] then Start env a p else p))"

section \<open>Phases\<close>

definition StartSystemAbilityTask :: "env \<Rightarrow> nat \<Rightarrow> ptr \<Rightarrow> proc \<Rightarrow> proc option" where
  "StartSystemAbilityTask env fuel ability p =
     (case (case ability of
              None \<Rightarrow> Some p
            | Some a \<Rightarrow> if GetDependSa (heap p a) = [] then Some (Start env a p)
                        else StartDependSaTask env fuel ability p) of
        None \<Rightarrow> None
      | Some p \<Rightarrow> Some (if startTaskNumM p > 0 then p\<lparr>startTaskNumM := startTaskNumM p - 1\<rparr> else p))"

definition StartPhaseTasks :: "ptr list \<Rightarrow> proc \<Rightarrow> proc" where
  "StartPhaseTasks systemAbilityList p =
     (if systemAbilityList = [] then p
      else fold (\<lambda>systemAbility p. case systemAbility of
                    None \<Rightarrow> p
                  | Some a \<Rightarrow> p\<lparr>startTaskNumM := startTaskNumM p + 1, initPoolM := initPoolM p @ [a]\<rparr>)
             systemAbilityList p)"

text \<open>The tasks that finish while the main thread waits; the wait ends when none is counted any more.\<close>

fun run_tasks :: "env \<Rightarrow> nat \<Rightarrow> nat list \<Rightarrow> proc \<Rightarrow> proc option" where
  "run_tasks env fuel [] p = Some p"
| "run_tasks env fuel (i # schedule) p =
     (if startTaskNumM p = 0 then Some p
      else if i < length (initPoolM p)
      then Option.bind (StartSystemAbilityTask env fuel (Some (initPoolM p ! i))
                          (p\<lparr>initPoolM := take i (initPoolM p) @ drop (Suc i) (initPoolM p)\<rparr>))
             (run_tasks env fuel schedule)
      else run_tasks env fuel schedule p)"

definition WaitForTasks :: "env \<Rightarrow> nat \<Rightarrow> proc \<Rightarrow> proc option" where
  "WaitForTasks env fuel p =
     (let (schedule, p) = query (ans_schedule env) E_WaitForTasks p
      in map_option (\<lambda>p. p\<lparr>startTaskNumM := 0\<rparr>) (run_tasks env fuel schedule p))"

definition start_phase :: "env \<Rightarrow> nat \<Rightarrow> int \<Rightarrow> nat \<Rightarrow> proc \<Rightarrow> proc option" where
  "start_phase env fuel saId bootPhase p =
     (if saId = DEFAULT_SAID
      then (case smap_find (abilityPhaseMapM p) bootPhase of
              Some saList \<Rightarrow>
                let p = StartPhaseTasks saList p;
                    (r, p) = InitializeRunOnCreateSaProfiles env (bootPhase + 1) p
                in WaitForTasks env fuel p
            | None \<Rightarrow> Some (snd (InitializeRunOnCreateSaProfiles env (bootPhase + 1) p)))
      else (case smap_find (abilityPhaseMapM p) bootPhase of
              Some saList \<Rightarrow> WaitForTasks env fuel (StartPhaseTasks saList p)
            | None \<Rightarrow> Some p))"

fun run_phases :: "env \<Rightarrow> nat \<Rightarrow> int \<Rightarrow> nat list \<Rightarrow> proc \<Rightarrow> proc option" where
  "run_phases env fuel saId [] p = Some p"
| "run_phases env fuel saId (bootPhase # phases) p =
     Option.bind (start_phase env fuel saId bootPhase p) (run_phases env fuel saId phases)"

definition FindAndStartPhaseTasks :: "env \<Rightarrow> nat \<Rightarrow> int \<Rightarrow> proc \<Rightarrow> proc option" where
  "FindAndStartPhaseTasks env fuel saId p = run_phases env fuel saId [BOOT_START..<Suc OTHER_START] p"

section \<open>The process\<close>

definition NeedRegisterOnDemand :: "sa_profile \<Rightarrow> int \<Rightarrow> bool" where
  "NeedRegisterOnDemand saProfile saId =
     ((saId = DEFAULT_SAID \<and> \<not> pf_runOnCreate saProfile) \<or> (saId \<noteq> DEFAULT_SAID \<and> pf_saId saProfile \<noteq> saId))"

definition RegisterOnDemandSystemAbility :: "env \<Rightarrow> int \<Rightarrow> proc \<Rightarrow> proc" where
  "RegisterOnDemandSystemAbility env saId p =
     (let (samgrProxy, p) = ask_bool env E_GetSystemAbilityManager p in
      if \<not> samgrProxy then p
      else let (saProfileList, p) = query (ans_profiles env) E_GetAllSaProfiles p
           in fold (\<lambda>saProfile p. if NeedRegisterOnDemand saProfile saId
                      then emit (E_AddOnDemandSystemAbilityInfo (pf_saId saProfile) (procNameM p)) p else p)
                saProfileList p)"

definition AddLocalAbilityManager :: "env \<Rightarrow> proc \<Rightarrow> bool \<times> proc" where
  "AddLocalAbilityManager env p =
     (let (samgrProxy, p) = ask_bool env E_GetSystemAbilityManager p in
      if \<not> samgrProxy then (False, p)
      else let p = (if \<not> localAbilityManagerM p then p\<lparr>localAbilityManagerM := True\<rparr> else p);
               (ret, p) = ask_int env (E_AddSystemProcess (procNameM p)) p
           in (ret = ERR_OK env, p))"

definition Run :: "env \<Rightarrow> nat \<Rightarrow> int \<Rightarrow> proc \<Rightarrow> (bool \<times> proc) option" where
  "Run env fuel saId p =
     (let (addResult, p) = AddLocalAbilityManager env p in
      if \<not> addResult then Some (False, p)
      else let (concurrentThreads, p) = ask_int env E_HardwareConcurrency p;
               p = emit (E_PoolStart concurrentThreads) p;
               p = emit (E_PoolSetMaxTaskNum MAX_TASK_NUMBER) p;
               p = RegisterOnDemandSystemAbility env saId p
           in map_option (\<lambda>p. (True, run_foreign env E_PoolStop p)) (FindAndStartPhaseTasks env fuel saId p))"

definition DoStartSAProcess :: "env \<Rightarrow> nat \<Rightarrow> string \<Rightarrow> int \<Rightarrow> proc \<Rightarrow> proc option" where
  "DoStartSAProcess env fuel profilePath saId p =
     (let (startBegin, p) = ask_int env E_GetTickCount p;
          p = p\<lparr>startBeginM := startBegin\<rparr>;
          (realProfilePath, p) = CheckAndGetProfilePath env profilePath p
      in case realProfilePath of
           None \<Rightarrow> Some (emit (E_ReportSaMainExit ''DoStartSAProcess invalid path'') p)
         | Some realProfilePath \<Rightarrow>
             let (ret, p) = InitSystemAbilityProfiles env realProfilePath saId p in
             if \<not> ret then Some (emit (E_ReportSaMainExit ''InitSaProfiles no right profile'') p)
             else let (ret, p) = CheckSystemAbilityManagerReady env p in
             if \<not> ret then Some (emit (E_ReportSaMainExit ''CheckSamgrReady failed'') p)
             else (case Run env fuel saId p of
                     None \<Rightarrow> None
                   | Some (ret, p) \<Rightarrow>
                       if \<not> ret then Some (emit (E_ReportSaMainExit ''SA Run failed'') p)
                       else Some (run_foreign env E_JoinWorkThread (StartTimedQuery env p))))"

section \<open>Invariants over the start\<close>

text \<open>
  An invariant of the manager that does not look at the members of the start-up survives the whole start of the process.
\<close>

locale process_invariant = service_invariant +
  assumes inv_InnerLocked: "inv p \<Longrightarrow> inv (snd (InitializeSaProfilesInnerLocked pf p))"
    and inv_procName: "inv p \<Longrightarrow> inv (p\<lparr>procNameM := n\<rparr>)"
    and inv_taskNum: "inv p \<Longrightarrow> 0 \<le> k \<or> startTaskNumM p < k \<Longrightarrow> inv (p\<lparr>startTaskNumM := k\<rparr>)"
    and inv_pool: "inv p \<Longrightarrow> inv (p\<lparr>initPoolM := ts\<rparr>)"
    and inv_startBegin: "inv p \<Longrightarrow> inv (p\<lparr>startBeginM := k\<rparr>)"
    and inv_lam: "inv p \<Longrightarrow> inv (p\<lparr>localAbilityManagerM := b\<rparr>)"
    and inv_StartTimedQuery: "inv p \<Longrightarrow> inv (StartTimedQuery env p)"
begin

lemma inv_fold: "(\<And>x p. inv p \<Longrightarrow> inv (f x p)) \<Longrightarrow> inv p \<Longrightarrow> inv (fold f xs p)"
  by (induction xs arbitrary: p) simp_all

lemma inv_asks: "inv p \<Longrightarrow> inv (snd (ask_bool env ev p))" "inv p \<Longrightarrow> inv (snd (ask_int env ev p))"
  by (simp_all add: asks inv_emit)

lemma inv_RunOnCreate: "rely env inv \<Longrightarrow> inv p \<Longrightarrow> inv (snd (InitializeRunOnCreateSaProfiles env ph p))"
  by (simp add: InitializeRunOnCreateSaProfiles_def Let_def case_prod_beta inv_query inv_run_foreign inv_fold
      init_phase_profile_def inv_InnerLocked)

lemma inv_OnDemandProfile: "rely env inv \<Longrightarrow> inv p \<Longrightarrow> inv (snd (InitializeOnDemandSaProfile env i p))"
  by (simp add: InitializeOnDemandSaProfile_def case_prod_beta inv_call inv_query inv_InnerLocked split: option.split)

lemma inv_CheckTrustSa: "inv p \<Longrightarrow> inv (CheckTrustSa env path n pfs p)"
  by (simp add: CheckTrustSa_def Let_def inv_emit inv_fold)

lemma inv_InitProfiles: "rely env inv \<Longrightarrow> inv p \<Longrightarrow> inv (snd (InitSystemAbilityProfiles env path i p))"
  by (simp add: InitSystemAbilityProfiles_def Let_def case_prod_beta inv_asks inv_query inv_procName inv_CheckTrustSa
      InitializeSaProfiles_def inv_OnDemandProfile inv_RunOnCreate)

lemma inv_samgr_ready: "rely env inv \<Longrightarrow> inv p \<Longrightarrow> inv (snd (CheckSystemAbilityManagerReady env p))"
proof -
  assume r: "rely env inv" and "inv p"
  have "inv p \<Longrightarrow> inv (snd (wait_samgr env n b p))" for n b p
  proof (induction n arbitrary: b p)
    case 0
    then show ?case by (cases b) simp_all
  next
    case (Suc n)
    then show ?case using r by (cases b) (simp_all add: Let_def case_prod_beta inv_asks inv_run_foreign)
  qed
  then show ?thesis using \<open>inv p\<close> by (simp add: CheckSystemAbilityManagerReady_def case_prod_beta inv_asks)
qed

lemma inv_check_each: "inv p \<Longrightarrow> inv (snd (check_each env deps p))"
  by (induction deps arbitrary: p) (simp_all add: Let_def case_prod_beta inv_asks)

lemma inv_Dependency: "inv p \<Longrightarrow> inv (snd (CheckDependencyStatus env deps p))"
  by (simp add: CheckDependencyStatus_def case_prod_beta inv_asks inv_check_each)

lemma inv_depend_wait:
  "depend_wait env fuel start t a n p = Some q \<Longrightarrow> rely env inv \<Longrightarrow> inv p \<Longrightarrow> inv q"
proof (induction fuel arbitrary: n p)
  case 0
  then show ?case by (cases n) simp_all
next
  case (Suc fuel)
  then show ?case
    by (cases n) (auto simp: Let_def case_prod_beta inv_asks inv_run_foreign inv_Dependency split: if_splits)
qed

lemma inv_StartDepend: "StartDependSaTask env fuel ab p = Some q \<Longrightarrow> rely env inv \<Longrightarrow> inv p \<Longrightarrow> inv q"
  by (auto simp: StartDependSaTask_def Let_def case_prod_beta inv_asks inv_Dependency inv_Start
      split: option.splits dest!: inv_depend_wait)

lemma inv_StartTask: "StartSystemAbilityTask env fuel ab p = Some q \<Longrightarrow> rely env inv \<Longrightarrow> inv p \<Longrightarrow> inv q"
  by (auto simp: StartSystemAbilityTask_def inv_taskNum inv_Start split: option.splits if_splits dest: inv_StartDepend)

lemma inv_run_tasks: "run_tasks env fuel sched p = Some q \<Longrightarrow> rely env inv \<Longrightarrow> inv p \<Longrightarrow> inv q"
  by (induction env fuel sched p rule: run_tasks.induct)
     (auto split: if_splits bind_splits dest: inv_StartTask intro: inv_pool)

lemma inv_WaitForTasks: "WaitForTasks env fuel p = Some q \<Longrightarrow> rely env inv \<Longrightarrow> inv p \<Longrightarrow> inv q"
  by (auto simp: WaitForTasks_def case_prod_beta inv_query inv_taskNum dest: inv_run_tasks)

lemma inv_StartPhaseTasks: "inv p \<Longrightarrow> inv (StartPhaseTasks xs p)"
  by (auto simp: StartPhaseTasks_def inv_pool inv_taskNum intro!: inv_fold split: option.split)

lemma inv_start_phase: "start_phase env fuel i ph p = Some q \<Longrightarrow> rely env inv \<Longrightarrow> inv p \<Longrightarrow> inv q"
  by (auto simp: start_phase_def Let_def case_prod_beta inv_RunOnCreate inv_StartPhaseTasks
      split: if_splits option.splits dest!: inv_WaitForTasks)

lemma inv_run_phases: "run_phases env fuel i phs p = Some q \<Longrightarrow> rely env inv \<Longrightarrow> inv p \<Longrightarrow> inv q"
  by (induction phs arbitrary: p) (auto split: bind_splits dest: inv_start_phase)

lemma inv_Run: "Run env fuel i p = Some (r, q) \<Longrightarrow> rely env inv \<Longrightarrow> inv p \<Longrightarrow> inv q"
  by (auto simp: Run_def AddLocalAbilityManager_def RegisterOnDemandSystemAbility_def FindAndStartPhaseTasks_def Let_def
      case_prod_beta inv_asks inv_query inv_lam inv_emit inv_fold inv_run_foreign split: if_splits dest!: inv_run_phases)

lemma inv_DoStart: "DoStartSAProcess env fuel path i p = Some q \<Longrightarrow> rely env inv \<Longrightarrow> inv p \<Longrightarrow> inv q"
  by (auto simp: DoStartSAProcess_def CheckAndGetProfilePath_def Let_def case_prod_beta inv_asks inv_query inv_startBegin
      inv_emit inv_InitProfiles inv_samgr_ready inv_run_foreign inv_StartTimedQuery
      split: if_splits option.splits dest!: inv_Run)

end

lemma StartTimedQuery_frame [simp]:
  "localAbilityMapM (StartTimedQuery env p) = localAbilityMapM p"
  "localListenerMapM (StartTimedQuery env p) = localListenerMapM p"
  "heap (StartTimedQuery env p) = heap p"
proof -
  have "localListenerMapM (fold init_unused_entry pfs p) = localListenerMapM p" for pfs p
    by (induction pfs arbitrary: p) (simp_all add: init_unused_entry_def LimitUnusedTimeout_eq)
  then show "localListenerMapM (StartTimedQuery env p) = localListenerMapM p"
    by (simp add: StartTimedQuery_def StartOnDemandTimer_def InitUnusedCfg_def Let_def asks)
qed (simp_all add: StartTimedQuery_def StartOnDemandTimer_def InitUnusedCfg_def Let_def asks)

lemma InnerLocked_frame [simp]:
  fixes pf p
  defines "q \<equiv> snd (InitializeSaProfilesInnerLocked pf p)"
  shows "heap q = heap p" "localAbilityMapM q = localAbilityMapM p" "localListenerMapM q = localListenerMapM p"
    "unusedCfgMapM q = unusedCfgMapM p" "collectEnableM q = collectEnableM p" "ffrtMetricBufferM q = ffrtMetricBufferM p"
    "handlerM q = handlerM p" "startTaskNumM q = startTaskNumM p" "saIdToStartReasonM q = saIdToStartReasonM p"
    "saIdToStopReasonM q = saIdToStopReasonM p"
  by (simp_all add: q_def InitializeSaProfilesInnerLocked_def Let_def split: option.split)

interpretation reg: process_invariant registry_ok
  by unfold_locales (simp_all add: registry_ok_def)

interpretation lis: process_invariant listeners_ok
  by unfold_locales (simp_all add: listeners_ok_def)

interpretation unu: process_invariant unused_ok
  by unfold_locales (simp_all add: unused_ok_StartTimedQuery, (simp_all add: unused_ok_def))

section \<open>The dependency wait\<close>

text \<open>
  A clock in milliseconds, as a function of what the process has done: readings agree with it, it does not run
  backwards, a sleep lasts at least as long as asked (until the end of the representable time), and foreign code only adds to the trace.
\<close>

definition steady_clock :: "env \<Rightarrow> (event list \<Rightarrow> int) \<Rightarrow> bool" where
  "steady_clock env now \<longleftrightarrow>
     (\<forall>h. ans_int env (h @ [E_GetTickCount]) = now h)
     \<and> (\<forall>h. 0 \<le> now h \<and> now h \<le> INT64_MAX)
     \<and> (\<forall>h ev. now h \<le> now (h @ [ev]))
     \<and> (\<forall>h us. min (now h + us div 1000) INT64_MAX \<le> now (h @ [E_Usleep us]))
     \<and> (\<forall>h p. \<exists>evs. trace (interfere env h p) = trace p @ evs)"

lemma steady_mono: "steady_clock env now \<Longrightarrow> now h \<le> now (h @ evs)"
proof (induction evs rule: rev_induct)
  case (snoc ev evs)
  then have "now (h @ evs) \<le> now ((h @ evs) @ [ev])" unfolding steady_clock_def by blast
  then show ?case using snoc by simp
qed simp

lemma steady_reading: "steady_clock env now \<Longrightarrow> fst (ask_int env E_GetTickCount p) = now (trace p)"
  by (simp add: steady_clock_def asks)

lemma check_each_trace:
  "snd (check_each env deps p) =
     p\<lparr>trace := trace p @ map E_CheckSystemAbility (filter (CheckInputSysAbilityId env) deps)\<rparr>"
  by (induction deps arbitrary: p) (simp_all add: asks case_prod_beta emit_def)

lemma CheckDependency_trace:
  "snd (CheckDependencyStatus env deps p) =
     p\<lparr>trace := trace p @ E_GetSystemAbilityManager # (if ans_bool env (trace p @ [E_GetSystemAbilityManager])
        then map E_CheckSystemAbility (filter (CheckInputSysAbilityId env) deps) else [])\<rparr>"
  by (simp add: CheckDependencyStatus_def asks check_each_trace emit_def)

lemma steady_after_sleep:
  assumes "steady_clock env now"
  defines "s p \<equiv> run_foreign env (E_Usleep CHECK_DEPENDENT_SA_PERIOD) p"
  shows "min (now (trace p) + 50) INT64_MAX \<le> now (trace (snd (CheckDependencyStatus env deps (s p))))"
proof -
  obtain evs where e: "trace (s p) = (trace p @ [E_Usleep CHECK_DEPENDENT_SA_PERIOD]) @ evs"
    using assms(1) unfolding s_def steady_clock_def run_foreign_def by (metis emit_fields(20))
  obtain es where "trace (snd (CheckDependencyStatus env deps (s p))) = trace (s p) @ es"
    by (simp add: CheckDependency_trace)
  moreover have "min (now (trace p) + 50) INT64_MAX \<le> now (trace p @ [E_Usleep CHECK_DEPENDENT_SA_PERIOD])"
  proof -
    have "min (now (trace p) + CHECK_DEPENDENT_SA_PERIOD div 1000) INT64_MAX
        \<le> now (trace p @ [E_Usleep CHECK_DEPENDENT_SA_PERIOD])"
      using assms(1) unfolding steady_clock_def by blast
    then show ?thesis by (simp add: CHECK_DEPENDENT_SA_PERIOD_def)
  qed
  ultimately show ?thesis using steady_mono [OF assms(1)] e by (metis order_trans)
qed

lemma wait_duration_forward:
  "start \<le> e \<Longrightarrow> 0 \<le> start \<Longrightarrow> e \<le> INT64_MAX \<Longrightarrow> wait_duration start e = e - start"
  by (simp add: wait_duration_def INT64_MAX_def s64_id)

lemma steady_bounds: "steady_clock env now \<Longrightarrow> 0 \<le> now h \<and> now h \<le> INT64_MAX"
  by (simp add: steady_clock_def)

text \<open>With \<open>fuel\<close> rounds left the wait ends if at most \<open>50 * (fuel - 1)\<close> ms of the timeout remain.\<close>

lemma depend_wait_returns:
  assumes clk: "steady_clock env now" and "start + t \<le> INT64_MAX" and "0 \<le> start"
  shows "start \<le> now (trace p) \<Longrightarrow> start + t \<le> now (trace p) + 50 * int fuel \<Longrightarrow>
     \<exists>q. depend_wait env (Suc fuel) start t a n p = Some q"
proof (induction fuel arbitrary: n p)
  case 0
  have "wait_duration start (now (trace p)) = now (trace p) - start"
    using wait_duration_forward 0 assms steady_bounds [OF clk] by blast
  then have "\<not> wait_duration start (fst (ask_int env E_GetTickCount p)) < t"
    using 0 by (simp add: steady_reading [OF clk])
  then show ?case by (cases n) (simp_all add: case_prod_beta)
next
  case (Suc fuel)
  let ?p1 = "snd (ask_int env E_GetTickCount p)"
  let ?p2 = "run_foreign env (E_Usleep CHECK_DEPENDENT_SA_PERIOD) ?p1"
  let ?p3 = "snd (CheckDependencyStatus env (dependSaM (heap ?p2 a)) ?p2)"
  have "min (now (trace ?p1) + 50) INT64_MAX \<le> now (trace ?p3)"
    by (rule steady_after_sleep [OF clk])
  moreover have "now (trace p) \<le> now (trace ?p1)" using steady_mono [OF clk] by (simp add: asks)
  ultimately have "start \<le> now (trace ?p3)" "start + t \<le> now (trace ?p3) + 50 * int fuel"
    using Suc.prems assms(2) steady_bounds [OF clk, of "trace p"] by (auto simp: min_def split: if_splits)
  then show ?case using Suc.IH [of ?p3] by (cases n) (simp_all add: case_prod_beta Let_def)
qed

section \<open>The dependency gate\<close>

text \<open>
  What a poll of the dependencies does after the history \<open>h\<close>: it asks for the system ability manager and, if that is
  reachable, once for every dependency with a valid identifier, in their order. The answers may be different at every
  poll. \<open>unmet\<close> is what it finds missing: all dependencies without the system ability manager, otherwise those whose
  own query was answered with no.
\<close>

definition poll_events :: "env \<Rightarrow> int list \<Rightarrow> event list \<Rightarrow> event list" where
  "poll_events env deps h = E_GetSystemAbilityManager #
     (if ans_bool env (h @ [E_GetSystemAbilityManager])
      then map E_CheckSystemAbility (filter (CheckInputSysAbilityId env) deps) else [])"

definition unmet :: "env \<Rightarrow> int list \<Rightarrow> event list \<Rightarrow> int list" where
  "unmet env deps h =
     (let vs = filter (CheckInputSysAbilityId env) deps; h1 = h @ [E_GetSystemAbilityManager]
      in if ans_bool env h1
         then map (nth vs) (filter (\<lambda>i. \<not> ans_bool env (h1 @ map E_CheckSystemAbility (take (Suc i) vs))) [0..<length vs])
         else deps)"

text \<open>One round of the wait: the poll, a reading of the clock and a sleep of 50 ms.\<close>

definition next_poll :: "env \<Rightarrow> int list \<Rightarrow> event list \<Rightarrow> event list" where
  "next_poll env deps h = h @ poll_events env deps h @ [E_GetTickCount, E_Usleep 50000]"

lemma check_each_unmet:
  "fst (check_each env deps p) =
     (let vs = filter (CheckInputSysAbilityId env) deps
      in map (nth vs) (filter (\<lambda>i. \<not> ans_bool env (trace p @ map E_CheckSystemAbility (take (Suc i) vs))) [0..<length vs]))"
proof (induction deps arbitrary: p)
  case (Cons d deps)
  have u: "[0..<Suc n] = 0 # map Suc [0..<n]" for n by (simp add: map_Suc_upt upt_conv_Cons)
  show ?case
    using Cons [of "emit (E_CheckSystemAbility d) p"] Cons [of p]
    by (simp add: asks case_prod_beta Let_def u filter_map o_def del: upt_Suc)
qed simp

lemma CheckDependency_exact:
  "CheckDependencyStatus env deps p = (unmet env deps (trace p), p\<lparr>trace := trace p @ poll_events env deps (trace p)\<rparr>)"
proof (rule prod_eqI)
  show "fst (CheckDependencyStatus env deps p) = fst (unmet env deps (trace p), p\<lparr>trace := trace p @ poll_events env deps (trace p)\<rparr>)"
    by (simp add: CheckDependencyStatus_def asks check_each_unmet unmet_def Let_def)
qed (simp add: CheckDependency_trace poll_events_def)

fun is_OnStart :: "event \<Rightarrow> bool" where
  "is_OnStart (E_OnStart a r) = True"
| "is_OnStart _ = False"

lemma CheckDependency_quiet:
  "\<exists>evs. snd (CheckDependencyStatus env deps p) = p\<lparr>trace := trace p @ evs\<rparr> \<and> \<not> list_ex is_OnStart evs"
  by (rule exI, rule conjI, rule CheckDependency_trace) (simp add: list_ex_iff)

text \<open>The wait goes on after the poll at \<open>h\<close>: something is missing and the time is not up.\<close>

definition waits :: "env \<Rightarrow> (event list \<Rightarrow> int) \<Rightarrow> int list \<Rightarrow> int \<Rightarrow> event list \<Rightarrow> bool" where
  "waits env now deps deadline h \<longleftrightarrow> unmet env deps h \<noteq> [] \<and> now (h @ poll_events env deps h) < deadline"

lemma steady_poll: "steady_clock env now \<Longrightarrow> now h \<le> now (next_poll env deps h)"
  by (simp add: next_poll_def steady_mono)

lemma depend_wait_exact:
  assumes "silent env" and clk: "steady_clock env now" and "0 \<le> start"
  shows "depend_wait env fuel start t a (length (unmet env deps h)) (p\<lparr>trace := h @ poll_events env deps h\<rparr>) = Some q \<Longrightarrow>
     start \<le> now h \<Longrightarrow> deps = dependSaM (heap p a) \<Longrightarrow>
     \<exists>k. (\<forall>j<k. waits env now deps (start + t) ((next_poll env deps ^^ j) h))
       \<and> \<not> waits env now deps (start + t) ((next_poll env deps ^^ k) h)
       \<and> (let g = (next_poll env deps ^^ k) h
          in q = p\<lparr>trace := g @ poll_events env deps g @ (if unmet env deps g = [] then [] else [E_GetTickCount])\<rparr>)"
proof (induction fuel arbitrary: h)
  case 0
  then show ?case by (cases "unmet env deps h") (auto simp: waits_def intro: exI [of _ 0])
next
  case (Suc fuel)
  let ?g = "h @ poll_events env deps h"
  have r: "ans_int env (h @ poll_events env deps h @ [E_GetTickCount]) = now ?g"
    using clk unfolding steady_clock_def by (metis append_assoc)
  have d: "wait_duration start (now ?g) = now ?g - start"
    using Suc.prems(2) assms(3) steady_bounds [OF clk, of ?g] steady_mono [OF clk, of h]
    by (intro wait_duration_forward) (auto intro: order_trans)
  consider "unmet env deps h = []" | x xs where "unmet env deps h = x # xs" "\<not> now ?g - start < t"
    | x xs where "unmet env deps h = x # xs" "now ?g - start < t"
    by (cases "unmet env deps h") auto
  then show ?case
  proof cases
    case 1
    then show ?thesis using Suc.prems(1) by (intro exI [of _ 0]) (auto simp: waits_def)
  next
    case 2
    then show ?thesis
      using Suc.prems(1)
      by (intro exI [of _ 0]) (auto simp: waits_def asks d r emit_def)
  next
    case 3
    have f: "run_foreign env (E_Usleep CHECK_DEPENDENT_SA_PERIOD) (emit E_GetTickCount (p\<lparr>trace := ?g\<rparr>))
        = p\<lparr>trace := next_poll env deps h\<rparr>"
      using assms(1) by (simp add: run_foreign_def silent_def emit_def next_poll_def CHECK_DEPENDENT_SA_PERIOD_def)
    have "depend_wait env fuel start t a (length (unmet env deps (next_poll env deps h)))
        (p\<lparr>trace := next_poll env deps h @ poll_events env deps (next_poll env deps h)\<rparr>) = Some q"
      using Suc.prems(1) 3 by (simp add: asks f d r Let_def CheckDependency_exact Suc.prems(3) [symmetric])
    then obtain k where k: "\<forall>j<k. waits env now deps (start + t) ((next_poll env deps ^^ j) (next_poll env deps h))"
        "\<not> waits env now deps (start + t) ((next_poll env deps ^^ k) (next_poll env deps h))"
        "let g = (next_poll env deps ^^ k) (next_poll env deps h)
          in q = p\<lparr>trace := g @ poll_events env deps g @ (if unmet env deps g = [] then [] else [E_GetTickCount])\<rparr>"
      using Suc.IH Suc.prems(2,3) steady_poll [OF clk, of h deps] by (meson order_trans)
    have "waits env now deps (start + t) ((next_poll env deps ^^ j) h)" if "j < Suc k" for j
      using that k(1) 3 by (cases j) (auto simp: waits_def funpow_swap1)
    then show ?thesis using k(2,3) by (intro exI [of _ "Suc k"]) (simp add: funpow_swap1)
  qed
qed

lemma StartDepend_total:
  assumes clk: "steady_clock env now" and "timeout_ok (heap p a)" and "now (trace p) + 60000 \<le> INT64_MAX"
    and "1201 \<le> fuel"
  shows "\<exists>q. StartDependSaTask env fuel (Some a) p = Some q"
proof -
  let ?p1 = "snd (ask_int env E_GetTickCount p)"
  let ?t = "dependTimeoutM (heap ?p1 a)"
  let ?p2 = "snd (CheckDependencyStatus env (dependSaM (heap ?p1 a)) ?p1)"
  obtain f where f: "fuel = Suc f" "1200 \<le> f" using assms(4) by (cases fuel) auto
  have t: "?t \<le> 60000" using assms(2) by (simp add: asks timeout_ok_def MAX_DEPENDENCY_TIMEOUT_def)
  obtain es where "trace ?p2 = trace p @ es" by (simp add: CheckDependency_trace asks)
  then have le: "now (trace p) \<le> now (trace ?p2)" using steady_mono [OF clk] by simp
  have "\<exists>q. depend_wait env (Suc f) (now (trace p)) ?t a n ?p2 = Some q" for n
    using t le f(2) assms(3) steady_bounds [OF clk] by (intro depend_wait_returns [OF clk]) auto
  then obtain q where "depend_wait env fuel (now (trace p)) ?t a
      (length (fst (CheckDependencyStatus env (dependSaM (heap ?p1 a)) ?p1))) ?p2 = Some q" using f(1) by blast
  then show ?thesis by (simp add: StartDependSaTask_def case_prod_beta Let_def steady_reading [OF clk])
qed

section \<open>A boot phase below the first\<close>

text \<open>
  The profile of an ability may give it boot phase 0: the check of \<open>InitializeSaProfilesInnerLocked\<close> accepts it and lists the
  ability under 0, but the phases that are started begin with 1. Where nothing else is listed, the whole start of the phases is
  then a no-op: the ability is never started.
\<close>

lemma phase_zero_not_started:
  assumes "pf_bootPhase pf = 0" and "smap_find (localAbilityMapM p) (pf_saId pf) = Some (Some a)"
    and "abilityPhaseMapM p = []" and "saId \<noteq> DEFAULT_SAID"
  shows "\<exists>q. InitializeSaProfilesInnerLocked pf p = (True, q) \<and> smap_find (abilityPhaseMapM q) 0 = Some [Some a]
     \<and> FindAndStartPhaseTasks env fuel saId q = Some q"
proof -
  have "[BOOT_START..<Suc OTHER_START] = [1, 2, 3]" by (simp add: BOOT_START_def OTHER_START_def upt_rec)
  then show ?thesis
    using assms by (simp add: InitializeSaProfilesInnerLocked_def FindAndStartPhaseTasks_def start_phase_def smap_find_def
        smap_emplace_def OTHER_START_def Let_def)
qed

section \<open>The count of the tasks of a phase\<close>

text \<open>Foreign code does not touch the pool.\<close>

definition pool_private :: "env \<Rightarrow> bool" where
  "pool_private env \<longleftrightarrow> (\<forall>h p. initPoolM (interfere env h p) = initPoolM p \<and> startTaskNumM (interfere env h p) = startTaskNumM p)"

definition same_pool :: "proc \<Rightarrow> proc \<Rightarrow> bool" where
  "same_pool p q \<longleftrightarrow> initPoolM q = initPoolM p \<and> startTaskNumM q = startTaskNumM p"

lemma Start_pool: "pool_private env \<Longrightarrow> same_pool p (Start env a p)"
proof -
  assume pp: "pool_private env"
  have "initPoolM (snd (GetOnDemandReasonExtraData env r q)) = initPoolM q"
      "startTaskNumM (snd (GetOnDemandReasonExtraData env r q)) = startTaskNumM q" for r q
    by (simp_all add: GetOnDemandReasonExtraData_def asks split: option.split)
  then show ?thesis
    using pp by (simp add: same_pool_def pool_private_def Start_def Let_def case_prod_beta run_foreign_def GetStartReason_def)
qed

lemma depend_wait_pool: "pool_private env \<Longrightarrow> depend_wait env fuel start t a n p = Some q \<Longrightarrow> same_pool p q"
proof (induction fuel arbitrary: n p)
  case 0
  then show ?case by (cases n) (simp_all add: same_pool_def)
next
  case (Suc fuel)
  show ?case
  proof (cases n)
    case 0
    then show ?thesis using Suc.prems by (simp add: same_pool_def)
  next
    case m: (Suc m)
    let ?p1 = "run_foreign env (E_Usleep CHECK_DEPENDENT_SA_PERIOD) (emit E_GetTickCount p)"
    let ?p2 = "snd (CheckDependencyStatus env (dependSaM (heap ?p1 a)) ?p1)"
    have "same_pool p ?p2" using Suc.prems(1) by (simp add: same_pool_def pool_private_def run_foreign_def CheckDependency_trace)
    moreover have "q = emit E_GetTickCount p \<or> same_pool ?p2 q"
      using Suc.prems m by (auto simp: asks case_prod_beta Let_def split: if_splits dest: Suc.IH)
    ultimately show ?thesis by (auto simp: same_pool_def)
  qed
qed

lemma StartDepend_pool: "pool_private env \<Longrightarrow> StartDependSaTask env fuel ab p = Some q \<Longrightarrow> same_pool p q"
  using Start_pool [of env]
  by (auto simp: StartDependSaTask_def Let_def case_prod_beta CheckDependency_trace asks same_pool_def
      split: option.splits if_splits dest!: depend_wait_pool)

lemma StartTask_pool:
  assumes "pool_private env" and "StartSystemAbilityTask env fuel ab p = Some q"
  shows "initPoolM q = initPoolM p \<and> startTaskNumM q = (if startTaskNumM p > 0 then startTaskNumM p - 1 else startTaskNumM p)"
  using assms(2) Start_pool [OF assms(1)]
  by (auto simp: StartSystemAbilityTask_def same_pool_def split: option.splits if_splits
      dest!: StartDepend_pool [OF assms(1)])

lemma run_tasks_count:
  assumes "pool_private env"
  shows "run_tasks env fuel sched p = Some q \<Longrightarrow> 0 \<le> startTaskNumM p \<Longrightarrow> startTaskNumM p \<le> int (length (initPoolM p)) \<Longrightarrow>
     0 \<le> startTaskNumM q \<and> int (length (initPoolM q)) - startTaskNumM q = int (length (initPoolM p)) - startTaskNumM p
     \<and> set (initPoolM q) \<subseteq> set (initPoolM p)"
proof (induction sched arbitrary: p)
  case (Cons i sched)
  show ?case
  proof (cases "startTaskNumM p = 0 \<or> \<not> i < length (initPoolM p)")
    case True
    then show ?thesis using Cons by (auto split: if_splits)
  next
    case False
    let ?p1 = "p\<lparr>initPoolM := take i (initPoolM p) @ drop (Suc i) (initPoolM p)\<rparr>"
    from False Cons.prems(1) obtain p2 where p2: "StartSystemAbilityTask env fuel (Some (initPoolM p ! i)) ?p1 = Some p2"
        "run_tasks env fuel sched p2 = Some q" by (auto split: bind_splits)
    have c: "initPoolM p2 = initPoolM ?p1" "startTaskNumM p2 = startTaskNumM p - 1"
      using StartTask_pool [OF assms p2(1)] False Cons.prems(2) by auto
    have l: "int (length (initPoolM p2)) = int (length (initPoolM p)) - 1" using c False by auto
    have "set (initPoolM p2) \<subseteq> set (initPoolM p)" using c by (auto dest: in_set_takeD in_set_dropD)
    then show ?thesis using Cons.IH [OF p2(2)] c(2) l Cons.prems(2,3) False by auto
  qed
qed simp

lemma StartPhaseTasks_count:
  "startTaskNumM (StartPhaseTasks xs p) = startTaskNumM p + int (length (filter (\<lambda>x. x \<noteq> None) xs))
   \<and> initPoolM (StartPhaseTasks xs p) = initPoolM p @ map the (filter (\<lambda>x. x \<noteq> None) xs)"
proof -
  let ?f = "\<lambda>systemAbility p. case systemAbility of None \<Rightarrow> p
     | Some a \<Rightarrow> p\<lparr>startTaskNumM := startTaskNumM p + 1, initPoolM := initPoolM p @ [a]\<rparr>"
  have "startTaskNumM (fold ?f xs p) = startTaskNumM p + int (length (filter (\<lambda>x. x \<noteq> None) xs))
   \<and> initPoolM (fold ?f xs p) = initPoolM p @ map the (filter (\<lambda>x. x \<noteq> None) xs)"
    by (induction xs arbitrary: p) (auto split: option.split)
  then show ?thesis by (simp add: StartPhaseTasks_def)
qed

section \<open>The abilities of a phase\<close>

definition phase_list :: "nat \<Rightarrow> proc \<Rightarrow> ptr list" where
  "phase_list ph p = (case smap_find (abilityPhaseMapM p) ph of None \<Rightarrow> [] | Some xs \<Rightarrow> xs)"

definition of_phase :: "nat \<Rightarrow> proc \<Rightarrow> sa_profile \<Rightarrow> bool" where
  "of_phase ph p pf \<longleftrightarrow> pf_bootPhase pf = ph \<and> GetAbility (pf_saId pf) p \<noteq> None"

lemma init_phase_profile_step:
  assumes "smap_ok (abilityPhaseMapM p)" and "ph \<le> OTHER_START"
  shows "init_phase_profile ph pf p =
      (if of_phase ph p pf
       then p\<lparr>abilityPhaseMapM := smap_assign ph (phase_list ph p @ [GetAbility (pf_saId pf) p]) (abilityPhaseMapM p)\<rparr> else p)"
proof -
  have "the (smap_find (smap_emplace ph [] (abilityPhaseMapM p)) ph) = phase_list ph p"
    using assms(1) by (simp add: smap_find_emplace phase_list_def split: option.split)
  then show ?thesis
    using assms
    by (simp add: init_phase_profile_def InitializeSaProfilesInnerLocked_def of_phase_def GetAbility_def Let_def
        smap_assign_emplace split: option.split)
qed

lemma init_phase_profiles:
  assumes "ph \<le> OTHER_START"
  shows "smap_ok (abilityPhaseMapM p) \<Longrightarrow>
     (let q = fold (init_phase_profile ph) pfs p in smap_ok (abilityPhaseMapM q)
      \<and> heap q = heap p \<and> localAbilityMapM q = localAbilityMapM p
      \<and> phase_list ph q = phase_list ph p @ map (\<lambda>pf. GetAbility (pf_saId pf) p) (filter (of_phase ph p) pfs)
      \<and> (\<forall>k. k \<noteq> ph \<longrightarrow> phase_list k q = phase_list k p))"
proof (induction pfs rule: rev_induct)
  case (snoc pf pfs)
  let ?q = "fold (init_phase_profile ph) pfs p"
  have ok: "smap_ok (abilityPhaseMapM ?q)" using snoc by (simp add: Let_def)
  have "GetAbility i ?q = GetAbility i p" for i using snoc by (simp add: Let_def GetAbility_def)
  then have "of_phase ph ?q pf = of_phase ph p pf" by (simp add: of_phase_def)
  then show ?case
    using snoc ok \<open>\<And>i. GetAbility i ?q = GetAbility i p\<close>
    by (simp add: Let_def init_phase_profile_step [OF ok assms] sm.invar_assign)
       (simp add: phase_list_def sm.lookup_assign)
qed simp

section \<open>Closed forms\<close>

text \<open>The trace of a wait for the system ability manager with \<open>k\<close> sleeps.\<close>

definition samgr_polls :: "nat \<Rightarrow> event list" where
  "samgr_polls k = E_GetSystemAbilityManager # concat (replicate k [E_Usleep 200000, E_GetSystemAbilityManager])"

lemma wait_samgr_outcome:
  assumes "silent env"
  shows "wait_samgr env n b p =
     (case find (\<lambda>k. if k = 0 then b else ans_bool env (trace p @ tl (samgr_polls k))) [0..<Suc n] of
        None \<Rightarrow> (False, p\<lparr>trace := trace p @ tl (samgr_polls n)\<rparr>)
      | Some k \<Rightarrow> (True, p\<lparr>trace := trace p @ tl (samgr_polls k)\<rparr>))"
proof (induction n arbitrary: b p)
  case 0
  then show ?case by (cases b) (simp_all add: samgr_polls_def)
next
  case (Suc n)
  have shift: "find R [0..<Suc m] = (if R 0 then Some 0 else map_option Suc (find (\<lambda>k. R (Suc k)) [0..<m]))"
    for R :: "nat \<Rightarrow> bool" and m
    by (simp add: upt_conv_Cons find_map flip: map_Suc_upt del: upt_Suc)
  have polls: "tl (samgr_polls (Suc k)) = [E_Usleep 200000, E_GetSystemAbilityManager] @ tl (samgr_polls k)" for k
    by (simp add: samgr_polls_def)
  show ?case
  proof (cases b)
    case True
    then show ?thesis by (simp add: shift samgr_polls_def del: upt_Suc)
  next
    case False
    let ?h = "trace p @ [E_Usleep 200000, E_GetSystemAbilityManager]"
    have "wait_samgr env (Suc n) b p = wait_samgr env n (ans_bool env ?h) (p\<lparr>trace := ?h\<rparr>)"
      using False assms by (simp add: run_foreign_def silent_def asks emit_def MILLISECONDS_WAITING_SAMGR_ONE_TIME_def)
    also have "\<dots> = (case find (\<lambda>k. ans_bool env (trace p @ tl (samgr_polls (Suc k)))) [0..<Suc n] of
        None \<Rightarrow> (False, p\<lparr>trace := trace p @ tl (samgr_polls (Suc n))\<rparr>)
      | Some k \<Rightarrow> (True, p\<lparr>trace := trace p @ tl (samgr_polls (Suc k))\<rparr>))"
    proof -
      have "(\<lambda>k. if k = 0 then ans_bool env ?h else ans_bool env (?h @ tl (samgr_polls k)))
          = (\<lambda>k. ans_bool env (trace p @ tl (samgr_polls (Suc k))))"
        by (rule ext) (simp add: samgr_polls_def)
      then have F: "find (\<lambda>k. if k = 0 then ans_bool env ?h else ans_bool env (?h @ tl (samgr_polls k))) [0..<Suc n]
          = find (\<lambda>k. ans_bool env (trace p @ tl (samgr_polls (Suc k)))) [0..<Suc n]" by (rule arg_cong)
      have t: "trace (p\<lparr>trace := ?h\<rparr>) = ?h" "(p\<lparr>trace := ?h\<rparr>)\<lparr>trace := h\<rparr> = p\<lparr>trace := h\<rparr>" for h by simp_all
      have P: "?h @ tl (samgr_polls k) = trace p @ tl (samgr_polls (Suc k))" for k by (simp add: polls)
      show ?thesis unfolding Suc.IH t F unfolding P by (rule refl)
    qed
    finally show ?thesis using False by (simp add: shift [of _ "Suc n"] del: upt_Suc wait_samgr.simps split: option.split)
  qed
qed

lemma fold_emit_filter:
  "fold (\<lambda>x p. if P x then emit (f x) p else p) xs p = p\<lparr>trace := trace p @ map f (filter P xs)\<rparr>"
  by (induction xs arbitrary: p) (simp_all add: emit_def)

section \<open>Properties\<close>

text \<open>
  C19. The dependency wait ends: with a clock that respects the sleeps, \<open>StartDependSaTask\<close> returns for every ability
  within 1201 rounds of its loop, because the timeout of an ability is at most one minute and a round sleeps 50 ms,
  whatever other threads do meanwhile.
\<close>

theorem StartDependSaTask_returns:
  assumes "steady_clock env now" and "timeout_ok (heap p a)" and "now (trace p) + 60000 \<le> INT64_MAX" and "1201 \<le> fuel"
  shows "\<exists>q. StartDependSaTask env fuel (Some a) p = Some q"
  using assms by (rule StartDepend_total)

fun slept :: "event list \<Rightarrow> int" where
  "slept [] = 0"
| "slept (E_Usleep us # h) = max 0 (us div 1000) + slept h"
| "slept (_ # h) = slept h"

definition sleep_clock :: "event list \<Rightarrow> int" where
  "sleep_clock h = min (slept h) INT64_MAX"

lemma slept_append: "slept (h @ h') = slept h + slept h'"
  by (induction h rule: slept.induct) simp_all

lemma slept_nonneg: "0 \<le> slept h"
  by (induction h rule: slept.induct) simp_all

lemma sleep_clock_steady:
  "ans_int env = (\<lambda>h. sleep_clock (butlast h)) \<Longrightarrow> silent env \<Longrightarrow> steady_clock env sleep_clock"
  using slept_nonneg slept_nonneg [of "[_]"]
  by (auto simp: steady_clock_def sleep_clock_def slept_append silent_def INT64_MAX_def min_def add_increasing2
      intro: exI [of _ "[]"])

text \<open>The environments of the witnesses: sleeping is all that takes time; in the second the dependencies appear after 100 ms.\<close>

definition sleepy_env :: env where
  "sleepy_env = quiet_env\<lparr>ans_int := (\<lambda>h. sleep_clock (butlast h)), ans_bool := (\<lambda>h. last h = E_GetSystemAbilityManager)\<rparr>"

definition late_env :: env where
  "late_env = sleepy_env\<lparr>ans_bool := (\<lambda>h. last h = E_GetSystemAbilityManager \<or> 100 \<le> slept h)\<rparr>"

lemma sleepy_env_facts: "silent sleepy_env" "steady_clock sleepy_env sleep_clock"
proof -
  show s: "silent sleepy_env" by (simp add: sleepy_env_def silent_def quiet_env_def)
  show "steady_clock sleepy_env sleep_clock" by (rule sleep_clock_steady [OF _ s]) (simp add: sleepy_env_def)
qed

lemma late_env_facts: "silent late_env" "steady_clock late_env sleep_clock"
proof -
  show s: "silent late_env" by (simp add: late_env_def sleepy_env_def silent_def quiet_env_def)
  show "steady_clock late_env sleep_clock" by (rule sleep_clock_steady [OF _ s]) (simp add: late_env_def sleepy_env_def)
qed

lemma late_env_answers:
  "CheckInputSysAbilityId late_env 9" "ans_bool late_env h = (last h = E_GetSystemAbilityManager \<or> 100 \<le> slept h)"
  by (simp_all add: late_env_def sleepy_env_def quiet_env_def CheckInputSysAbilityId_def)

text \<open>After \<open>k\<close> rounds there \<open>50 * k\<close> ms have passed.\<close>

lemma late_polls:
  "slept ((next_poll late_env [9] ^^ k) [E_GetTickCount]) = 50 * int k" (is ?slept)
  "unmet late_env [9] ((next_poll late_env [9] ^^ k) [E_GetTickCount]) = (if k < 2 then [9] else [])" (is ?unmet)
  "slept (poll_events late_env [9] h) = 0" (is ?poll)
proof -
  have p: "slept (poll_events late_env [9] h) = 0" for h by (simp add: poll_events_def late_env_answers)
  have s: "slept ((next_poll late_env [9] ^^ k) [E_GetTickCount]) = 50 * int k" for k
    by (induction k) (simp_all add: next_poll_def slept_append p)
  show ?slept ?poll using p s by simp_all
  show ?unmet by (simp add: unmet_def late_env_answers slept_append s)
qed

lemma sample_facts:
  "timeout_ok (heap (LocalAbilityManager (\<lambda>_. (SystemAbility 7 True)\<lparr>dependSaM := [9]\<rparr>)) a)"
  "trace (LocalAbilityManager objs) = []"
  by (simp_all add: LocalAbilityManager_def SystemAbility_def timeout_ok_def MIN_DEPENDENCY_TIMEOUT_def
      MAX_DEPENDENCY_TIMEOUT_def DEFAULT_DEPENDENCY_TIMEOUT_def)

theorem StartDependSaTask_returns_witness:
  "\<exists>q. StartDependSaTask sleepy_env 1201 (Some 0)
     (LocalAbilityManager (\<lambda>_. (SystemAbility 7 True)\<lparr>dependSaM := [9]\<rparr>)) = Some q"
  by (rule StartDependSaTask_returns [OF sleepy_env_facts(2) sample_facts(1)])
     (simp_all add: sample_facts sleep_clock_def INT64_MAX_def)

text \<open>
  C10. The dependency gate, where callbacks do not re-enter the framework but dependencies may come and go at any time.
  \<open>StartDependSaTask\<close> polls the dependencies at once and then after every 50 ms, and it ends the wait with the first
  poll that finds nothing missing or at the first clock reading, taken after a poll, at or beyond the timeout of the
  ability: it never sleeps again after either and never gives up before both fail. It then polls once more and starts the
  ability if and only if this last poll finds nothing missing. All that it does is given exactly, and that it ends is part of the claim.
\<close>

theorem dependency_gate:
  assumes "silent env" and "steady_clock env now" and "timeout_ok (heap p a)"
    and "now (trace p) + 60000 \<le> INT64_MAX" and "1201 \<le> fuel"
  defines "deps \<equiv> dependSaM (heap p a)"
    and "before k \<equiv> (next_poll env (dependSaM (heap p a)) ^^ k) (trace p @ [E_GetTickCount])"
  shows "\<exists>k. (\<forall>j<k. unmet env deps (before j) \<noteq> []
              \<and> now (before j @ poll_events env deps (before j)) < now (trace p) + dependTimeoutM (heap p a))
     \<and> (unmet env deps (before k) = []
        \<or> now (trace p) + dependTimeoutM (heap p a) \<le> now (before k @ poll_events env deps (before k)))
     \<and> (let h = before k @ poll_events env deps (before k) @ (if unmet env deps (before k) = [] then [] else [E_GetTickCount]);
            p1 = p\<lparr>trace := h @ poll_events env deps h\<rparr>
        in StartDependSaTask env fuel (Some a) p = Some (if unmet env deps h = [] then Start env a p1 else p1))"
proof -
  let ?h = "trace p @ [E_GetTickCount]" and ?t = "dependTimeoutM (heap p a)"
  let ?p2 = "p\<lparr>trace := ?h @ poll_events env deps ?h\<rparr>"
  obtain q where q: "StartDependSaTask env fuel (Some a) p = Some q"
    using StartDepend_total [OF assms(2-5)] by blast
  obtain p3 where p3: "depend_wait env fuel (now (trace p)) ?t a (length (unmet env deps ?h)) ?p2 = Some p3"
    and q3: "q = (let (un, p4) = CheckDependencyStatus env (dependSaM (heap p3 a)) p3 in if un = [] then Start env a p4 else p4)"
    using q by (auto simp: StartDependSaTask_def steady_reading [OF assms(2), unfolded ask_int_def, simplified] ask_int_def
        Let_def CheckDependency_exact deps_def emit_def split: option.splits)
  obtain k where k: "\<forall>j<k. waits env now deps (now (trace p) + ?t) (before j)" "\<not> waits env now deps (now (trace p) + ?t) (before k)"
      "p3 = p\<lparr>trace := before k @ poll_events env deps (before k) @ (if unmet env deps (before k) = [] then [] else [E_GetTickCount])\<rparr>"
    using depend_wait_exact [OF assms(1,2) _ p3] steady_bounds [OF assms(2)] steady_mono [OF assms(2)]
    by (auto simp: before_def deps_def Let_def)
  show ?thesis
    using k q q3 by (intro exI [of _ k]) (auto simp: waits_def CheckDependency_exact deps_def Let_def)
qed

theorem dependency_gate_witness:
  "\<exists>h. StartDependSaTask late_env 1201 (Some 0) (LocalAbilityManager (\<lambda>_. (SystemAbility 7 True)\<lparr>dependSaM := [9]\<rparr>))
       = Some (Start late_env 0 ((LocalAbilityManager (\<lambda>_. (SystemAbility 7 True)\<lparr>dependSaM := [9]\<rparr>))\<lparr>trace := h\<rparr>))
     \<and> sleep_clock h = 100"
proof -
  let ?p = "LocalAbilityManager (\<lambda>_. (SystemAbility 7 True)\<lparr>dependSaM := [9]\<rparr>)"
  let ?b = "\<lambda>k. (next_poll late_env [9] ^^ k) [E_GetTickCount]"
  have f: "dependSaM (heap ?p 0) = [9]" "dependTimeoutM (heap ?p 0) = 6000" "trace ?p = []"
    by (simp_all add: LocalAbilityManager_def SystemAbility_def DEFAULT_DEPENDENCY_TIMEOUT_def)
  have z: "sleep_clock [] = 0" "sleep_clock [] + 60000 \<le> INT64_MAX" by (simp_all add: sleep_clock_def INT64_MAX_def)
  have c: "sleep_clock (?b k @ poll_events late_env [9] (?b k)) = min (50 * int k) INT64_MAX" for k
    by (simp add: sleep_clock_def slept_append late_polls)
  obtain k where k: "\<forall>j<k. unmet late_env [9] (?b j) \<noteq> []"
      "unmet late_env [9] (?b k) = [] \<or> 6000 \<le> sleep_clock (?b k @ poll_events late_env [9] (?b k))"
      "let h = ?b k @ poll_events late_env [9] (?b k) @ (if unmet late_env [9] (?b k) = [] then [] else [E_GetTickCount]);
           p1 = ?p\<lparr>trace := h @ poll_events late_env [9] h\<rparr>
       in StartDependSaTask late_env 1201 (Some 0) ?p = Some (if unmet late_env [9] h = [] then Start late_env 0 p1 else p1)"
    using dependency_gate [OF late_env_facts sample_facts(1) _ order_refl, of 0] f z by auto
  have "\<not> 2 < k" using k(1) late_polls(2) [of 2] by auto
  moreover have "\<not> k < 2" using k(2) c [of k] by (auto simp: late_polls INT64_MAX_def)
  ultimately have 2: "k = 2" by simp
  let ?h = "?b k @ poll_events late_env [9] (?b k)"
  have s: "slept ?h = 100" by (simp add: slept_append late_polls 2)
  have u: "unmet late_env [9] ?h = []" using s by (simp add: unmet_def late_env_answers slept_append)
  have "sleep_clock (?h @ poll_events late_env [9] ?h) = 100"
    using s by (simp add: sleep_clock_def slept_append late_polls(3) INT64_MAX_def)
  then show ?thesis using k(3) u 2 late_polls(2) [of k] by (intro exI [of _ "?h @ poll_events late_env [9] ?h"]) simp
qed

text \<open>
  C20. The barrier between the phases. When the tasks of a phase are queued and waited for, the count of
  unfinished tasks never exceeds the queue, a wait that is not cut off by the time limit leaves as many tasks unfinished as were
  left over before, so that with an empty queue before the phase all abilities of the phase have been handled
  when the next one begins; but with tasks left over from a timed-out phase, as many may be unfinished after a wait
  that did not time out.
\<close>

theorem phase_barrier:
  assumes "pool_private env" and "startTaskNumM p = 0"
    and "ans_schedule env (trace (StartPhaseTasks xs p) @ [E_WaitForTasks]) = sched"
    and "run_tasks env fuel sched (emit E_WaitForTasks (StartPhaseTasks xs p)) = Some r"
  shows "\<exists>q. WaitForTasks env fuel (StartPhaseTasks xs p) = Some q \<and> startTaskNumM q = 0
     \<and> set (initPoolM q) \<subseteq> set (initPoolM p) \<union> {a. Some a \<in> set xs}
     \<and> int (length (initPoolM q)) = int (length (initPoolM p)) + startTaskNumM r
     \<and> (startTaskNumM r = 0 \<and> initPoolM p = [] \<longrightarrow> initPoolM q = [])"
proof -
  let ?p1 = "emit E_WaitForTasks (StartPhaseTasks xs p)"
  have c: "startTaskNumM ?p1 = int (length (filter (\<lambda>x. x \<noteq> None) xs))"
      "initPoolM ?p1 = initPoolM p @ map the (filter (\<lambda>x. x \<noteq> None) xs)"
    using StartPhaseTasks_count [of xs p] assms(2) by simp_all
  have r: "0 \<le> startTaskNumM r"
      "int (length (initPoolM r)) - startTaskNumM r = int (length (initPoolM ?p1)) - startTaskNumM ?p1"
      "set (initPoolM r) \<subseteq> set (initPoolM ?p1)"
    using run_tasks_count [OF assms(1,4)] c by simp_all
  have "set (initPoolM ?p1) = set (initPoolM p) \<union> {a. Some a \<in> set xs}"
    by (subst c(2)) (force simp: image_iff)
  then show ?thesis using r c assms(3,4) by (auto simp: WaitForTasks_def query_def ask_def)
qed

theorem phase_barrier_witness:
  "\<exists>q. WaitForTasks (quiet_env\<lparr>ans_schedule := (\<lambda>_. [1, 0])\<rparr>) 0 (StartPhaseTasks [Some 4, Some 5]
      (LocalAbilityManager (\<lambda>_. SystemAbility 7 True))) = Some q \<and> initPoolM q = []"
proof -
  let ?e = "quiet_env\<lparr>ans_schedule := (\<lambda>_. [1, 0])\<rparr>"
  let ?p = "LocalAbilityManager (\<lambda>_. SystemAbility 7 True)"
  have pp: "pool_private ?e" by (simp add: pool_private_def quiet_env_def)
  have z: "startTaskNumM ?p = 0" "initPoolM ?p = []" by (simp_all add: LocalAbilityManager_def)
  have dep: "dependSaM (heap (Start e b q) c) = []" if "interfere e = (\<lambda>_ p. p)" "\<And>c. dependSaM (heap q c) = []" for e b q c
    using that GetOnDemandReasonExtraData_frame(1) [of e]
    by (auto simp: Start_def Let_def case_prod_beta run_foreign_def GetOnDemandReasonExtraData_def asks split: option.split)
  have "\<exists>r. run_tasks ?e 0 [1, 0] (emit E_WaitForTasks (StartPhaseTasks [Some 4, Some 5] ?p)) = Some r \<and> startTaskNumM r = 0"
    using Start_pool [OF pp]
    by (simp add: StartPhaseTasks_def StartSystemAbilityTask_def LocalAbilityManager_def SystemAbility_def dep
        same_pool_def quiet_env_def)
  then obtain r where "run_tasks ?e 0 [1, 0] (emit E_WaitForTasks (StartPhaseTasks [Some 4, Some 5] ?p)) = Some r" "startTaskNumM r = 0"
    by blast
  then show ?thesis using phase_barrier [OF pp z(1), of "[Some 4, Some 5]" "[1, 0]" 0 r] z(2) by auto
qed

text \<open>
  The wait for the system ability manager polls once, then at most fifty times with a sleep of 200 ms before each poll, and reports
  success at the first poll that finds the manager; otherwise it gives up after ten seconds of sleep.
\<close>

theorem samgr_ready_outcome:
  assumes "silent env"
  shows "CheckSystemAbilityManagerReady env p =
     (case find (\<lambda>k. ans_bool env (trace p @ samgr_polls k)) [0..<51] of
        None \<Rightarrow> (False, p\<lparr>trace := trace p @ samgr_polls 50\<rparr>)
      | Some k \<Rightarrow> (True, p\<lparr>trace := trace p @ samgr_polls k\<rparr>))"
proof -
  have polls: "(trace p @ [E_GetSystemAbilityManager]) @ tl (samgr_polls k) = trace p @ samgr_polls k" for k
    by (simp add: samgr_polls_def)
  have F: "(\<lambda>k. if k = 0 then ans_bool env (trace p @ [E_GetSystemAbilityManager])
        else ans_bool env ((trace p @ [E_GetSystemAbilityManager]) @ tl (samgr_polls k)))
      = (\<lambda>k. ans_bool env (trace p @ samgr_polls k))"
    by (rule ext) (simp add: samgr_polls_def)
  have t: "trace (emit E_GetSystemAbilityManager p) = trace p @ [E_GetSystemAbilityManager]"
    "(emit E_GetSystemAbilityManager p)\<lparr>trace := h\<rparr> = p\<lparr>trace := h\<rparr>" for h by (simp_all add: emit_def)
  have "CheckSystemAbilityManagerReady env p =
      wait_samgr env 50 (ans_bool env (trace p @ [E_GetSystemAbilityManager])) (emit E_GetSystemAbilityManager p)"
    by (simp add: CheckSystemAbilityManagerReady_def asks RETRY_TIMES_FOR_SAMGR_def)
  also have "\<dots> = (case find (\<lambda>k. ans_bool env (trace p @ samgr_polls k)) [0..<Suc 50] of
        None \<Rightarrow> (False, p\<lparr>trace := trace p @ samgr_polls 50\<rparr>)
      | Some k \<Rightarrow> (True, p\<lparr>trace := trace p @ samgr_polls k\<rparr>))"
    unfolding wait_samgr_outcome [OF assms] t F unfolding polls by (rule refl)
  finally show ?thesis by (simp del: upt.simps upt_rec_numeral)
qed

theorem samgr_ready_outcome_witness:
  "fst (CheckSystemAbilityManagerReady (quiet_env\<lparr>ans_bool := (\<lambda>h. length h > 4)\<rparr>) (LocalAbilityManager (\<lambda>_. SystemAbility 7 True)))"
proof -
  let ?e = "quiet_env\<lparr>ans_bool := (\<lambda>h. length h > 4)\<rparr>"
  let ?p = "LocalAbilityManager (\<lambda>_. SystemAbility 7 True)"
  have s: "silent ?e" by (simp add: silent_def quiet_env_def)
  have "find (\<lambda>k. ans_bool ?e (trace ?p @ samgr_polls k)) [0..<51] = Some 2"
    by (simp add: samgr_polls_def sample_facts(2) upt_conv_Cons numeral_eq_Suc)
  then show ?thesis by (simp add: samgr_ready_outcome [OF s])
qed

text \<open>
  The trust check. If the trust configuration of the process can be parsed and is not empty, exactly those profiles are
  removed, in order, whose ability is not listed for the process; a process that the
  configuration does not mention loses all of its profiles. Without a usable configuration nothing is removed.
\<close>

theorem trust_filter:
  "let h = trace p @ [E_ParseTrustConfig path]; trust = ans_trust env h;
       trusted = (\<lambda>i. case smap_find trust (Str8ToStr16 env process) of None \<Rightarrow> False | Some s \<Rightarrow> i \<in> set s)
   in CheckTrustSa env path process pfs p =
        p\<lparr>trace := h @ (if ans_bool env h \<and> trust \<noteq> []
            then map E_RemoveSaProfile (filter (\<lambda>i. \<not> trusted i) (map pf_saId pfs)) else [])\<rparr>"
proof -
  have e: "(emit ev p)\<lparr>trace := h\<rparr> = p\<lparr>trace := h\<rparr>" "emit ev p = p\<lparr>trace := trace p @ [ev]\<rparr>" for ev h
    by (simp_all add: emit_def)
  show ?thesis
    by (cases "smap_find (ans_trust env (trace p @ [E_ParseTrustConfig path])) (Str8ToStr16 env process)")
       (simp_all add: CheckTrustSa_def Let_def ask_def fold_emit_filter e(1) filter_map comp_def)
qed

text \<open>
  The abilities of a boot phase: after the libraries of a phase are opened, the list of the phase has grown by the registered
  abilities whose profile names the phase, in the order of the profiles, and no other phase has changed; a phase after the
  last one is refused.
\<close>

theorem phase_lists:
  assumes "silent env" and "smap_ok (abilityPhaseMapM p)"
  defines "q ph \<equiv> snd (InitializeRunOnCreateSaProfiles env ph p)"
    and "pfs ph \<equiv> ans_profiles env (trace p @ [E_OpenSo ph, E_GetAllSaProfiles])"
  shows "(if ph > 3 then InitializeRunOnCreateSaProfiles env ph p = (False, p)
     else phase_list ph (q ph) = phase_list ph p @ map (\<lambda>pf. GetAbility (pf_saId pf) p) (filter (of_phase ph p) (pfs ph))
       \<and> (\<forall>k. k \<noteq> ph \<longrightarrow> phase_list k (q ph) = phase_list k p) \<and> smap_ok (abilityPhaseMapM (q ph)))"
proof -
  let ?p1 = "p\<lparr>trace := trace p @ [E_OpenSo ph, E_GetAllSaProfiles]\<rparr>"
  have p1: "phase_list k ?p1 = phase_list k p" "GetAbility i ?p1 = GetAbility i p" for k i
    by (simp_all add: phase_list_def GetAbility_def)
  then have o: "of_phase ph ?p1 = of_phase ph p" by (intro ext) (simp add: of_phase_def)
  have "q ph = fold (init_phase_profile ph) (pfs ph) ?p1" if "ph \<le> 3"
  proof -
    have "run_foreign env (E_OpenSo ph) p = emit (E_OpenSo ph) p" using assms(1) by (simp add: run_foreign_def silent_def)
    then show ?thesis
      using that by (simp add: q_def pfs_def InitializeRunOnCreateSaProfiles_def OTHER_START_def asks Let_def) (simp add: emit_def)
  qed
  moreover have "\<not> ph > 3 \<Longrightarrow> (let q = fold (init_phase_profile ph) (pfs ph) ?p1 in smap_ok (abilityPhaseMapM q)
      \<and> heap q = heap ?p1 \<and> localAbilityMapM q = localAbilityMapM ?p1
      \<and> phase_list ph q = phase_list ph ?p1 @ map (\<lambda>pf. GetAbility (pf_saId pf) ?p1) (filter (of_phase ph ?p1) (pfs ph))
      \<and> (\<forall>k. k \<noteq> ph \<longrightarrow> phase_list k q = phase_list k ?p1))"
    using assms(2) by (intro init_phase_profiles) (simp_all add: OTHER_START_def)
  moreover have "ph > 3 \<Longrightarrow> InitializeRunOnCreateSaProfiles env ph p = (False, p)"
    by (simp add: InitializeRunOnCreateSaProfiles_def OTHER_START_def)
  ultimately show ?thesis unfolding p1 o Let_def by simp
qed

theorem phase_lists_witness:
  "phase_list 1 (snd (InitializeRunOnCreateSaProfiles
      (quiet_env\<lparr>ans_profiles := (\<lambda>_. [\<lparr>pf_saId = 7, pf_libPath = [], pf_dependSa = [], pf_dependTimeout = 0,
         pf_runOnCreate = True, pf_distributed = False, pf_dumpLevel = 1, pf_bootPhase = 1, pf_unusedTimeout = -1\<rparr>])\<rparr>) 1
      ((LocalAbilityManager (\<lambda>_. SystemAbility 7 True))\<lparr>localAbilityMapM := [(7, Some 0)]\<rparr>))) = [Some 0]"
proof -
  let ?e = "quiet_env\<lparr>ans_profiles := (\<lambda>_. [\<lparr>pf_saId = 7, pf_libPath = [], pf_dependSa = [], pf_dependTimeout = 0,
         pf_runOnCreate = True, pf_distributed = False, pf_dumpLevel = 1, pf_bootPhase = 1, pf_unusedTimeout = -1\<rparr>])\<rparr>"
  let ?p = "(LocalAbilityManager (\<lambda>_. SystemAbility 7 True))\<lparr>localAbilityMapM := [(7, Some 0)]\<rparr>"
  have s: "silent ?e" by (simp add: silent_def quiet_env_def)
  have ok: "smap_ok (abilityPhaseMapM ?p)" by (simp add: LocalAbilityManager_def)
  show ?thesis
    using phase_lists [OF s ok, of 1]
    by (simp add: of_phase_def GetAbility_def smap_find_def phase_list_def LocalAbilityManager_def)
qed

end
