(* ===== verification/Lam_Dumper.thy ===== *)
theory Lam_Dumper
  imports System_Ability
begin

text \<open>
  Statistics: \<open>services/safwk/src/local_ability_manager_dumper.cpp\<close>, \<open>services/safwk/src/ffrt_handler.cpp\<close> and the three
  requests of \<open>local_ability_manager.cpp\<close> that use them, \<open>IpcStatCmdProc\<close>, \<open>FfrtStatCmdProc\<close> and \<open>FfrtDumperProc\<close>.

  The reports are built as strings, as in the code; what the IPC and FFRT libraries answer comes from the environment. The
  buffer that the FFRT library fills is read once, as a list of records of which the parser sees the first
  5000. The task that clears a collection after a minute is a step of its own (\<open>ClearFfrtStatistics\<close>).
  Operations whose string argument is only appended to return the appended string.
\<close>

section \<open>The task handler\<close>

definition CONVERSION_FACTOR :: "64 word" where
  "CONVERSION_FACTOR = 1000"

text \<open>
  \<open>taskMap\<close> is the member \<open>taskMap_\<close>; \<open>submit_h\<close> answers with a handle or none. A null handle is never stored.
\<close>

definition PostTask :: "env \<Rightarrow> string \<Rightarrow> 64 word \<Rightarrow> (string, nat) smap \<Rightarrow> proc \<Rightarrow> bool \<times> (string, nat) smap \<times> proc" where
  "PostTask env name delayTime taskMap p =
     (if delayTime > (- 1) div CONVERSION_FACTOR then (False, taskMap, p)
      else let (handler, p) = query (ans_obj env) (E_FfrtSubmit name (delayTime * CONVERSION_FACTOR)) p
           in case handler of
                None \<Rightarrow> (False, taskMap, p)
              | Some h \<Rightarrow> (True, smap_assign name h taskMap, p))"

definition RemoveTask :: "string \<Rightarrow> (string, nat) smap \<Rightarrow> proc \<Rightarrow> (string, nat) smap \<times> proc" where
  "RemoveTask name taskMap p =
     (case smap_find taskMap name of
        None \<Rightarrow> (taskMap, p)
      | Some h \<Rightarrow> (smap_erase name taskMap, emit (E_FfrtCancel h) p))"

section \<open>IPC statistics\<close>

fun dec_digits :: "nat \<Rightarrow> string" where
  "dec_digits n = (if n < 10 then [char_of (48 + n)] else dec_digits (n div 10) @ [char_of (48 + n mod 10)])"

declare dec_digits.simps [simp del]

definition to_string :: "int \<Rightarrow> string" where
  "to_string i = (if i < 0 then CHR ''-'' # dec_digits (nat (- i)) else dec_digits (nat i))"

definition nl :: string where
  "nl = [CHR 0x0A]"

definition DUMP_SUCCESS :: string where
  "DUMP_SUCCESS = '' success'' @ nl"

definition DUMP_FAIL :: string where
  "DUMP_FAIL = '' fail'' @ nl"

definition StartIpcStatistics :: "env \<Rightarrow> proc \<Rightarrow> bool \<times> string \<times> proc" where
  "StartIpcStatistics env p =
     (let result = ''StartIpcStatistics pid:'' @ to_string (getpid env);
          (ret, p) = ask_bool env E_StartIpcStatistics p
      in (ret, result @ (if ret then DUMP_SUCCESS else DUMP_FAIL), p))"

definition StopIpcStatistics :: "env \<Rightarrow> proc \<Rightarrow> bool \<times> string \<times> proc" where
  "StopIpcStatistics env p =
     (let result = ''StopIpcStatistics pid:'' @ to_string (getpid env);
          (ret, p) = ask_bool env E_StopIpcStatistics p
      in (ret, result @ (if ret then DUMP_SUCCESS else DUMP_FAIL), p))"

definition interface_report :: "env \<Rightarrow> int \<Rightarrow> u16string \<times> int \<Rightarrow> string \<times> proc \<Rightarrow> string \<times> proc" where
  "interface_report env pid intf rp =
     (let (result, p) = rp;
          (desc, code) = intf;
          result = result @ nl @ ''~~~~~~~~~~~~~~~~~~~~~~~~~~~~~~~~InterfaceStatisticsInfo~~~~~~~~~~~~~~~~~~~~~~~~~~~~~'';
          result = result @ nl @ ''DescriptorCode:'';
          result = result @ Str16ToStr8 env desc @ ''_'' @ to_string code;
          result = result @ nl @ ''DescriptorCodeCount:'';
          (count, p) = ask_int env (E_IpcDescriptorCodeCount pid desc code) p;
          result = result @ to_string count;
          result = result @ nl @ ''DescriptorCodeTimeCost:'';
          result = result @ nl @ ''Total:'';
          (cost, p) = query (ans_cost env) (E_IpcDescriptorCodeCost pid desc code) p;
          result = result @ to_string (totalCost cost);
          result = result @ '' | Max:'';
          (cost, p) = query (ans_cost env) (E_IpcDescriptorCodeCost pid desc code) p;
          result = result @ to_string (maxCost cost);
          result = result @ '' | Min:'';
          (cost, p) = query (ans_cost env) (E_IpcDescriptorCodeCost pid desc code) p;
          result = result @ to_string (minCost cost);
          result = result @ '' | Avg:'';
          (cost, p) = query (ans_cost env) (E_IpcDescriptorCodeCost pid desc code) p;
          result = result @ to_string (averCost cost);
          result = result @ nl @ ''~~~~~~~~~~~~~~~~~~~~~~~~~~~~~~~~~~~~~~~~~~~~~~~~~~~~~~~~~~~~~~~~~~~~~~~~~~~~~~~~~~~~''
      in (result, p))"

definition process_report :: "env \<Rightarrow> int \<Rightarrow> string \<times> proc \<Rightarrow> string \<times> proc" where
  "process_report env pid rp =
     (let (result, p) = rp;
          result = result @ nl @ ''--------------------------------ProcessStatisticsInfo-------------------------------'';
          result = result @ nl @ ''CallingPid:'';
          result = result @ to_string pid;
          result = result @ nl @ ''CallingPidTotalCount:'';
          (count, p) = ask_int env (E_IpcCount pid) p;
          result = result @ to_string count;
          result = result @ nl @ ''CallingPidTotalTimeCost:'';
          (cost, p) = ask_int env (E_IpcCost pid) p;
          result = result @ to_string cost;
          (intfs, p) = query (ans_interfaces env) (E_IpcDescriptorCodes pid) p;
          (result, p) = fold (interface_report env pid) intfs (result, p);
          result = result @ nl @ ''------------------------------------------------------------------------------------''
      in (result, p))"

definition GetIpcStatistics :: "env \<Rightarrow> string \<Rightarrow> proc \<Rightarrow> bool \<times> string \<times> proc" where
  "GetIpcStatistics env result p =
     (let result = result @ ''********************************GlobalStatisticsInfo********************************'';
          result = result @ nl @ ''CurrentPid:'';
          result = result @ to_string (getpid env);
          result = result @ nl @ ''TotalCount:'';
          (count, p) = ask_int env E_IpcTotalCount p;
          result = result @ to_string count;
          result = result @ nl @ ''TotalTimeCost:'';
          (cost, p) = ask_int env E_IpcTotalCost p;
          result = result @ to_string cost;
          (pids, p) = query (ans_ints env) E_IpcPids p;
          (result, p) = fold (process_report env) pids (result, p);
          result = result @ nl @ ''************************************************************************************'' @ nl
      in (True, result, p))"

text \<open>The commands, numbered as the interface has them.\<close>

record stat_cmds =
  IPC_STAT_CMD_START :: int
  IPC_STAT_CMD_STOP :: int
  IPC_STAT_CMD_GET :: int
  IPC_STAT_CMD_MAX :: int
  FFRT_STAT_CMD_START :: int
  FFRT_STAT_CMD_STOP :: int
  FFRT_STAT_CMD_GET :: int
  FFRT_STAT_CMD_MAX :: int

definition IpcStatCmdProc :: "env \<Rightarrow> stat_cmds \<Rightarrow> int \<Rightarrow> int \<Rightarrow> proc \<Rightarrow> bool \<times> proc" where
  "IpcStatCmdProc env K fd cmd p =
     (if cmd < IPC_STAT_CMD_START K \<or> cmd \<ge> IPC_STAT_CMD_MAX K then (False, p)
      else
        let r = (if cmd = IPC_STAT_CMD_START K then Some (StartIpcStatistics env p)
                 else if cmd = IPC_STAT_CMD_STOP K then Some (StopIpcStatistics env p)
                 else if cmd = IPC_STAT_CMD_GET K then Some (GetIpcStatistics env [] p)
                 else None)
        in case r of
             None \<Rightarrow> (False, p)
           | Some (ret, result, p) \<Rightarrow>
               let (saved, p) = ask_bool env (E_SaveStringToFd fd result) p
               in if \<not> saved then (False, p) else (ret, p))"

section \<open>FFRT statistics\<close>

definition COLLECT_FFRT_METRIC_MAX_SIZE :: nat where
  "COLLECT_FFRT_METRIC_MAX_SIZE = 5000"

definition DELAY_TIME :: "64 word" where
  "DELAY_TIME = 60 * 1000"

definition ClearFfrtStatisticsBufferLocked :: "proc \<Rightarrow> proc" where
  "ClearFfrtStatisticsBufferLocked p =
     (let p = (if ffrtMetricBufferM p then p\<lparr>ffrtMetricBufferM := False\<rparr> else p)
      in case handlerM p of
           None \<Rightarrow> p
         | Some taskMap \<Rightarrow>
             let (taskMap, p) = RemoveTask ''ClearFfrtStatistics'' taskMap p in p\<lparr>handlerM := Some taskMap\<rparr>)"

definition StartFfrtStatistics :: "env \<Rightarrow> proc \<Rightarrow> bool \<times> string \<times> proc" where
  "StartFfrtStatistics env p =
     (if collectEnableM p then (False, ''collect has been started'' @ nl, p)
      else
        let p = ClearFfrtStatisticsBufferLocked p;
            p = p\<lparr>ffrtMetricBufferM := True\<rparr>;
            (ret, p) = ask_int env (E_FfrtDump DUMP_START_STAT) p
        in if ret \<noteq> ERR_OK env
           then (False, ''collect start failed'' @ nl, ClearFfrtStatisticsBufferLocked p)
           else
             let p = p\<lparr>collectEnableM := True\<rparr>;
                 taskMap = (case handlerM p of None \<Rightarrow> [] | Some m \<Rightarrow> m);
                 (posted, taskMap, p) = PostTask env ''ClearFfrtStatistics'' DELAY_TIME taskMap p
             in (True, ''collect start success'' @ nl, p\<lparr>handlerM := Some taskMap\<rparr>))"

definition StopFfrtStatistics :: "env \<Rightarrow> proc \<Rightarrow> bool \<times> string \<times> proc" where
  "StopFfrtStatistics env p =
     (if \<not> collectEnableM p then (False, ''collect has not been started'' @ nl, p)
      else
        let p = p\<lparr>collectEnableM := False\<rparr>;
            (ret, p) = ask_int env (E_FfrtDump DUMP_STOP_STAT) p
        in if ret \<noteq> ERR_OK env
           then (False, ''collect stop failed'' @ nl, ClearFfrtStatisticsBufferLocked p)
           else (True, ''collect stop success'' @ nl, p))"

text \<open>The state of the parser's loop and the loop over the records.\<close>

record parse_state =
  ps_taskInfo :: string
  ps_maxTime :: "64 word"
  ps_minTime :: "64 word"
  ps_sumTime :: "64 word"
  ps_count :: "64 word"

fun parse_stats :: "env \<Rightarrow> ffrt_stat list \<Rightarrow> parse_state \<Rightarrow> parse_state" where
  "parse_stats env [] s = s"
| "parse_stats env (currentStat # rest) s =
     (if taskName currentStat = [] then s
      else if startTime currentStat > endTime currentStat then parse_stats env rest s
      else
        let duration = endTime currentStat - startTime currentStat
        in parse_stats env rest
             \<lparr>ps_taskInfo = ps_taskInfo s @ taskName currentStat @ '' '' @ ToString env (unat (startTime currentStat))
                 @ '' '' @ ToString env (unat (endTime currentStat)) @ nl,
              ps_maxTime = max (ps_maxTime s) duration,
              ps_minTime = min (ps_minTime s) duration,
              ps_sumTime = ps_sumTime s + duration,
              ps_count = ps_count s + 1\<rparr>)"

definition parse_init :: parse_state where
  "parse_init = \<lparr>ps_taskInfo = [], ps_maxTime = 0, ps_minTime = - 1, ps_sumTime = 0, ps_count = 0\<rparr>"

text \<open>The five numbers of the report: sum, maximum, minimum, average and count.\<close>

definition stat_numbers :: "parse_state \<Rightarrow> 64 word \<times> 64 word \<times> 64 word \<times> 64 word \<times> 64 word" where
  "stat_numbers s =
     (let (minTime, avgTime) = (if ps_count s = 0 then (0, 0) else (ps_minTime s, ps_sumTime s div ps_count s))
      in (ps_sumTime s, ps_maxTime s, minTime, avgTime, ps_count s))"

definition rule_line :: string where
  "rule_line = ''-------------------------------------------------------------------------------------------'' @ nl"

definition FfrtStatisticsParser :: "env \<Rightarrow> ffrt_stat list \<Rightarrow> string" where
  "FfrtStatisticsParser env buffer =
     (let s = parse_stats env (take COLLECT_FFRT_METRIC_MAX_SIZE buffer) parse_init;
          (sumTime, maxTime, minTime, avgTime, count) = stat_numbers s
      in ''sumTime:'' @ ToString env (unat sumTime) @ '' maxTime:'' @ ToString env (unat maxTime)
         @ '' minTime:'' @ ToString env (unat minTime) @ '' avgTime:'' @ ToString env (unat avgTime)
         @ '' cntTime:'' @ ToString env (unat count) @ nl
         @ rule_line
         @ ''taskName                                                        startTime(us)   endTime(us)'' @ nl
         @ rule_line
         @ ps_taskInfo s
         @ rule_line)"

definition GetFfrtStatistics :: "env \<Rightarrow> proc \<Rightarrow> bool \<times> string \<times> proc" where
  "GetFfrtStatistics env p =
     (if collectEnableM p then (False, ''collect has not been stopped'' @ nl, p)
      else if \<not> ffrtMetricBufferM p then (False, ''info not collected'' @ nl, p)
      else let (buffer, p) = query (ans_stats env) E_FfrtReadBuffer p;
               result = FfrtStatisticsParser env buffer;
               p = ClearFfrtStatisticsBufferLocked p
           in (True, result, p\<lparr>handlerM := None\<rparr>))"

definition ClearFfrtStatistics :: "env \<Rightarrow> proc \<Rightarrow> proc" where
  "ClearFfrtStatistics env p =
     (let p = (if collectEnableM p
               then let (ret, p) = ask_int env (E_FfrtDump DUMP_STOP_STAT) p in p\<lparr>collectEnableM := False\<rparr>
               else p)
      in ClearFfrtStatisticsBufferLocked p)"

definition CollectFfrtStatistics :: "env \<Rightarrow> stat_cmds \<Rightarrow> int \<Rightarrow> proc \<Rightarrow> bool \<times> string \<times> proc" where
  "CollectFfrtStatistics env K cmd p =
     (let result = ''pid:'' @ ToString env (nat (getpid env)) @ '' '';
          (ret, msg, p) =
            (if cmd = FFRT_STAT_CMD_START K then StartFfrtStatistics env p
             else if cmd = FFRT_STAT_CMD_STOP K then StopFfrtStatistics env p
             else if cmd = FFRT_STAT_CMD_GET K then GetFfrtStatistics env p
             else (False, [], p))
      in (ret, result @ msg, p))"

definition FfrtStatCmdProc :: "env \<Rightarrow> stat_cmds \<Rightarrow> int \<Rightarrow> int \<Rightarrow> proc \<Rightarrow> bool \<times> proc" where
  "FfrtStatCmdProc env K fd cmd p =
     (if cmd < FFRT_STAT_CMD_START K \<or> cmd \<ge> FFRT_STAT_CMD_MAX K then (False, p)
      else let (ret, result, p) = CollectFfrtStatistics env K cmd p;
               (saved, p) = ask_bool env (E_SaveStringToFd fd result) p
           in if \<not> saved then (False, p) else (ret, p))"

text \<open>\<open>ffrt_dump\<close> of a loaded FFRT library fills a buffer; the string in it is the answer.\<close>

definition FfrtDumperProc :: "env \<Rightarrow> string \<Rightarrow> proc \<Rightarrow> bool \<times> string \<times> proc" where
  "FfrtDumperProc env ffrtDumperInfo p =
     (let (loaded, p) = ask_bool env (E_Dlsym ''ffrt_dump'') p in
      if \<not> loaded then (False, ffrtDumperInfo @ ''process '' @ to_string (getpid env) @ '' did not load ffrt'' @ nl, p)
      else let (buffer, p) = query (ans_str env) E_FfrtDumpInfo p
           in if length buffer = 0 then (False, ffrtDumperInfo, p) else (True, ffrtDumperInfo @ buffer, p))"

section \<open>The collection protocol\<close>

text \<open>
  The specification: nothing is collected, a collection runs, or one has been stopped and can be read. \<open>ok\<close> is whether the FFRT
  library accepts the command.
\<close>

datatype collection = Empty | Collecting | Collected

datatype collect_cmd = CmdStart | CmdStop | CmdGet

fun collect_spec :: "bool \<Rightarrow> collect_cmd \<Rightarrow> collection \<Rightarrow> bool \<times> collection" where
  "collect_spec ok CmdStart Collecting = (False, Collecting)"
| "collect_spec ok CmdStart _ = (if ok then (True, Collecting) else (False, Empty))"
| "collect_spec ok CmdStop Collecting = (if ok then (True, Collected) else (False, Empty))"
| "collect_spec ok CmdStop c = (False, c)"
| "collect_spec ok CmdGet Collected = (True, Empty)"
| "collect_spec ok CmdGet c = (False, c)"

definition collection_of :: "proc \<Rightarrow> collection" where
  "collection_of p = (if collectEnableM p then Collecting else if ffrtMetricBufferM p then Collected else Empty)"

definition dumper_ok :: "proc \<Rightarrow> bool" where
  "dumper_ok p \<longleftrightarrow> (collectEnableM p \<longrightarrow> ffrtMetricBufferM p \<and> handlerM p \<noteq> None)"

fun collect_run :: "env \<Rightarrow> collect_cmd \<Rightarrow> proc \<Rightarrow> bool \<times> string \<times> proc" where
  "collect_run env CmdStart p = StartFfrtStatistics env p"
| "collect_run env CmdStop p = StopFfrtStatistics env p"
| "collect_run env CmdGet p = GetFfrtStatistics env p"

text \<open>The answer of the library to the command that the operation sends it.\<close>

fun ffrt_accepts :: "env \<Rightarrow> collect_cmd \<Rightarrow> proc \<Rightarrow> bool" where
  "ffrt_accepts env CmdStart p =
     (ans_int env (trace (ClearFfrtStatisticsBufferLocked p) @ [E_FfrtDump DUMP_START_STAT]) = ERR_OK env)"
| "ffrt_accepts env CmdStop p = (ans_int env (trace p @ [E_FfrtDump DUMP_STOP_STAT]) = ERR_OK env)"
| "ffrt_accepts env CmdGet p = True"

lemma ClearBuffer_fields [simp]:
  "ffrtMetricBufferM (ClearFfrtStatisticsBufferLocked p) = False"
  "collectEnableM (ClearFfrtStatisticsBufferLocked p) = collectEnableM p"
  "handlerM (ClearFfrtStatisticsBufferLocked p) = None \<longleftrightarrow> handlerM p = None"
  by (simp_all add: ClearFfrtStatisticsBufferLocked_def RemoveTask_def Let_def split: option.split)

lemma PostTask_fields:
  "PostTask env n d m p = (r, m', q) \<Longrightarrow> ffrtMetricBufferM q = ffrtMetricBufferM p \<and> collectEnableM q = collectEnableM p"
  by (auto simp: PostTask_def query_def split: if_splits option.splits)

lemma PostTask_proj [simp]:
  "ffrtMetricBufferM (snd (snd (PostTask env n d m p))) = ffrtMetricBufferM p"
  "collectEnableM (snd (snd (PostTask env n d m p))) = collectEnableM p"
  by (simp_all add: PostTask_def query_def split: option.split)

lemma collect_run_spec:
  assumes "dumper_ok p" and "collect_run env c p = (r, msg, q)"
  shows "dumper_ok q \<and> (r, collection_of q) = collect_spec (ffrt_accepts env c p) c (collection_of p)"
  using assms
  by (cases c)
     (auto simp: StartFfrtStatistics_def StopFfrtStatistics_def GetFfrtStatistics_def collection_of_def dumper_ok_def asks
       Let_def case_prod_beta split: if_splits)

lemma ClearFfrtStatistics_spec:
  "dumper_ok (ClearFfrtStatistics env p) \<and> collection_of (ClearFfrtStatistics env p) = Empty"
  by (simp add: ClearFfrtStatistics_def collection_of_def dumper_ok_def asks Let_def)

section \<open>The numbers of the report\<close>

text \<open>The records the report covers: those before the first without a name, with a start not after the end.\<close>

definition reported :: "ffrt_stat list \<Rightarrow> ffrt_stat list" where
  "reported buffer = filter (\<lambda>st. startTime st \<le> endTime st)
     (takeWhile (\<lambda>st. taskName st \<noteq> []) (take COLLECT_FFRT_METRIC_MAX_SIZE buffer))"

definition duration_of :: "ffrt_stat \<Rightarrow> nat" where
  "duration_of st = unat (endTime st) - unat (startTime st)"

lemma unat_duration: "startTime st \<le> endTime st \<Longrightarrow> unat (endTime st - startTime st) = duration_of st"
  by (simp add: duration_of_def unat_sub)

lemma parse_stats_fold:
  "parse_stats env sts s = parse_stats env (filter (\<lambda>st. startTime st \<le> endTime st) (takeWhile (\<lambda>st. taskName st \<noteq> []) sts)) s"
  by (induction env sts s rule: parse_stats.induct) (auto simp: Let_def)

lemma unat_add_nowrap:
  fixes a b :: "64 word"
  shows "unat a + unat b < 2 ^ 64 \<Longrightarrow> unat (a + b) = unat a + unat b"
  by (simp add: unat_word_ariths)

lemma parse_stats_numbers:
  fixes env sts s
  assumes "\<forall>st \<in> set sts. taskName st \<noteq> [] \<and> startTime st \<le> endTime st"
    and "unat (ps_sumTime s) + sum_list (map duration_of sts) < 2 ^ 64" and "unat (ps_count s) + length sts < 2 ^ 64"
  defines "q \<equiv> parse_stats env sts s"
  shows "unat (ps_sumTime q) = unat (ps_sumTime s) + sum_list (map duration_of sts)"
    and "unat (ps_count q) = unat (ps_count s) + length sts"
    and "unat (ps_maxTime q) = fold max (map duration_of sts) (unat (ps_maxTime s))"
    and "unat (ps_minTime q) = fold min (map duration_of sts) (unat (ps_minTime s))"
proof -
  have mm: "unat (max a b) = max (unat a) (unat b)" "unat (min a b) = min (unat a) (unat b)" for a b :: "64 word"
    by (simp_all add: max_def min_def word_le_nat_alt)
  show "unat (ps_sumTime q) = unat (ps_sumTime s) + sum_list (map duration_of sts)"
    "unat (ps_count q) = unat (ps_count s) + length sts"
    "unat (ps_maxTime q) = fold max (map duration_of sts) (unat (ps_maxTime s))"
    "unat (ps_minTime q) = fold min (map duration_of sts) (unat (ps_minTime s))"
    using assms(1-3) unfolding q_def
    by (induction sts arbitrary: s)
       (simp_all add: Let_def not_less unat_duration unat_add_nowrap mm max.commute min.commute add.assoc not_le leD)
qed

lemma sum_list_bounds:
  fixes xs :: "nat list"
  assumes "xs \<noteq> []"
  shows "length xs * Min (set xs) \<le> sum_list xs" "sum_list xs \<le> length xs * Max (set xs)"
proof -
  have "\<forall>x \<in> set xs. m \<le> x \<Longrightarrow> length xs * m \<le> sum_list xs" for m by (induction xs) auto
  then show "length xs * Min (set xs) \<le> sum_list xs" by simp
  have "\<forall>x \<in> set xs. x \<le> m \<Longrightarrow> sum_list xs \<le> length xs * m" for m by (induction xs) auto
  then show "sum_list xs \<le> length xs * Max (set xs)" by simp
qed

lemma fold_max_nat:
  fixes xs :: "nat list"
  assumes "xs \<noteq> []"
  shows "fold max xs 0 = Max (set xs)"
proof (cases xs)
  case (Cons a ys)
  then show ?thesis using Max.set_eq_fold [of a ys] by simp
qed (use assms in simp)

lemma fold_min_nat:
  fixes xs :: "nat list"
  assumes "xs \<noteq> []" and "\<forall>x \<in> set xs. x \<le> b"
  shows "fold min xs b = Min (set xs)"
proof (cases xs)
  case (Cons a ys)
  then show ?thesis using assms(2) Min.set_eq_fold [of a ys] by (simp add: min_absorb1)
qed (use assms in simp)

lemma reported_facts:
  "\<forall>st \<in> set (reported buffer). taskName st \<noteq> [] \<and> startTime st \<le> endTime st" "length (reported buffer) \<le> 5000"
proof -
  show "\<forall>st \<in> set (reported buffer). taskName st \<noteq> [] \<and> startTime st \<le> endTime st"
    by (auto simp: reported_def dest: set_takeWhileD)
  show "length (reported buffer) \<le> 5000" unfolding reported_def COLLECT_FFRT_METRIC_MAX_SIZE_def
    by (rule order_trans [OF length_filter_le], rule order_trans [OF length_takeWhile_le]) simp
qed

section \<open>Properties\<close>

fun cmd_no :: "stat_cmds \<Rightarrow> collect_cmd \<Rightarrow> int" where
  "cmd_no K CmdStart = FFRT_STAT_CMD_START K"
| "cmd_no K CmdStop = FFRT_STAT_CMD_STOP K"
| "cmd_no K CmdGet = FFRT_STAT_CMD_GET K"

text \<open>
  C31. The collection of FFRT statistics follows its protocol: with distinct command numbers, each command answers and moves as the
  specification says (a start is refused while a collection runs, only a running collection can be stopped, only a stopped one can be read,
  and reading or a refusal of the library leaves nothing collected), and while a collection runs its buffer and its handler exist.
\<close>

theorem collection_protocol:
  assumes "dumper_ok p" and "distinct [FFRT_STAT_CMD_START K, FFRT_STAT_CMD_STOP K, FFRT_STAT_CMD_GET K]"
    and "CollectFfrtStatistics env K (cmd_no K c) p = (r, msg, q)"
  shows "dumper_ok q \<and> (r, collection_of q) = collect_spec (ffrt_accepts env c p) c (collection_of p)
     \<and> collection_of (ClearFfrtStatistics env q) = Empty"
proof -
  obtain r' m q' where run: "collect_run env c p = (r', m, q')" by (cases "collect_run env c p")
  then have "r' = r" "q' = q" using assms(2,3) by (cases c; auto simp: CollectFfrtStatistics_def)+
  then have "collect_run env c p = (r, m, q)" using run by simp
  then show ?thesis using collect_run_spec [OF assms(1)] ClearFfrtStatistics_spec by blast
qed

definition demo_cmds :: stat_cmds where
  "demo_cmds = \<lparr>IPC_STAT_CMD_START = 0, IPC_STAT_CMD_STOP = 1, IPC_STAT_CMD_GET = 2, IPC_STAT_CMD_MAX = 3,
     FFRT_STAT_CMD_START = 0, FFRT_STAT_CMD_STOP = 1, FFRT_STAT_CMD_GET = 2, FFRT_STAT_CMD_MAX = 3\<rparr>"

theorem collection_protocol_witness:
  "collection_of (snd (snd (CollectFfrtStatistics quiet_env demo_cmds 0 (LocalAbilityManager (\<lambda>_. SystemAbility 7 False))))) = Collecting"
proof -
  let ?p = "LocalAbilityManager (\<lambda>_. SystemAbility 7 False)"
  obtain r msg q where c: "CollectFfrtStatistics quiet_env demo_cmds (cmd_no demo_cmds CmdStart) ?p = (r, msg, q)"
    by (cases "CollectFfrtStatistics quiet_env demo_cmds (cmd_no demo_cmds CmdStart) ?p")
  have "dumper_ok ?p" "collection_of ?p = Empty" by (simp_all add: dumper_ok_def collection_of_def LocalAbilityManager_def)
  moreover have "ffrt_accepts quiet_env CmdStart ?p" by (simp add: quiet_env_def)
  ultimately have "collection_of q = Collecting"
    using collection_protocol [OF _ _ c] by (simp add: demo_cmds_def)
  then show ?thesis using c by (simp add: demo_cmds_def)
qed

text \<open>
  C32. The report of FFRT statistics: over the records before the first unnamed one, of at most 5000, and without those that end before
  they start, it gives the sum, the maximum, the minimum, the average (rounded down) and the number of the
  durations, all zero if there is none, as long as the sum fits into 64 bits; the average lies between the minimum and the maximum.
\<close>

theorem ffrt_report_numbers:
  assumes "sum_list (map duration_of (reported buffer)) < 2 ^ 64"
  shows "case stat_numbers (parse_stats env (take COLLECT_FFRT_METRIC_MAX_SIZE buffer) parse_init) of
     (sumTime, maxTime, minTime, avgTime, count) \<Rightarrow>
       (let ds = map duration_of (reported buffer) in
        unat sumTime = sum_list ds \<and> unat count = length ds
        \<and> (if ds = [] then maxTime = 0 \<and> minTime = 0 \<and> avgTime = 0
           else unat maxTime = Max (set ds) \<and> unat minTime = Min (set ds) \<and> unat avgTime = sum_list ds div length ds
                \<and> minTime \<le> avgTime \<and> avgTime \<le> maxTime))"
proof -
  let ?sts = "reported buffer"
  let ?ds = "map duration_of ?sts"
  let ?q = "parse_stats env ?sts parse_init"
  have q: "parse_stats env (take COLLECT_FFRT_METRIC_MAX_SIZE buffer) parse_init = ?q"
    using parse_stats_fold [of env "take COLLECT_FFRT_METRIC_MAX_SIZE buffer" parse_init] by (simp add: reported_def)
  have init: "unat (ps_sumTime parse_init) = 0" "unat (ps_count parse_init) = 0" "unat (ps_maxTime parse_init) = 0"
      "unat (ps_minTime parse_init) = 2 ^ 64 - 1"
    by (simp_all add: parse_init_def unsigned_minus_1_eq_mask mask_eq_exp_minus_1)
  have N: "unat (ps_sumTime ?q) = sum_list ?ds" "unat (ps_count ?q) = length ?sts"
      "unat (ps_maxTime ?q) = fold max ?ds 0" "unat (ps_minTime ?q) = fold min ?ds (2 ^ 64 - 1)"
    using parse_stats_numbers [OF reported_facts(1), of parse_init buffer env] assms reported_facts(2) [of buffer]
    by (simp_all add: init)
  show ?thesis
  proof (cases "?sts = []")
    case True
    then show ?thesis unfolding q by (simp add: stat_numbers_def parse_init_def)
  next
    case False
    have "duration_of st \<le> 2 ^ 64 - 1" for st
      using unsigned_less [of "endTime st", where 'a = nat] by (simp add: duration_of_def)
    then have b: "\<forall>d \<in> set ?ds. d \<le> 2 ^ 64 - 1" by simp
    have mx: "unat (ps_maxTime ?q) = Max (set ?ds)" and mn: "unat (ps_minTime ?q) = Min (set ?ds)"
      using N(3,4) False fold_max_nat [of ?ds] fold_min_nat [OF _ b] by simp_all
    have av: "unat (ps_sumTime ?q div ps_count ?q) = sum_list ?ds div length ?ds"
      using N(1,2) by (simp add: unat_div)
    have l: "0 < length ?ds" "?ds \<noteq> []" using False by auto
    have c: "ps_count ?q \<noteq> 0" using N(2) False by (metis length_0_conv unsigned_0)
    have "Min (set ?ds) \<le> sum_list ?ds div length ?ds"
      using div_le_mono [OF sum_list_bounds(1) [OF l(2)], of "length ?ds"] l(1) by simp
    moreover have "sum_list ?ds div length ?ds \<le> Max (set ?ds)"
      using div_le_mono [OF sum_list_bounds(2) [OF l(2)], of "length ?ds"] l(1) by simp
    ultimately show ?thesis
      unfolding q using c False N(1,2) mx mn av by (simp add: stat_numbers_def word_le_nat_alt)
  qed
qed

theorem ffrt_report_numbers_witness:
  "stat_numbers (parse_stats quiet_env (take COLLECT_FFRT_METRIC_MAX_SIZE
      [\<lparr>taskName = ''a'', startTime = 5, endTime = 9\<rparr>, \<lparr>taskName = ''b'', startTime = 7, endTime = 6\<rparr>,
       \<lparr>taskName = [], startTime = 0, endTime = 100\<rparr>]) parse_init) = (4, 4, 4, 4, 1)"
proof -
  let ?b = "[\<lparr>taskName = ''a'', startTime = 5, endTime = 9\<rparr>, \<lparr>taskName = ''b'', startTime = 7, endTime = 6\<rparr>,
       \<lparr>taskName = [], startTime = 0, endTime = 100\<rparr>]"
  have r: "map duration_of (reported ?b) = [4]"
    by (simp add: reported_def duration_of_def COLLECT_FFRT_METRIC_MAX_SIZE_def word_le_nat_alt)
  have n: "unat w = 4 \<Longrightarrow> w = 4" "unat w = 1 \<Longrightarrow> w = 1" for w :: "64 word"
    by (drule arg_cong [of _ _ "of_nat :: nat \<Rightarrow> 64 word"], simp)+
  show ?thesis using ffrt_report_numbers [of ?b quiet_env] r by (auto simp: case_prod_beta Let_def prod_eq_iff n)
qed

end
