(* ===== verification/Lam_Stub.thy ===== *)
theory Lam_Stub
  imports Lam_Boot Lam_Dumper
begin

text \<open>
  Remote requests: \<open>services/safwk/src/local_ability_manager_stub.cpp\<close> and its header. \<open>OnRemoteRequest\<close> checks the interface token
  and the permission of the caller, looks the code up in \<open>memberFuncMap_\<close> and runs a handler that reads the
  arguments from the parcel, checks them and calls the manager.

  The message parcel is a parameter: \<open>message_parcel\<close> has the operations the handlers use on a type of parcels. The transaction codes and
  the interface token are declared in a header outside the repository and are parameters as well
  (\<open>stub_consts\<close>). A code without a handler goes to the base class, which is outside the repository; what it may write to the
  reply is not modelled.
\<close>

section \<open>Parameters\<close>

record 'p message_parcel =
  ReadInterfaceToken :: "'p \<Rightarrow> u16string \<times> 'p"
  ReadInt32 :: "'p \<Rightarrow> int option \<times> 'p"
  ReadString :: "'p \<Rightarrow> string option \<times> 'p"
  ReadFileDescriptor :: "'p \<Rightarrow> int \<times> 'p"
  ReadString16Vector :: "'p \<Rightarrow> u16string list option \<times> 'p"
  WriteBool :: "bool \<Rightarrow> 'p \<Rightarrow> bool \<times> 'p"
  WriteInt32 :: "int \<Rightarrow> 'p \<Rightarrow> bool \<times> 'p"
  WriteString :: "string \<Rightarrow> 'p \<Rightarrow> bool \<times> 'p"
  extension_reply :: "event list \<Rightarrow> 'p \<Rightarrow> 'p"

record stub_consts =
  START_ABILITY_TRANSACTION :: "32 word"
  STOP_ABILITY_TRANSACTION :: "32 word"
  ACTIVE_ABILITY_TRANSACTION :: "32 word"
  IDLE_ABILITY_TRANSACTION :: "32 word"
  SEND_STRATEGY_TO_SA_TRANSACTION :: "32 word"
  IPC_STAT_CMD_TRANSACTION :: "32 word"
  FFRT_DUMPER_TRANSACTION :: "32 word"
  SYSTEM_ABILITY_EXT_TRANSACTION :: "32 word"
  FFRT_STAT_CMD_TRANSACTION :: "32 word"
  SERVICE_CONTROL_CMD_TRANSACTION :: "32 word"
  LOCAL_ABILITY_MANAGER_INTERFACE_TOKEN :: u16string
  stat_cmds_of :: stat_cmds

section \<open>The function map\<close>

datatype stub_func = LocalStartAbility | LocalStopAbility | LocalActiveAbility | LocalIdleAbility | LocalSendStrategyToSA
  | LocalIpcStatCmdProc | LocalFfrtDumperProc | LocalSystemAbilityExtProc | LocalFfrtStatCmdProc | LocalServiceControlCmd

definition LocalAbilityManagerStub :: "stub_consts \<Rightarrow> (32 word, stub_func) smap" where
  "LocalAbilityManagerStub C =
     fold (\<lambda>(code, f). smap_assign code f)
       [(START_ABILITY_TRANSACTION C, LocalStartAbility),
        (STOP_ABILITY_TRANSACTION C, LocalStopAbility),
        (ACTIVE_ABILITY_TRANSACTION C, LocalActiveAbility),
        (IDLE_ABILITY_TRANSACTION C, LocalIdleAbility),
        (SEND_STRATEGY_TO_SA_TRANSACTION C, LocalSendStrategyToSA),
        (IPC_STAT_CMD_TRANSACTION C, LocalIpcStatCmdProc),
        (FFRT_DUMPER_TRANSACTION C, LocalFfrtDumperProc),
        (SYSTEM_ABILITY_EXT_TRANSACTION C, LocalSystemAbilityExtProc),
        (FFRT_STAT_CMD_TRANSACTION C, LocalFfrtStatCmdProc),
        (SERVICE_CONTROL_CMD_TRANSACTION C, LocalServiceControlCmd)] []"

section \<open>Handlers\<close>

text \<open>\<open>ReadString()\<close> without an argument gives the empty string when it fails.\<close>

definition read_string :: "'p message_parcel \<Rightarrow> 'p \<Rightarrow> string \<times> 'p" where
  "read_string P d = (case ReadString P d of (None, d) \<Rightarrow> ([], d) | (Some s, d) \<Rightarrow> (s, d))"

definition StartAbilityInner :: "env \<Rightarrow> stub_consts \<Rightarrow> 'p message_parcel \<Rightarrow> 'p \<Rightarrow> 'p \<Rightarrow> proc \<Rightarrow> int \<times> 'p \<times> proc" where
  "StartAbilityInner env C P d reply p =
     (case ReadInt32 P d of
        (None, d) \<Rightarrow> (ERR_NULL_OBJECT env, reply, p)
      | (Some saId, d) \<Rightarrow>
          if \<not> CheckInputSysAbilityId env saId then (ERR_NULL_OBJECT env, reply, p)
          else let (eventStr, d) = read_string P d in
               if eventStr = [] then (ERR_NULL_OBJECT env, reply, p)
               else let (result, p) = StartAbility env saId eventStr p in (ERR_NONE env, reply, p))"

definition StopAbilityInner :: "env \<Rightarrow> stub_consts \<Rightarrow> 'p message_parcel \<Rightarrow> 'p \<Rightarrow> 'p \<Rightarrow> proc \<Rightarrow> int \<times> 'p \<times> proc" where
  "StopAbilityInner env C P d reply p =
     (case ReadInt32 P d of
        (None, d) \<Rightarrow> (ERR_NULL_OBJECT env, reply, p)
      | (Some saId, d) \<Rightarrow>
          if \<not> CheckInputSysAbilityId env saId then (ERR_NULL_OBJECT env, reply, p)
          else let (eventStr, d) = read_string P d in
               if eventStr = [] then (ERR_NULL_OBJECT env, reply, p)
               else let (result, p) = StopAbility env saId eventStr p in (ERR_NONE env, reply, p))"

definition ActiveAbilityInner :: "env \<Rightarrow> stub_consts \<Rightarrow> 'p message_parcel \<Rightarrow> 'p \<Rightarrow> 'p \<Rightarrow> proc \<Rightarrow> int \<times> 'p \<times> proc" where
  "ActiveAbilityInner env C P d reply p =
     (case ReadInt32 P d of
        (None, d) \<Rightarrow> (ERR_NULL_OBJECT env, reply, p)
      | (Some saId, d) \<Rightarrow>
          if \<not> CheckInputSysAbilityId env saId then (ERR_NULL_OBJECT env, reply, p)
          else let (str, d) = read_string P d;
                   activeReason = StringToJsonObj env str;
                   (result, p) = ActiveAbility env saId activeReason p;
                   (written, reply) = WriteBool P result reply
               in if \<not> written then (ERR_NULL_OBJECT env, reply, p) else (ERR_NONE env, reply, p))"

definition IdleAbilityInner :: "env \<Rightarrow> stub_consts \<Rightarrow> 'p message_parcel \<Rightarrow> 'p \<Rightarrow> 'p \<Rightarrow> proc \<Rightarrow> int \<times> 'p \<times> proc" where
  "IdleAbilityInner env C P d reply p =
     (case ReadInt32 P d of
        (None, d) \<Rightarrow> (ERR_NULL_OBJECT env, reply, p)
      | (Some saId, d) \<Rightarrow>
          if \<not> CheckInputSysAbilityId env saId then (ERR_NULL_OBJECT env, reply, p)
          else let (str, d) = read_string P d;
                   idleReason = StringToJsonObj env str;
                   (result, delayTime, p) = IdleAbility env saId idleReason 0 p;
                   (written, reply) = WriteBool P result reply
               in if \<not> written then (ERR_NULL_OBJECT env, reply, p)
                  else let (written, reply) = WriteInt32 P delayTime reply
                       in if \<not> written then (ERR_NULL_OBJECT env, reply, p) else (ERR_NONE env, reply, p))"

definition SendStrategyToSAInner :: "env \<Rightarrow> stub_consts \<Rightarrow> 'p message_parcel \<Rightarrow> 'p \<Rightarrow> 'p \<Rightarrow> proc \<Rightarrow> int \<times> 'p \<times> proc" where
  "SendStrategyToSAInner env C P d reply p =
     (case ReadInt32 P d of
        (None, d) \<Rightarrow> (ERR_NULL_OBJECT env, reply, p)
      | (Some type, d) \<Rightarrow>
          (case ReadInt32 P d of
             (None, d) \<Rightarrow> (ERR_NULL_OBJECT env, reply, p)
           | (Some saId, d) \<Rightarrow>
               if \<not> CheckInputSysAbilityId env saId then (ERR_NULL_OBJECT env, reply, p)
               else case ReadInt32 P d of
                 (None, d) \<Rightarrow> (ERR_NULL_OBJECT env, reply, p)
               | (Some level, d) \<Rightarrow>
                   (case ReadString P d of
                      (None, d) \<Rightarrow> (ERR_NULL_OBJECT env, reply, p)
                    | (Some aciton, d) \<Rightarrow>
                        let (result, aciton, p) = SendStrategyToSA env type saId level aciton p
                        in if \<not> result then (ERR_NULL_OBJECT env, reply, p) else (ERR_NONE env, reply, p))))"

definition IpcStatCmdProcInner :: "env \<Rightarrow> stub_consts \<Rightarrow> 'p message_parcel \<Rightarrow> 'p \<Rightarrow> 'p \<Rightarrow> proc \<Rightarrow> int \<times> 'p \<times> proc" where
  "IpcStatCmdProcInner env C P d reply p =
     (let (fd, d) = ReadFileDescriptor P d in
      if fd < 0 then (ERR_NULL_OBJECT env, reply, p)
      else case ReadInt32 P d of
        (None, d) \<Rightarrow> (ERR_NULL_OBJECT env, reply, emit (E_Close fd) p)
      | (Some cmd, d) \<Rightarrow>
          let (result, p) = IpcStatCmdProc env (stat_cmds_of C) fd cmd p;
              (written, reply) = WriteBool P result reply
          in if \<not> written then (ERR_NULL_OBJECT env, reply, emit (E_Close fd) p)
             else (ERR_NONE env, reply, emit (E_Close fd) p))"

definition FfrtStatCmdProcInner :: "env \<Rightarrow> stub_consts \<Rightarrow> 'p message_parcel \<Rightarrow> 'p \<Rightarrow> 'p \<Rightarrow> proc \<Rightarrow> int \<times> 'p \<times> proc" where
  "FfrtStatCmdProcInner env C P d reply p =
     (let (fd, d) = ReadFileDescriptor P d in
      if fd < 0 then (ERR_NULL_OBJECT env, reply, p)
      else case ReadInt32 P d of
        (None, d) \<Rightarrow> (ERR_NULL_OBJECT env, reply, emit (E_Close fd) p)
      | (Some cmd, d) \<Rightarrow>
          let (result, p) = FfrtStatCmdProc env (stat_cmds_of C) fd cmd p;
              (written, reply) = WriteBool P result reply
          in if \<not> written then (ERR_NULL_OBJECT env, reply, emit (E_Close fd) p)
             else (ERR_NONE env, reply, emit (E_Close fd) p))"

definition FfrtDumperProcInner :: "env \<Rightarrow> stub_consts \<Rightarrow> 'p message_parcel \<Rightarrow> 'p \<Rightarrow> 'p \<Rightarrow> proc \<Rightarrow> int \<times> 'p \<times> proc" where
  "FfrtDumperProcInner env C P d reply p =
     (let (result, ffrtDumperInfo, p) = FfrtDumperProc env [] p;
          (written, reply) = WriteString P ffrtDumperInfo reply
      in if \<not> written then (ERR_NULL_OBJECT env, reply, p) else (ERR_NONE env, reply, p))"

text \<open>The extension is handed both parcels; what it writes to the reply is \<open>extension_reply\<close>.\<close>

definition SystemAbilityExtProcInner :: "env \<Rightarrow> stub_consts \<Rightarrow> 'p message_parcel \<Rightarrow> 'p \<Rightarrow> 'p \<Rightarrow> proc \<Rightarrow> int \<times> 'p \<times> proc" where
  "SystemAbilityExtProcInner env C P d reply p =
     (case ReadInt32 P d of
        (None, d) \<Rightarrow> (INVALID_DATA env, reply, p)
      | (Some saId, d) \<Rightarrow>
          if \<not> CheckInputSysAbilityId env saId then (INVALID_DATA env, reply, p)
          else let (extension, d) = read_string P d in
               if extension = [] then (INVALID_DATA env, reply, p)
               else let (result, q) = SystemAbilityExtProc env extension saId (Some 0) False p;
                        reply = (if GetAbility saId p = None then reply else extension_reply P (trace q) reply)
                    in if result \<noteq> ERR_NONE env then (result, reply, q) else (ERR_NONE env, reply, q))"

definition ServiceControlCmdInner :: "env \<Rightarrow> stub_consts \<Rightarrow> 'p message_parcel \<Rightarrow> 'p \<Rightarrow> 'p \<Rightarrow> proc \<Rightarrow> int \<times> 'p \<times> proc" where
  "ServiceControlCmdInner env C P d reply p =
     (case ReadInt32 P d of
        (None, d) \<Rightarrow> (INVALID_DATA env, reply, p)
      | (Some systemAbilityId, d) \<Rightarrow>
          if \<not> CheckInputSysAbilityId env systemAbilityId then (INVALID_DATA env, reply, p)
          else let (fd, d) = ReadFileDescriptor P d in
               if fd < 0 then (INVALID_DATA env, reply, p)
               else case ReadString16Vector P d of
                 (None, d) \<Rightarrow> (INVALID_DATA env, reply, emit (E_Close fd) p)
               | (Some args, d) \<Rightarrow>
                   let (result, p) = ServiceControlCmd env fd systemAbilityId args p
                   in (result, reply, emit (E_Close fd) p))"

section \<open>Dispatch\<close>

definition PERMISSION_EXT_TRANSACTION :: string where
  "PERMISSION_EXT_TRANSACTION = ''ohos.permission.ACCESS_EXT_SYSTEM_ABILITY''"

definition PERMISSION_MANAGE :: string where
  "PERMISSION_MANAGE = ''ohos.permission.MANAGE_SYSTEM_ABILITY''"

definition PERMISSION_SVC :: string where
  "PERMISSION_SVC = ''ohos.permission.CONTROL_SVC_CMD''"

definition permissionToCheck :: "stub_consts \<Rightarrow> 32 word \<Rightarrow> string" where
  "permissionToCheck C code =
     (if code = SYSTEM_ABILITY_EXT_TRANSACTION C then PERMISSION_EXT_TRANSACTION
      else if code = SERVICE_CONTROL_CMD_TRANSACTION C then PERMISSION_SVC
      else PERMISSION_MANAGE)"

definition CheckPermission :: "env \<Rightarrow> stub_consts \<Rightarrow> 32 word \<Rightarrow> proc \<Rightarrow> bool \<times> proc" where
  "CheckPermission env C code p =
     (let (ret, p) = ask_int env (E_VerifyAccessToken (permissionToCheck C code)) p
      in (ret = PERMISSION_GRANTED env, p))"

definition EnforceInterceToken :: "stub_consts \<Rightarrow> 'p message_parcel \<Rightarrow> 'p \<Rightarrow> bool \<times> 'p" where
  "EnforceInterceToken C P d =
     (let (interfaceToken, d) = ReadInterfaceToken P d
      in (interfaceToken = LOCAL_ABILITY_MANAGER_INTERFACE_TOKEN C, d))"

fun run_func :: "stub_func \<Rightarrow> env \<Rightarrow> stub_consts \<Rightarrow> 'p message_parcel \<Rightarrow> 'p \<Rightarrow> 'p \<Rightarrow> proc \<Rightarrow> int \<times> 'p \<times> proc" where
  "run_func LocalStartAbility = StartAbilityInner"
| "run_func LocalStopAbility = StopAbilityInner"
| "run_func LocalActiveAbility = ActiveAbilityInner"
| "run_func LocalIdleAbility = IdleAbilityInner"
| "run_func LocalSendStrategyToSA = SendStrategyToSAInner"
| "run_func LocalIpcStatCmdProc = IpcStatCmdProcInner"
| "run_func LocalFfrtDumperProc = FfrtDumperProcInner"
| "run_func LocalSystemAbilityExtProc = SystemAbilityExtProcInner"
| "run_func LocalFfrtStatCmdProc = FfrtStatCmdProcInner"
| "run_func LocalServiceControlCmd = ServiceControlCmdInner"

definition OnRemoteRequest :: "env \<Rightarrow> stub_consts \<Rightarrow> 'p message_parcel \<Rightarrow> 32 word \<Rightarrow> 'p \<Rightarrow> 'p \<Rightarrow> proc \<Rightarrow> int \<times> 'p \<times> proc" where
  "OnRemoteRequest env C P code d reply p =
     (let (token, d) = EnforceInterceToken C P d in
      if \<not> token then (ERR_PERMISSION_DENIED env, reply, p)
      else let (granted, p) = CheckPermission env C code p in
        if \<not> granted then (ERR_PERMISSION_DENIED env, reply, p)
        else case smap_find (LocalAbilityManagerStub C) code of
               Some f \<Rightarrow> run_func f env C P d reply p
             | None \<Rightarrow> (let (ret, p) = ask_int env (E_BaseOnRemoteRequest code) p in (ret, reply, p)))"

section \<open>Descriptors\<close>

fun closed :: "event list \<Rightarrow> int list" where
  "closed [] = []"
| "closed (E_Close fd # evs) = fd # closed evs"
| "closed (_ # evs) = closed evs"

lemma closed_append [simp]: "closed (xs @ ys) = closed xs @ closed ys"
  by (induction xs rule: closed.induct) simp_all

text \<open>\<open>closing fds p q\<close>: what happened between \<open>p\<close> and \<open>q\<close> closed exactly the descriptors \<open>fds\<close>.\<close>

definition closing :: "int list \<Rightarrow> proc \<Rightarrow> proc \<Rightarrow> bool" where
  "closing fds p q \<longleftrightarrow> (\<exists>evs. trace q = trace p @ evs \<and> closed evs = fds)"

lemma closing_refl [simp]: "closing [] p p"
  by (simp add: closing_def)

lemma closing_same: "trace q = trace p \<Longrightarrow> closing [] p q"
  by (simp add: closing_def)

lemma closing_trans: "closing xs p q \<Longrightarrow> closing ys q r \<Longrightarrow> closing (xs @ ys) p r"
  by (auto simp: closing_def)

lemma closing_trans0: "closing [] p q \<Longrightarrow> closing ys q r \<Longrightarrow> closing ys p r"
  using closing_trans [of "[]"] by simp

lemma closing_emit: "closing (closed [ev]) p (emit ev p)"
  by (simp add: closing_def)

lemma closing_update:
  "trace q' = trace q \<Longrightarrow> closing fds p q \<Longrightarrow> closing fds p q'"
  by (simp add: closing_def)

lemma closing_foreign: "silent env \<Longrightarrow> closing (closed [ev]) p (run_foreign env ev p)"
  by (simp add: run_foreign_def silent_def closing_emit)

lemma closing_extra: "closing [] p (snd (GetOnDemandReasonExtraData env r p))"
proof -
  obtain r' q where q: "GetOnDemandReasonExtraData env r p = (r', q)" by force
  then obtain evs where "q = p\<lparr>trace := trace p @ evs\<rparr>"
      "set evs \<subseteq> {E_GetSystemAbilityManager, E_GetOnDemandReasonExtraData (extraDataIdM r), E_ReadParcelable}"
    using GetOnDemandReasonExtraData_frame(1) by blast
  moreover from this(2) have "closed evs = []" by (induction evs rule: closed.induct) auto
  ultimately show ?thesis using q by (simp add: closing_def)
qed

lemma closing_callback:
  assumes "silent env" and "closed [ev] = []" and "trace q = trace (run_foreign env ev (snd (GetOnDemandReasonExtraData env r p)))"
  shows "closing [] p q"
  using closing_trans0 [OF closing_extra closing_foreign [OF assms(1), of ev]] assms(2,3) by (metis closing_update)

lemma closing_Active: "silent env \<Longrightarrow> closing [] p (Active env a r p)"
  by (cases "abilityStateM (heap p a) = IDLE")
     (auto simp: Active_def Let_def case_prod_beta
       intro!: closing_callback [of env "E_OnActive a (fst (GetOnDemandReasonExtraData env r p))" _ r p])

lemma closing_Idle: "silent env \<Longrightarrow> closing [] p (snd (Idle env a r p))"
  by (cases "abilityStateM (heap p a) = ACTIVE")
     (auto simp: Idle_def Let_def case_prod_beta
       intro!: closing_callback [of env "E_OnIdle a (fst (GetOnDemandReasonExtraData env r p))" _ r p])

lemma closing_call: "silent env \<Longrightarrow> closing (closed [ev]) p (snd (call env f ev p))"
  by (simp add: call_def closing_foreign)

lemma closing_fold:
  assumes "\<And>x rp. closing [] (snd rp) (snd (f x rp))"
  shows "closing [] (snd rp) (snd (fold f xs rp))"
proof (induction xs arbitrary: rp)
  case (Cons x xs)
  show ?case using closing_trans0 [OF assms [of rp x] Cons.IH] by simp
qed simp

lemma closing_asks [simp]:
  "closing fds p q \<Longrightarrow> closed [ev] = [] \<Longrightarrow> closing fds p (emit ev q)"
  using closing_trans [of fds p q "[]" "emit ev q"] closing_emit [of ev q] by simp

lemma closing_interface_report: "closing [] (snd rp) (snd (interface_report env pid intf rp))"
  by (cases rp, cases intf) (simp add: interface_report_def asks Let_def)

lemma closing_process_report: "closing [] (snd rp) (snd (process_report env pid rp))"
proof -
  obtain r p where rp: "rp = (r, p)" by (cases rp)
  let ?q = "emit (E_IpcDescriptorCodes pid) (emit (E_IpcCost pid) (emit (E_IpcCount pid) p))"
  have 1: "closing [] p ?q" by simp
  have 2: "closing [] ?q (snd (fold (interface_report env pid) ys (x, ?q)))" for ys x
    using closing_fold [of "interface_report env pid" "(x, ?q)" ys] closing_interface_report by simp
  show ?thesis
    by (simp only: rp process_report_def Let_def case_prod_beta ask_int_def query_def fst_conv snd_conv)
       (rule closing_trans0 [OF 1 2])
qed

lemma closing_GetIpcStatistics: "closing [] p (snd (snd (GetIpcStatistics env r p)))"
proof -
  let ?q = "emit E_IpcPids (emit E_IpcTotalCost (emit E_IpcTotalCount p))"
  have 1: "closing [] p ?q" by simp
  have 2: "closing [] ?q (snd (fold (process_report env) ys (x, ?q)))" for ys x
    using closing_fold [of "process_report env" "(x, ?q)" ys] closing_process_report by simp
  show ?thesis
    by (simp only: GetIpcStatistics_def Let_def case_prod_beta ask_int_def query_def fst_conv snd_conv)
       (rule closing_trans0 [OF 1 2])
qed

lemma closing_IpcStat: "closing [] p (snd (IpcStatCmdProc env K fd cmd p))"
  using closing_GetIpcStatistics [of p env "[]"]
  by (simp add: IpcStatCmdProc_def StartIpcStatistics_def StopIpcStatistics_def asks Let_def case_prod_beta)

lemma closing_ClearBuffer: "closing [] p (ClearFfrtStatisticsBufferLocked p)"
  by (auto simp: ClearFfrtStatisticsBufferLocked_def RemoveTask_def Let_def closing_def split: option.split)

lemma closing_PostTask: "closing [] p (snd (snd (PostTask env n t m p)))"
  by (simp add: PostTask_def query_def Let_def split: option.split)

lemma closing_StartFfrt: "closing [] p (snd (snd (StartFfrtStatistics env p)))"
proof -
  let ?q = "emit (E_FfrtDump DUMP_START_STAT) ((ClearFfrtStatisticsBufferLocked p)\<lparr>ffrtMetricBufferM := True\<rparr>)"
  have "closing [] p ((ClearFfrtStatisticsBufferLocked p)\<lparr>ffrtMetricBufferM := True\<rparr>)"
    by (rule closing_update [OF _ closing_ClearBuffer [of p]]) simp
  then have q: "closing [] p ?q" by simp
  let ?q1 = "?q\<lparr>collectEnableM := True\<rparr>"
  have "closing [] p ?q1" by (rule closing_update [OF _ q]) simp
  then have "closing [] p (snd (snd (PostTask env n t m ?q1)))" for n t m by (rule closing_trans0 [OF _ closing_PostTask])
  then have 1: "closing [] p ((snd (snd (PostTask env n t m ?q1)))\<lparr>handlerM := h\<rparr>)" for n t m h
    by (rule closing_update [rotated]) simp
  have 2: "closing [] p (ClearFfrtStatisticsBufferLocked ?q)" by (rule closing_trans0 [OF q closing_ClearBuffer])
  show ?thesis using 1 2 by (simp add: StartFfrtStatistics_def ask_int_def Let_def case_prod_beta)
qed

lemma closing_StopFfrt: "closing [] p (snd (snd (StopFfrtStatistics env p)))"
proof -
  let ?q = "emit (E_FfrtDump DUMP_STOP_STAT) (p\<lparr>collectEnableM := False\<rparr>)"
  have q: "closing [] p ?q" by (rule closing_asks) (simp_all add: closing_same)
  then show ?thesis
    using closing_trans0 [OF q closing_ClearBuffer] by (simp add: StopFfrtStatistics_def ask_int_def Let_def case_prod_beta)
qed

lemma closing_GetFfrt: "closing [] p (snd (snd (GetFfrtStatistics env p)))"
proof -
  have "closing [] p (ClearFfrtStatisticsBufferLocked (emit E_FfrtReadBuffer p))"
    by (rule closing_trans0 [OF _ closing_ClearBuffer]) simp
  then have "closing [] p ((ClearFfrtStatisticsBufferLocked (emit E_FfrtReadBuffer p))\<lparr>handlerM := None\<rparr>)"
    by (rule closing_update [rotated]) simp
  then show ?thesis by (simp add: GetFfrtStatistics_def query_def Let_def case_prod_beta)
qed

lemma closing_FfrtStat: "closing [] p (snd (FfrtStatCmdProc env K fd cmd p))"
proof -
  have "closing [] p (snd (snd (CollectFfrtStatistics env K cmd p)))"
    by (simp add: CollectFfrtStatistics_def Let_def case_prod_beta closing_StartFfrt closing_StopFfrt closing_GetFfrt)
  then show ?thesis by (simp add: FfrtStatCmdProc_def ask_bool_def Let_def case_prod_beta)
qed

lemma closing_FfrtDumper: "closing [] p (snd (snd (FfrtDumperProc env s p)))"
  by (simp add: FfrtDumperProc_def asks Let_def case_prod_beta)

lemma closing_requests:
  "closing [] p (snd (StartAbility env i s p))"
  "closing [] p (snd (StopAbility env i s p))"
  "silent env \<Longrightarrow> closing [] p (snd (ActiveAbility env i j p))"
  "silent env \<Longrightarrow> closing [] p (snd (snd (IdleAbility env i j t p)))"
  "silent env \<Longrightarrow> closing [] p (snd (snd (SendStrategyToSA env ty i l ac p)))"
  "silent env \<Longrightarrow> closing [] p (snd (SystemAbilityExtProc env e i cb b p))"
  "silent env \<Longrightarrow> closing [] p (snd (ServiceControlCmd env fd i args p))"
proof -
  show "closing [] p (snd (StartAbility env i s p))" "closing [] p (snd (StopAbility env i s p))"
    by (simp_all add: closing_same StartAbility_def StopAbility_def SetStartReason_def SetStopReason_def Let_def)
  show "silent env \<Longrightarrow> closing [] p (snd (ActiveAbility env i j p))"
    by (simp add: ActiveAbility_def closing_Active split: option.split)
  show "silent env \<Longrightarrow> closing [] p (snd (snd (IdleAbility env i j t p)))"
    by (simp add: IdleAbility_def closing_Idle Let_def case_prod_beta split: option.split)
  show "silent env \<Longrightarrow> closing [] p (snd (snd (SendStrategyToSA env ty i l ac p)))"
    using closing_call [of env "E_OnDeviceLevelChanged _ ty l ac" p "ans_str env"]
    by (simp add: SendStrategyToSA_def case_prod_beta split: option.split)
  show "silent env \<Longrightarrow> closing [] p (snd (SystemAbilityExtProc env e i cb b p))"
    using closing_call [of env "E_OnExtension _ e" p "ans_int env"]
    by (simp add: SystemAbilityExtProc_def split: option.split)
  show "silent env \<Longrightarrow> closing [] p (snd (ServiceControlCmd env fd i args p))"
    using closing_call [of env "E_OnSvcCmd _ fd args" p "ans_int env"]
    by (simp add: ServiceControlCmd_def split: option.split)
qed

text \<open>The descriptors a handler takes out of the parcel.\<close>

definition taken :: "env \<Rightarrow> 'p message_parcel \<Rightarrow> stub_func \<Rightarrow> 'p \<Rightarrow> int list" where
  "taken env P f d = filter (\<lambda>fd. 0 \<le> fd)
     (case f of
        LocalIpcStatCmdProc \<Rightarrow> [fst (ReadFileDescriptor P d)]
      | LocalFfrtStatCmdProc \<Rightarrow> [fst (ReadFileDescriptor P d)]
      | LocalServiceControlCmd \<Rightarrow>
          (case ReadInt32 P d of
             (Some i, d) \<Rightarrow> if CheckInputSysAbilityId env i then [fst (ReadFileDescriptor P d)] else []
           | (None, d) \<Rightarrow> [])
      | _ \<Rightarrow> [])"

lemma closing_close: "closing [] p q \<Longrightarrow> closing [fd] p (emit (E_Close fd) q)"
  using closing_trans0 [OF _ closing_emit [of "E_Close fd" q]] by simp

lemma closing_func:
  assumes "silent env"
  shows "closing (taken env P f d) p (snd (snd (run_func f env C P d reply p)))"
  using closing_requests [where env = env and p = p] assms
  by (cases f)
     (auto simp: taken_def StartAbilityInner_def StopAbilityInner_def ActiveAbilityInner_def IdleAbilityInner_def
       SendStrategyToSAInner_def IpcStatCmdProcInner_def FfrtStatCmdProcInner_def FfrtDumperProcInner_def
       SystemAbilityExtProcInner_def ServiceControlCmdInner_def Let_def case_prod_beta closing_IpcStat closing_FfrtStat
       closing_FfrtDumper closing_close split: prod.split option.split)

section \<open>Requests as a client sends them\<close>

datatype request = ReqStart int string | ReqStop int string | ReqActive int string | ReqIdle int string
  | ReqStrategy int int int string | ReqIpcStat int int | ReqFfrtStat int int | ReqFfrtDump | ReqExt int string
  | ReqService int int "u16string list"

datatype parcel_word = W_Token u16string | W_Int int | W_Str string | W_Fd int | W_Strs "u16string list" | W_Bool bool

fun request_code :: "stub_consts \<Rightarrow> request \<Rightarrow> 32 word" where
  "request_code C (ReqStart i s) = START_ABILITY_TRANSACTION C"
| "request_code C (ReqStop i s) = STOP_ABILITY_TRANSACTION C"
| "request_code C (ReqActive i s) = ACTIVE_ABILITY_TRANSACTION C"
| "request_code C (ReqIdle i s) = IDLE_ABILITY_TRANSACTION C"
| "request_code C (ReqStrategy ty i l s) = SEND_STRATEGY_TO_SA_TRANSACTION C"
| "request_code C (ReqIpcStat fd cmd) = IPC_STAT_CMD_TRANSACTION C"
| "request_code C (ReqFfrtStat fd cmd) = FFRT_STAT_CMD_TRANSACTION C"
| "request_code C ReqFfrtDump = FFRT_DUMPER_TRANSACTION C"
| "request_code C (ReqExt i s) = SYSTEM_ABILITY_EXT_TRANSACTION C"
| "request_code C (ReqService i fd args) = SERVICE_CONTROL_CMD_TRANSACTION C"

fun request_permission :: "request \<Rightarrow> string" where
  "request_permission (ReqExt i s) = ''ohos.permission.ACCESS_EXT_SYSTEM_ABILITY''"
| "request_permission (ReqService i fd args) = ''ohos.permission.CONTROL_SVC_CMD''"
| "request_permission _ = ''ohos.permission.MANAGE_SYSTEM_ABILITY''"

fun request_words :: "request \<Rightarrow> parcel_word list" where
  "request_words (ReqStart i s) = [W_Int i, W_Str s]"
| "request_words (ReqStop i s) = [W_Int i, W_Str s]"
| "request_words (ReqActive i s) = [W_Int i, W_Str s]"
| "request_words (ReqIdle i s) = [W_Int i, W_Str s]"
| "request_words (ReqStrategy ty i l s) = [W_Int ty, W_Int i, W_Int l, W_Str s]"
| "request_words (ReqIpcStat fd cmd) = [W_Fd fd, W_Int cmd]"
| "request_words (ReqFfrtStat fd cmd) = [W_Fd fd, W_Int cmd]"
| "request_words ReqFfrtDump = []"
| "request_words (ReqExt i s) = [W_Int i, W_Str s]"
| "request_words (ReqService i fd args) = [W_Int i, W_Fd fd, W_Strs args]"

text \<open>What makes a request acceptable, and what it means for the manager: the result code and the new state.\<close>

fun request_ok :: "env \<Rightarrow> request \<Rightarrow> bool" where
  "request_ok env (ReqStart i s) = (CheckInputSysAbilityId env i \<and> s \<noteq> [])"
| "request_ok env (ReqStop i s) = (CheckInputSysAbilityId env i \<and> s \<noteq> [])"
| "request_ok env (ReqActive i s) = CheckInputSysAbilityId env i"
| "request_ok env (ReqIdle i s) = CheckInputSysAbilityId env i"
| "request_ok env (ReqStrategy ty i l s) = CheckInputSysAbilityId env i"
| "request_ok env (ReqIpcStat fd cmd) = (0 \<le> fd)"
| "request_ok env (ReqFfrtStat fd cmd) = (0 \<le> fd)"
| "request_ok env ReqFfrtDump = True"
| "request_ok env (ReqExt i s) = (CheckInputSysAbilityId env i \<and> s \<noteq> [])"
| "request_ok env (ReqService i fd args) = (CheckInputSysAbilityId env i \<and> 0 \<le> fd)"

fun serve :: "env \<Rightarrow> stub_consts \<Rightarrow> request \<Rightarrow> proc \<Rightarrow> int \<times> proc" where
  "serve env C (ReqStart i s) p = (ERR_NONE env, snd (StartAbility env i s p))"
| "serve env C (ReqStop i s) p = (ERR_NONE env, snd (StopAbility env i s p))"
| "serve env C (ReqActive i s) p = (ERR_NONE env, snd (ActiveAbility env i (StringToJsonObj env s) p))"
| "serve env C (ReqIdle i s) p = (ERR_NONE env, snd (snd (IdleAbility env i (StringToJsonObj env s) 0 p)))"
| "serve env C (ReqStrategy ty i l s) p =
     (case SendStrategyToSA env ty i l s p of (ok, _, q) \<Rightarrow> (if ok then ERR_NONE env else ERR_NULL_OBJECT env, q))"
| "serve env C (ReqIpcStat fd cmd) p = (ERR_NONE env, emit (E_Close fd) (snd (IpcStatCmdProc env (stat_cmds_of C) fd cmd p)))"
| "serve env C (ReqFfrtStat fd cmd) p = (ERR_NONE env, emit (E_Close fd) (snd (FfrtStatCmdProc env (stat_cmds_of C) fd cmd p)))"
| "serve env C ReqFfrtDump p = (ERR_NONE env, snd (snd (FfrtDumperProc env [] p)))"
| "serve env C (ReqExt i s) p = SystemAbilityExtProc env s i (Some 0) False p"
| "serve env C (ReqService i fd args) p = (case ServiceControlCmd env fd i args p of (ret, q) \<Rightarrow> (ret, emit (E_Close fd) q))"

text \<open>
  What the caller finds in the reply: the result of an activation, the result and the delay of an idle request, the
  result of a statistics command, the text of the dump, what the extension wrote, and nothing for the others.
\<close>

fun served_reply :: "env \<Rightarrow> stub_consts \<Rightarrow> 'p message_parcel \<Rightarrow> request \<Rightarrow> proc \<Rightarrow> 'p \<Rightarrow> 'p" where
  "served_reply env C P (ReqActive i s) p reply = snd (WriteBool P (fst (ActiveAbility env i (StringToJsonObj env s) p)) reply)"
| "served_reply env C P (ReqIdle i s) p reply =
     (case IdleAbility env i (StringToJsonObj env s) 0 p of
        (result, delayTime, _) \<Rightarrow> snd (WriteInt32 P delayTime (snd (WriteBool P result reply))))"
| "served_reply env C P (ReqIpcStat fd cmd) p reply =
     snd (WriteBool P (fst (IpcStatCmdProc env (stat_cmds_of C) fd cmd p)) reply)"
| "served_reply env C P (ReqFfrtStat fd cmd) p reply =
     snd (WriteBool P (fst (FfrtStatCmdProc env (stat_cmds_of C) fd cmd p)) reply)"
| "served_reply env C P ReqFfrtDump p reply = snd (WriteString P (fst (snd (FfrtDumperProc env [] p))) reply)"
| "served_reply env C P (ReqExt i s) p reply =
     (if GetAbility i p = None then reply
      else extension_reply P (trace (snd (SystemAbilityExtProc env s i (Some 0) False p))) reply)"
| "served_reply env C P (ReqStart i s) p reply = reply"
| "served_reply env C P (ReqStop i s) p reply = reply"
| "served_reply env C P (ReqStrategy ty i l s) p reply = reply"
| "served_reply env C P (ReqService i fd args) p reply = reply"

text \<open>The law of the parcel: values are read in the order they were written, and writing to the reply succeeds.\<close>

definition parcel_reads :: "'p message_parcel \<Rightarrow> ('p \<Rightarrow> parcel_word list) \<Rightarrow> bool" where
  "parcel_reads P view \<longleftrightarrow>
     (\<forall>d t ws. view d = W_Token t # ws \<longrightarrow> (\<exists>d'. ReadInterfaceToken P d = (t, d') \<and> view d' = ws))
     \<and> (\<forall>d i ws. view d = W_Int i # ws \<longrightarrow> (\<exists>d'. ReadInt32 P d = (Some i, d') \<and> view d' = ws))
     \<and> (\<forall>d s ws. view d = W_Str s # ws \<longrightarrow> (\<exists>d'. ReadString P d = (Some s, d') \<and> view d' = ws))
     \<and> (\<forall>d fd ws. view d = W_Fd fd # ws \<longrightarrow> (\<exists>d'. ReadFileDescriptor P d = (fd, d') \<and> view d' = ws))
     \<and> (\<forall>d xs ws. view d = W_Strs xs # ws \<longrightarrow> (\<exists>d'. ReadString16Vector P d = (Some xs, d') \<and> view d' = ws))
     \<and> (\<forall>b r. fst (WriteBool P b r)) \<and> (\<forall>i r. fst (WriteInt32 P i r)) \<and> (\<forall>s r. fst (WriteString P s r))"

lemma token_read: "parcel_reads P view \<Longrightarrow> view d = W_Token t # ws \<Longrightarrow> \<exists>d'. ReadInterfaceToken P d = (t, d') \<and> view d' = ws"
  by (simp add: parcel_reads_def)

text \<open>The permission of every code, written out.\<close>

lemma permission_table:
  "permissionToCheck C code =
     (if code = SYSTEM_ABILITY_EXT_TRANSACTION C then ''ohos.permission.ACCESS_EXT_SYSTEM_ABILITY''
      else if code = SERVICE_CONTROL_CMD_TRANSACTION C then ''ohos.permission.CONTROL_SVC_CMD''
      else ''ohos.permission.MANAGE_SYSTEM_ABILITY'')"
  by (simp only: permissionToCheck_def PERMISSION_EXT_TRANSACTION_def PERMISSION_SVC_def PERMISSION_MANAGE_def)

definition distinct_codes :: "stub_consts \<Rightarrow> bool" where
  "distinct_codes C \<longleftrightarrow> distinct [START_ABILITY_TRANSACTION C, STOP_ABILITY_TRANSACTION C, ACTIVE_ABILITY_TRANSACTION C,
     IDLE_ABILITY_TRANSACTION C, SEND_STRATEGY_TO_SA_TRANSACTION C, IPC_STAT_CMD_TRANSACTION C, FFRT_DUMPER_TRANSACTION C,
     SYSTEM_ABILITY_EXT_TRANSACTION C, FFRT_STAT_CMD_TRANSACTION C, SERVICE_CONTROL_CMD_TRANSACTION C]"

fun request_func :: "request \<Rightarrow> stub_func" where
  "request_func (ReqStart i s) = LocalStartAbility"
| "request_func (ReqStop i s) = LocalStopAbility"
| "request_func (ReqActive i s) = LocalActiveAbility"
| "request_func (ReqIdle i s) = LocalIdleAbility"
| "request_func (ReqStrategy ty i l s) = LocalSendStrategyToSA"
| "request_func (ReqIpcStat fd cmd) = LocalIpcStatCmdProc"
| "request_func (ReqFfrtStat fd cmd) = LocalFfrtStatCmdProc"
| "request_func ReqFfrtDump = LocalFfrtDumperProc"
| "request_func (ReqExt i s) = LocalSystemAbilityExtProc"
| "request_func (ReqService i fd args) = LocalServiceControlCmd"

lemma request_func_found:
  assumes "distinct_codes C"
  shows "smap_find (LocalAbilityManagerStub C) (request_code C r) = Some (request_func r)"
  using assms
  by (cases r) (simp_all add: distinct_codes_def LocalAbilityManagerStub_def sm.lookup_assign sm.invar_assign
      del: smap_assign.simps)

lemma parcel_readsD:
  assumes "parcel_reads P view"
  shows "view d = W_Int i # ws \<Longrightarrow> \<exists>d'. ReadInt32 P d = (Some i, d') \<and> view d' = ws"
    "view d = W_Str s # ws \<Longrightarrow> \<exists>d'. ReadString P d = (Some s, d') \<and> view d' = ws"
    "view d = W_Fd fd # ws \<Longrightarrow> \<exists>d'. ReadFileDescriptor P d = (fd, d') \<and> view d' = ws"
    "view d = W_Strs xs # ws \<Longrightarrow> \<exists>d'. ReadString16Vector P d = (Some xs, d') \<and> view d' = ws"
    "fst (WriteBool P b x)" "fst (WriteInt32 P n x)" "fst (WriteString P t x)"
  using assms unfolding parcel_reads_def by blast+

text \<open>The two shapes that most requests have: a number and a string, a descriptor and a number.\<close>

lemma parcel_reads_int_str:
  assumes "parcel_reads P view" and "view d = [W_Int k, W_Str e]"
  obtains d1 d2 where "ReadInt32 P d = (Some k, d1)" "ReadString P d1 = (Some e, d2)"
  using parcel_readsD(1,2) [OF assms(1)] assms(2) by metis

lemma parcel_reads_fd_int:
  assumes "parcel_reads P view" and "view d = [W_Fd fd, W_Int cmd]"
  obtains d1 d2 where "ReadFileDescriptor P d = (fd, d1)" "ReadInt32 P d1 = (Some cmd, d2)"
  using parcel_readsD(1,3) [OF assms(1)] assms(2) by metis

lemma request_handled:
  assumes P: "parcel_reads P view" and v: "view d = request_words r" and ok: "request_ok env r"
  shows "run_func (request_func r) env C P d reply p =
     (fst (serve env C r p), served_reply env C P r p reply, snd (serve env C r p))"
proof (cases r)
  case (ReqStrategy ty k l a)
  obtain d1 d2 d3 d4 where "ReadInt32 P d = (Some ty, d1)" "ReadInt32 P d1 = (Some k, d2)" "ReadInt32 P d2 = (Some l, d3)"
      "ReadString P d3 = (Some a, d4)"
    using v ReqStrategy parcel_readsD(1,2) [OF P] by (metis request_words.simps(5))
  then show ?thesis using ReqStrategy ok by (simp add: SendStrategyToSAInner_def case_prod_beta Let_def)
next
  case (ReqService k fd args)
  obtain d1 d2 d3 where "ReadInt32 P d = (Some k, d1)" "ReadFileDescriptor P d1 = (fd, d2)" "ReadString16Vector P d2 = (Some args, d3)"
    using v ReqService parcel_readsD(1,3,4) [OF P] by (metis request_words.simps(10))
  then show ?thesis using ReqService ok by (simp add: ServiceControlCmdInner_def case_prod_beta Let_def)
next
  case (ReqStart k e)
  then have "view d = [W_Int k, W_Str e]" using v by simp
  with P obtain d1 d2 where "ReadInt32 P d = (Some k, d1)" "ReadString P d1 = (Some e, d2)" by (rule parcel_reads_int_str)
  then show ?thesis using ReqStart ok by (simp add: StartAbilityInner_def read_string_def case_prod_beta Let_def)
next
  case (ReqStop k e)
  then have "view d = [W_Int k, W_Str e]" using v by simp
  with P obtain d1 d2 where "ReadInt32 P d = (Some k, d1)" "ReadString P d1 = (Some e, d2)" by (rule parcel_reads_int_str)
  then show ?thesis using ReqStop ok by (simp add: StopAbilityInner_def read_string_def case_prod_beta Let_def)
next
  case (ReqActive k e)
  then have "view d = [W_Int k, W_Str e]" using v by simp
  with P obtain d1 d2 where "ReadInt32 P d = (Some k, d1)" "ReadString P d1 = (Some e, d2)" by (rule parcel_reads_int_str)
  then show ?thesis using ReqActive ok parcel_readsD(5-7) [OF P] by (simp add: ActiveAbilityInner_def read_string_def case_prod_beta Let_def)
next
  case (ReqIdle k e)
  then have "view d = [W_Int k, W_Str e]" using v by simp
  with P obtain d1 d2 where "ReadInt32 P d = (Some k, d1)" "ReadString P d1 = (Some e, d2)" by (rule parcel_reads_int_str)
  then show ?thesis using ReqIdle ok parcel_readsD(5-7) [OF P] by (simp add: IdleAbilityInner_def read_string_def case_prod_beta Let_def)
next
  case (ReqExt k e)
  then have "view d = [W_Int k, W_Str e]" using v by simp
  with P obtain d1 d2 where "ReadInt32 P d = (Some k, d1)" "ReadString P d1 = (Some e, d2)" by (rule parcel_reads_int_str)
  then show ?thesis using ReqExt ok by (simp add: SystemAbilityExtProcInner_def read_string_def case_prod_beta Let_def)
next
  case (ReqIpcStat fd cmd)
  then have "view d = [W_Fd fd, W_Int cmd]" using v by simp
  with P obtain d1 d2 where "ReadFileDescriptor P d = (fd, d1)" "ReadInt32 P d1 = (Some cmd, d2)" by (rule parcel_reads_fd_int)
  then show ?thesis using ReqIpcStat ok parcel_readsD(5-7) [OF P] by (simp add: IpcStatCmdProcInner_def case_prod_beta Let_def)
next
  case (ReqFfrtStat fd cmd)
  then have "view d = [W_Fd fd, W_Int cmd]" using v by simp
  with P obtain d1 d2 where "ReadFileDescriptor P d = (fd, d1)" "ReadInt32 P d1 = (Some cmd, d2)" by (rule parcel_reads_fd_int)
  then show ?thesis using ReqFfrtStat ok parcel_readsD(5-7) [OF P] by (simp add: FfrtStatCmdProcInner_def case_prod_beta Let_def)
next
  case ReqFfrtDump
  then show ?thesis using parcel_readsD(5-7) [OF P] by (simp add: FfrtDumperProcInner_def case_prod_beta Let_def)
qed

lemma OnRemoteRequest_serves:
  assumes "distinct_codes C" and "parcel_reads P view" and "request_ok env r"
    and "view d = W_Token (LOCAL_ABILITY_MANAGER_INTERFACE_TOKEN C) # request_words r"
    and "ans_int env (trace p @ [E_VerifyAccessToken (request_permission r)]) = PERMISSION_GRANTED env"
  shows "OnRemoteRequest env C P (request_code C r) d reply p =
     (let p1 = emit (E_VerifyAccessToken (request_permission r)) p; (ret, q) = serve env C r p1
      in (ret, served_reply env C P r p1 reply, q))"
proof -
  obtain d' where d': "ReadInterfaceToken P d = (LOCAL_ABILITY_MANAGER_INTERFACE_TOKEN C, d')" "view d' = request_words r"
    using token_read [OF assms(2,4)] by blast
  have perm: "permissionToCheck C (request_code C r) = request_permission r"
    using assms(1) by (cases r) (simp_all only: request_code.simps request_permission.simps permission_table distinct_codes_def, auto)
  show ?thesis
    using request_handled [OF assms(2) d'(2) assms(3), of C reply "emit (E_VerifyAccessToken (request_permission r)) p"]
      assms(5) d'(1) perm
    by (simp add: OnRemoteRequest_def EnforceInterceToken_def CheckPermission_def asks request_func_found [OF assms(1)]
        case_prod_beta Let_def)
qed

section \<open>A parcel for concrete runs\<close>

fun list_read_int :: "parcel_word list \<Rightarrow> int option \<times> parcel_word list" where
  "list_read_int (W_Int i # ws) = (Some i, ws)"
| "list_read_int ws = (None, ws)"

fun list_read_str :: "parcel_word list \<Rightarrow> string option \<times> parcel_word list" where
  "list_read_str (W_Str s # ws) = (Some s, ws)"
| "list_read_str ws = (None, ws)"

fun list_read_token :: "parcel_word list \<Rightarrow> u16string \<times> parcel_word list" where
  "list_read_token (W_Token t # ws) = (t, ws)"
| "list_read_token ws = ([], ws)"

fun list_read_fd :: "parcel_word list \<Rightarrow> int \<times> parcel_word list" where
  "list_read_fd (W_Fd fd # ws) = (fd, ws)"
| "list_read_fd ws = (-1, ws)"

fun list_read_strs :: "parcel_word list \<Rightarrow> u16string list option \<times> parcel_word list" where
  "list_read_strs (W_Strs xs # ws) = (Some xs, ws)"
| "list_read_strs ws = (None, ws)"

definition list_parcel_ops :: "parcel_word list message_parcel" where
  "list_parcel_ops = \<lparr>ReadInterfaceToken = list_read_token, ReadInt32 = list_read_int, ReadString = list_read_str,
     ReadFileDescriptor = list_read_fd, ReadString16Vector = list_read_strs, WriteBool = (\<lambda>b r. (True, r @ [W_Bool b])),
     WriteInt32 = (\<lambda>i r. (True, r @ [W_Int i])), WriteString = (\<lambda>s r. (True, r @ [W_Str s])), extension_reply = (\<lambda>h r. r)\<rparr>"

definition demo_consts :: stub_consts where
  "demo_consts = \<lparr>START_ABILITY_TRANSACTION = 1, STOP_ABILITY_TRANSACTION = 2, ACTIVE_ABILITY_TRANSACTION = 3,
     IDLE_ABILITY_TRANSACTION = 4, SEND_STRATEGY_TO_SA_TRANSACTION = 5, IPC_STAT_CMD_TRANSACTION = 6, FFRT_DUMPER_TRANSACTION = 7,
     SYSTEM_ABILITY_EXT_TRANSACTION = 8, FFRT_STAT_CMD_TRANSACTION = 9, SERVICE_CONTROL_CMD_TRANSACTION = 10,
     LOCAL_ABILITY_MANAGER_INTERFACE_TOKEN = [76], stat_cmds_of = demo_cmds\<rparr>"

lemma list_parcel_reads: "parcel_reads list_parcel_ops (\<lambda>ws. ws)"
  by (simp add: parcel_reads_def list_parcel_ops_def)

lemma demo_codes_distinct: "distinct_codes demo_consts"
  by (simp add: distinct_codes_def demo_consts_def)

section \<open>Properties\<close>

text \<open>
  C12. A well-formed request reaches the manager and its outcome reaches the caller: for distinct transaction codes and a parcel that is
  read in the order it was written, each of the ten kinds of requests, with the interface token and acceptable arguments (a
  valid identifier, a valid descriptor, a non-empty event or extension), from a caller with the permission of its kind, does to
  the manager exactly what the operation of that name does, closes the descriptor it came with, returns the code that
  reports its outcome, and writes to the reply exactly the results of that operation: whether the ability was activated or
  idled and with which delay, the result of a statistics command, the dump, what the extension wrote, nothing for the other kinds.
\<close>

theorem request_served:
  assumes "distinct_codes C" and "parcel_reads P view" and "request_ok env r"
    and "view d = W_Token (LOCAL_ABILITY_MANAGER_INTERFACE_TOKEN C) # request_words r"
    and "ans_int env (trace p @ [E_VerifyAccessToken (request_permission r)]) = PERMISSION_GRANTED env"
  shows "OnRemoteRequest env C P (request_code C r) d reply p =
     (let p1 = emit (E_VerifyAccessToken (request_permission r)) p; (ret, q) = serve env C r p1
      in (ret, served_reply env C P r p1 reply, q))"
  using assms by (rule OnRemoteRequest_serves)

theorem request_served_witness:
  "fst (OnRemoteRequest quiet_env demo_consts list_parcel_ops 4 [W_Token [76], W_Int 7, W_Str ''e''] []
      (LocalAbilityManager (\<lambda>_. (SystemAbility 7 False)\<lparr>abilityStateM := ACTIVE\<rparr>)\<lparr>localAbilityMapM := [(7, Some 0)]\<rparr>)) = 0
   \<and> fst (snd (OnRemoteRequest quiet_env demo_consts list_parcel_ops 4 [W_Token [76], W_Int 7, W_Str ''e''] []
      (LocalAbilityManager (\<lambda>_. (SystemAbility 7 False)\<lparr>abilityStateM := ACTIVE\<rparr>)\<lparr>localAbilityMapM := [(7, Some 0)]\<rparr>)))
     = [W_Bool True, W_Int 0]"
  using request_served [OF demo_codes_distinct list_parcel_reads, of quiet_env "ReqIdle 7 ''e''"
      "[W_Token [76], W_Int 7, W_Str ''e'']"
      "LocalAbilityManager (\<lambda>_. (SystemAbility 7 False)\<lparr>abilityStateM := ACTIVE\<rparr>)\<lparr>localAbilityMapM := [(7, Some 0)]\<rparr>" "[]"]
  by (simp add: demo_consts_def quiet_env_def CheckInputSysAbilityId_def IdleAbility_def GetAbility_def smap_find_def Idle_def
      JsonToOnDemandReason_def SystemAbilityOnDemandReason_default_def HasExtraData_def ask_def list_parcel_ops_def
      LocalAbilityManager_def case_prod_beta Let_def)

text \<open>The codes of the requests that name an ability, and their handlers.\<close>

lemma naming_handlers:
  assumes "distinct_codes C"
  shows "smap_find (LocalAbilityManagerStub C) (START_ABILITY_TRANSACTION C) = Some LocalStartAbility"
    "smap_find (LocalAbilityManagerStub C) (STOP_ABILITY_TRANSACTION C) = Some LocalStopAbility"
    "smap_find (LocalAbilityManagerStub C) (ACTIVE_ABILITY_TRANSACTION C) = Some LocalActiveAbility"
    "smap_find (LocalAbilityManagerStub C) (IDLE_ABILITY_TRANSACTION C) = Some LocalIdleAbility"
    "smap_find (LocalAbilityManagerStub C) (SYSTEM_ABILITY_EXT_TRANSACTION C) = Some LocalSystemAbilityExtProc"
    "smap_find (LocalAbilityManagerStub C) (SERVICE_CONTROL_CMD_TRANSACTION C) = Some LocalServiceControlCmd"
    "smap_find (LocalAbilityManagerStub C) (SEND_STRATEGY_TO_SA_TRANSACTION C) = Some LocalSendStrategyToSA"
  using request_func_found [OF assms, of "ReqStart 0 []"] request_func_found [OF assms, of "ReqStop 0 []"]
    request_func_found [OF assms, of "ReqActive 0 []"] request_func_found [OF assms, of "ReqIdle 0 []"]
    request_func_found [OF assms, of "ReqExt 0 []"] request_func_found [OF assms, of "ReqService 0 0 []"]
    request_func_found [OF assms, of "ReqStrategy 0 0 0 []"]
  by simp_all

text \<open>A handler that is given an invalid identifier, or none, leaves the process alone.\<close>

lemma invalid_ability_refused:
  assumes "\<not> (\<exists>i. x = Some i \<and> CheckInputSysAbilityId env i)"
  shows "f \<in> {LocalStartAbility, LocalStopAbility, LocalActiveAbility, LocalIdleAbility, LocalSystemAbilityExtProc,
            LocalServiceControlCmd} \<Longrightarrow> x = fst (ReadInt32 P d) \<Longrightarrow> snd (snd (run_func f env C P d reply p)) = p"
    and "x = fst (ReadInt32 P (snd (ReadInt32 P d))) \<Longrightarrow> snd (snd (run_func LocalSendStrategyToSA env C P d reply p)) = p"
proof -
  show "snd (snd (run_func f env C P d reply p)) = p"
    if "f \<in> {LocalStartAbility, LocalStopAbility, LocalActiveAbility, LocalIdleAbility, LocalSystemAbilityExtProc,
            LocalServiceControlCmd}" "x = fst (ReadInt32 P d)"
    using assms that by (cases "ReadInt32 P d"; cases x)
      (auto simp: StartAbilityInner_def StopAbilityInner_def ActiveAbilityInner_def IdleAbilityInner_def
        SystemAbilityExtProcInner_def ServiceControlCmdInner_def)
  show "snd (snd (run_func LocalSendStrategyToSA env C P d reply p)) = p" if "x = fst (ReadInt32 P (snd (ReadInt32 P d)))"
    using assms that by (cases "ReadInt32 P d"; cases "ReadInt32 P (snd (ReadInt32 P d))"; cases x)
      (auto simp: SendStrategyToSAInner_def split: option.split)
qed

text \<open>
  C11. The guard of remote requests: if a request has any effect on the process beyond a permission query, then its parcel
  carries the interface token, the caller holds the permission that belongs to the code (\<open>ACCESS_EXT_SYSTEM_ABILITY\<close> for extensions,
  \<open>CONTROL_SVC_CMD\<close> for service commands, \<open>MANAGE_SYSTEM_ABILITY\<close> for everything else), and, with distinct transaction
  codes, for each of the seven requests that name an ability the identifier is valid: the first number of the parcel, for a strategy
  the second one.
\<close>

theorem request_guard:
  assumes "OnRemoteRequest env C P code d reply p = (ret, reply', q)"
    and "q \<noteq> p" and "\<And>permission. q \<noteq> emit (E_VerifyAccessToken permission) p"
  shows "fst (ReadInterfaceToken P d) = LOCAL_ABILITY_MANAGER_INTERFACE_TOKEN C
     \<and> ans_int env (trace p @ [E_VerifyAccessToken
          (if code = SYSTEM_ABILITY_EXT_TRANSACTION C then ''ohos.permission.ACCESS_EXT_SYSTEM_ABILITY''
           else if code = SERVICE_CONTROL_CMD_TRANSACTION C then ''ohos.permission.CONTROL_SVC_CMD''
           else ''ohos.permission.MANAGE_SYSTEM_ABILITY'')]) = PERMISSION_GRANTED env
     \<and> (distinct_codes C \<longrightarrow>
          (let d1 = snd (ReadInterfaceToken P d) in
           (code \<in> {START_ABILITY_TRANSACTION C, STOP_ABILITY_TRANSACTION C, ACTIVE_ABILITY_TRANSACTION C,
               IDLE_ABILITY_TRANSACTION C, SYSTEM_ABILITY_EXT_TRANSACTION C, SERVICE_CONTROL_CMD_TRANSACTION C} \<longrightarrow>
              (\<exists>i. fst (ReadInt32 P d1) = Some i \<and> CheckInputSysAbilityId env i))
           \<and> (code = SEND_STRATEGY_TO_SA_TRANSACTION C \<longrightarrow>
                (\<exists>i. fst (ReadInt32 P (snd (ReadInt32 P d1))) = Some i \<and> CheckInputSysAbilityId env i))))"
proof -
  let ?d = "snd (ReadInterfaceToken P d)"
  let ?p = "emit (E_VerifyAccessToken (permissionToCheck C code)) p"
  have 1: "fst (ReadInterfaceToken P d) = LOCAL_ABILITY_MANAGER_INTERFACE_TOKEN C"
      "ans_int env (trace p @ [E_VerifyAccessToken (permissionToCheck C code)]) = PERMISSION_GRANTED env"
    using assms
    by (auto simp: OnRemoteRequest_def EnforceInterceToken_def CheckPermission_def asks Let_def case_prod_beta split: if_splits)
  have run: "snd (snd (run_func f env C P ?d reply ?p)) \<noteq> ?p" if "smap_find (LocalAbilityManagerStub C) code = Some f" for f
    using assms(1) assms(3) [of "permissionToCheck C code"] 1 that
    by (simp add: OnRemoteRequest_def EnforceInterceToken_def CheckPermission_def asks Let_def case_prod_beta)
  have 2: "\<exists>i. fst (ReadInt32 P ?d) = Some i \<and> CheckInputSysAbilityId env i"
    if dc: "distinct_codes C" and cd: "code \<in> {START_ABILITY_TRANSACTION C, STOP_ABILITY_TRANSACTION C, ACTIVE_ABILITY_TRANSACTION C,
               IDLE_ABILITY_TRANSACTION C, SYSTEM_ABILITY_EXT_TRANSACTION C, SERVICE_CONTROL_CMD_TRANSACTION C}"
  proof (rule ccontr)
    assume no: "\<not> ?thesis"
    obtain f where f: "smap_find (LocalAbilityManagerStub C) code = Some f" "f \<in> {LocalStartAbility, LocalStopAbility,
        LocalActiveAbility, LocalIdleAbility, LocalSystemAbilityExtProc, LocalServiceControlCmd}"
      using cd naming_handlers [OF dc] by blast
    from run [OF f(1)] invalid_ability_refused(1) [OF no f(2) refl] show False by contradiction
  qed
  have 3: "\<exists>i. fst (ReadInt32 P (snd (ReadInt32 P ?d))) = Some i \<and> CheckInputSysAbilityId env i"
    if dc: "distinct_codes C" and cd: "code = SEND_STRATEGY_TO_SA_TRANSACTION C"
  proof (rule ccontr)
    assume no: "\<not> ?thesis"
    have "smap_find (LocalAbilityManagerStub C) code = Some LocalSendStrategyToSA" using cd naming_handlers(7) [OF dc] by simp
    from run [OF this] invalid_ability_refused(2) [OF no refl] show False by contradiction
  qed
  show ?thesis using 1 2 3 unfolding permission_table Let_def by blast
qed

theorem request_guard_witness:
  "\<exists>i. fst (ReadInt32 list_parcel_ops (snd (ReadInterfaceToken list_parcel_ops [W_Token [76], W_Int 7, W_Str ''e'']))) = Some i
     \<and> CheckInputSysAbilityId quiet_env i"
proof -
  let ?p = "LocalAbilityManager (\<lambda>_. SystemAbility 7 False)"
  let ?r = "OnRemoteRequest quiet_env demo_consts list_parcel_ops 1 [W_Token [76], W_Int 7, W_Str ''e''] [] ?p"
  obtain ret reply' q where r: "?r = (ret, reply', q)" by (cases ?r)
  have "detached (snd (snd ?r)) = [StartTask 7]"
    using request_handled [OF list_parcel_reads, of "[W_Int 7, W_Str ''e'']" "ReqStart 7 ''e''" quiet_env demo_consts "[]"
        "emit (E_VerifyAccessToken PERMISSION_MANAGE) ?p"]
      request_func_found [OF demo_codes_distinct, of "ReqStart 7 ''e''"]
    by (auto simp: OnRemoteRequest_def EnforceInterceToken_def CheckPermission_def asks demo_consts_def list_parcel_ops_def
        quiet_env_def CheckInputSysAbilityId_def permissionToCheck_def StartAbility_def SetStartReason_def LocalAbilityManager_def Let_def)
  then have "detached q = [StartTask 7]" using r by simp
  moreover have "detached ?p = []" by (simp add: LocalAbilityManager_def)
  ultimately have "q \<noteq> ?p" "\<And>permission. q \<noteq> emit (E_VerifyAccessToken permission) ?p" by auto
  from request_guard [OF r this] show ?thesis using demo_codes_distinct by (simp add: Let_def demo_consts_def)
qed

text \<open>
  C13. Descriptors are not leaked: with callbacks that do not close descriptors themselves, serving a request closes exactly the
  descriptors that its handler took out of the parcel, each once, on every path, and closes none when the request is refused
  or takes none.
\<close>

theorem descriptors_closed:
  assumes "silent env"
  shows "closing
     (if fst (ReadInterfaceToken P d) = LOCAL_ABILITY_MANAGER_INTERFACE_TOKEN C
         \<and> ans_int env (trace p @ [E_VerifyAccessToken (permissionToCheck C code)]) = PERMISSION_GRANTED env
      then (case smap_find (LocalAbilityManagerStub C) code of
              None \<Rightarrow> []
            | Some f \<Rightarrow> taken env P f (snd (ReadInterfaceToken P d)))
      else [])
     p (snd (snd (OnRemoteRequest env C P code d reply p)))"
proof -
  let ?ev = "E_VerifyAccessToken (permissionToCheck C code)"
  have e: "closing [] p (emit ?ev p)" by simp
  have "closing (taken env P f (snd (ReadInterfaceToken P d))) p
      (snd (snd (run_func f env C P (snd (ReadInterfaceToken P d)) reply (emit ?ev p))))" for f
    by (rule closing_trans0 [OF e closing_func [OF assms]])
  then show ?thesis
    by (simp add: OnRemoteRequest_def EnforceInterceToken_def CheckPermission_def asks Let_def case_prod_beta split: option.split)
qed

theorem descriptors_closed_witness:
  "closing [3] (LocalAbilityManager (\<lambda>_. SystemAbility 7 False)) (snd (snd (OnRemoteRequest quiet_env demo_consts list_parcel_ops 6
      [W_Token [76], W_Fd 3, W_Int 0] [] (LocalAbilityManager (\<lambda>_. SystemAbility 7 False)))))"
proof -
  have s: "silent quiet_env" by (simp add: silent_def quiet_env_def)
  have f: "smap_find (LocalAbilityManagerStub demo_consts) 6 = Some LocalIpcStatCmdProc"
    by (simp add: LocalAbilityManagerStub_def demo_consts_def smap_find_def)
  have "fst (ReadInterfaceToken list_parcel_ops [W_Token [76], W_Fd 3, W_Int 0]) = LOCAL_ABILITY_MANAGER_INTERFACE_TOKEN demo_consts"
      "ans_int quiet_env h = PERMISSION_GRANTED quiet_env" "taken quiet_env list_parcel_ops LocalIpcStatCmdProc [W_Fd 3, W_Int 0] = [3]"
      "snd (ReadInterfaceToken list_parcel_ops [W_Token [76], W_Fd 3, W_Int 0]) = [W_Fd 3, W_Int 0]" for h
    by (simp_all add: list_parcel_ops_def demo_consts_def quiet_env_def taken_def)
  then show ?thesis
    using descriptors_closed [OF s, of list_parcel_ops "[W_Token [76], W_Fd 3, W_Int 0]" demo_consts
        "LocalAbilityManager (\<lambda>_. SystemAbility 7 False)" 6 "[]"] f by simp
qed

end
