(* ===== verification/Safwk_Main.thy ===== *)
theory Safwk_Main
  imports Lam_Boot "HOL-Library.Sublist"
begin

text \<open>
  The entry of a system ability process: \<open>services/safwk/src/main.cpp\<close> (\<open>main\<close> and its helpers) and
  \<open>services/safwk/src/system_ability_start.cpp\<close> (\<open>StartSA\<close>, the entry for processes that are not started from the
  executable). The second file has copies of \<open>ParseArgv\<close>, \<open>CheckSaId\<close> and \<open>InitMallopt\<close>, and its
  \<open>DoStartSAProcess\<close> does not set the process name.

  The argument vector is the list of its strings; the null pointer is \<open>None\<close>. Reading it out of range is
  undefined behaviour, and so is a number that \<open>atoi\<close> cannot represent. A run is \<open>ub + (int \<times> proc) option\<close>: undefined, out of
  fuel (only the dependency wait of the started abilities consumes fuel), or the exit code and the final state. The switch
  \<open>CONFIG_USE_JEMALLOC_DFX_INTF\<close> of the build is the argument \<open>jemalloc\<close>. Conversion of strings to numbers and splitting come from the
  utility library and are members of \<open>env\<close>; the system parameter, \<open>mallopt\<close>, \<open>prctl\<close>, \<open>raise\<close> and the bounded memory functions
  are interactions.
\<close>

section \<open>The standard library\<close>

text \<open>\<open>std::string::find\<close>: the first position of \<open>sub\<close>.\<close>

fun str_find :: "string \<Rightarrow> string \<Rightarrow> nat option" where
  "str_find sub [] = (if sub = [] then Some 0 else None)"
| "str_find sub (c # s) =
     (if take (length sub) (c # s) = sub then Some 0 else map_option Suc (str_find sub s))"

definition isspace :: "char \<Rightarrow> bool" where
  "isspace c = (c = CHR '' '' \<or> (9 \<le> (of_char c :: nat) \<and> (of_char c :: nat) \<le> 13))"

definition isdigit :: "char \<Rightarrow> bool" where
  "isdigit c = (48 \<le> (of_char c :: nat) \<and> (of_char c :: nat) \<le> 57)"

definition digits_value :: "string \<Rightarrow> int" where
  "digits_value s = foldl (\<lambda>n c. 10 * n + (of_char c - 48)) 0 s"

definition atoi :: "string \<Rightarrow> ub + int" where
  "atoi s =
     (let s = dropWhile isspace s;
          minus = (s \<noteq> [] \<and> hd s = CHR ''-'');
          s = (if minus \<or> (s \<noteq> [] \<and> hd s = CHR ''+'') then tl s else s);
          n = digits_value (takeWhile isdigit s);
          n = (if minus then - n else n)
      in if - (2 ^ 31) \<le> n \<and> n < 2 ^ 31 then Inr n else Inl IntOverflow)"

definition argv_at :: "string list \<Rightarrow> int \<Rightarrow> ub + string" where
  "argv_at argv i = (if 0 \<le> i \<and> i < int (length argv) then Inr (argv ! nat i) else Inl BadIterator)"

section \<open>Constants\<close>

definition PARAM_PREFIX_M :: string where
  "PARAM_PREFIX_M = ''-m''"

definition DEFAULT_JSON :: string where
  "DEFAULT_JSON = ''/system/usr/default.json''"

definition MAX_LEN_PID_NAME :: nat where
  "MAX_LEN_PID_NAME = 15"

definition PROFILE_INDEX :: int where
  "PROFILE_INDEX = 1"

definition EVENT_INDEX :: int where
  "EVENT_INDEX = 2"

definition DEFAULT_LOAD :: int where
  "DEFAULT_LOAD = 1"

definition ONDEMAND_LOAD :: int where
  "ONDEMAND_LOAD = 2"

definition ARGC_LIMIT :: int where
  "ARGC_LIMIT = 2"

definition ARGC_MAX_COUNT :: int where
  "ARGC_MAX_COUNT = 64"

definition PARTEVENT_NUM :: nat where
  "PARTEVENT_NUM = 5"

definition MAX_LENGTH :: nat where
  "MAX_LENGTH = 2000"

definition MALLOPT_CONFIG_LEN :: nat where
  "MALLOPT_CONFIG_LEN = 2"

section \<open>Process name and memory hook\<close>

definition StartMemoryHook :: "env \<Rightarrow> string \<Rightarrow> proc \<Rightarrow> proc" where
  "StartMemoryHook env processName p =
     (let retParam = ask (ans_int env) (E_GetParameter ''libc.hook_mode'') (trace p);
          paramValue = ask (ans_str env) (E_GetParameter ''libc.hook_mode'') (trace p);
          p = emit (E_GetParameter ''libc.hook_mode'') p;
          targetPrefix = ''startup:''
      in if retParam \<le> 0 \<or> take 8 paramValue \<noteq> targetPrefix then p
         else if str_find (drop 8 paramValue) processName = Some 0 then run_foreign env (E_Raise 36) p
         else p)"

text \<open>
  The lambda of \<open>DoStartSAProcess\<close>. The argument strings lie one after the other in memory, each with its terminator, as the
  kernel and the C library lay them out; the space from the start of the first to the terminator of the last is cleared and
  the name is copied there.
\<close>

definition arg_span :: "string list \<Rightarrow> nat" where
  "arg_span argv = sum_list (map (\<lambda>s. length s + 1) argv) - 1"

definition setProcessName :: "env \<Rightarrow> string list \<Rightarrow> string \<Rightarrow> proc \<Rightarrow> proc" where
  "setProcessName env argv name p =
     (let argvSize = arg_span argv;
          (ret, p) = ask_int env (E_ClearArguments argvSize) p
      in if ret \<noteq> EOK env then p else snd (ask_int env (E_CopyProcessName argvSize name) p))"

definition SetProcName :: "env \<Rightarrow> string list \<Rightarrow> string \<Rightarrow> proc \<Rightarrow> proc" where
  "SetProcName env argv filePath p =
     (let strVector = SplitStr env filePath ''/''; vectorSize = length strVector in
      if vectorSize > 0
      then let fileName = strVector ! (vectorSize - 1) in
        (case str_find ''.'' fileName of
           None \<Rightarrow> p
         | Some dotPos \<Rightarrow>
             let profileName = take dotPos fileName;
                 p = setProcessName env argv profileName p;
                 p = StartMemoryHook env profileName p;
                 dotPos = (if dotPos > MAX_LEN_PID_NAME then MAX_LEN_PID_NAME else dotPos);
                 profileName = take dotPos fileName
             in emit (E_Prctl profileName) p)
      else p)"

section \<open>The event argument\<close>

lemma str_find_bound: "str_find sub s = Some pos \<Longrightarrow> pos + length sub \<le> length s"
proof (induction s arbitrary: pos)
  case (Cons c s)
  show ?case
  proof (cases "take (length sub) (c # s) = sub")
    case True
    then have "length sub \<le> length (c # s)" by (metis length_take min.cobounded1)
    then show ?thesis using Cons.prems True by simp
  qed (use Cons in auto)
qed (simp split: if_splits)

function event_parts :: "string \<Rightarrow> string list \<Rightarrow> string list" where
  "event_parts eventStr eventVec =
     (case str_find ''#'' eventStr of
        None \<Rightarrow> eventVec
      | Some pos \<Rightarrow>
          event_parts (take (length eventStr - pos - 1) (drop (pos + 1) eventStr)) (eventVec @ [take pos eventStr]))"
  by pat_completeness auto
termination
  by (relation "measure (\<lambda>(s, _). length s)") (auto dest!: str_find_bound)

declare event_parts.simps [simp del]

definition ParseArgv :: "env \<Rightarrow> string list \<Rightarrow> json \<Rightarrow> int \<Rightarrow> ub + int \<times> json" where
  "ParseArgv env argv eventMap eventIndex =
     ub_bind (argv_at argv eventIndex) (\<lambda>eventStr.
       if length eventStr > MAX_LENGTH then Inr (DEFAULT_SAID, eventMap)
       else let eventVec = event_parts eventStr [] in
         if length eventVec \<noteq> PARTEVENT_NUM then Inr (DEFAULT_SAID, eventMap)
         else case StrToInt env (eventVec ! 0) of
             None \<Rightarrow> Inr (DEFAULT_SAID, eventMap)
           | Some saId \<Rightarrow>
               ub_bind (atoi (eventVec ! 1)) (\<lambda>eventId.
               ub_bind (json_put ''eventId'' (JInt eventId) eventMap) (\<lambda>eventMap.
               ub_bind (json_put ''name'' (JStr (eventVec ! 2)) eventMap) (\<lambda>eventMap.
               ub_bind (json_put ''value'' (JStr (eventVec ! 3)) eventMap) (\<lambda>eventMap.
               ub_bind (atoi (eventVec ! 4)) (\<lambda>extraDataId.
               ub_bind (json_put ''extraDataId'' (JInt extraDataId) eventMap) (\<lambda>eventMap.
                 Inr (saId, eventMap))))))))"

definition CheckSaId :: "env \<Rightarrow> int \<Rightarrow> bool" where
  "CheckSaId env saId = (saId \<ge> FIRST_SYS_ABILITY_ID env \<and> saId \<le> LAST_SYS_ABILITY_ID env)"

section \<open>Allocator options\<close>

fun scan_mallopt :: "bool \<Rightarrow> string list \<Rightarrow> int list \<Rightarrow> int \<Rightarrow> int \<Rightarrow> string list \<Rightarrow> ub + int \<times> int \<times> string list" where
  "scan_mallopt jemalloc argv [] ondemandLoad eventIndex malloptStrList = Inr (ondemandLoad, eventIndex, malloptStrList)"
| "scan_mallopt jemalloc argv (i # is) ondemandLoad eventIndex malloptStrList =
     ub_bind (argv_at argv i) (\<lambda>arg.
       if arg = PARAM_PREFIX_M
       then ub_bind (if jemalloc then ub_bind (argv_at argv (i + 1)) (\<lambda>s. Inr (malloptStrList @ [s])) else Inr malloptStrList)
         (scan_mallopt jemalloc argv is (ondemandLoad + int MALLOPT_CONFIG_LEN) (eventIndex + int MALLOPT_CONFIG_LEN))
       else scan_mallopt jemalloc argv is ondemandLoad eventIndex malloptStrList)"

fun apply_mallopt :: "env \<Rightarrow> string list \<Rightarrow> proc \<Rightarrow> ub + proc" where
  "apply_mallopt env [] p = Inr p"
| "apply_mallopt env (s # rest) p =
     (let malloptItem = SplitStr env s '':'' in
      if length malloptItem \<noteq> MALLOPT_CONFIG_LEN then apply_mallopt env rest p
      else ub_bind (atoi (malloptItem ! 0)) (\<lambda>key.
           ub_bind (atoi (malloptItem ! 1)) (\<lambda>val.
             apply_mallopt env rest (emit (E_Mallopt key val) p))))"

definition InitMallopt :: "env \<Rightarrow> bool \<Rightarrow> int \<Rightarrow> string list \<Rightarrow> int \<Rightarrow> int \<Rightarrow> proc \<Rightarrow> ub + int \<times> int \<times> proc" where
  "InitMallopt env jemalloc argc argv ondemandLoad eventIndex p =
     ub_bind (scan_mallopt jemalloc argv [0..argc - 2] ondemandLoad eventIndex [])
       (\<lambda>(ondemandLoad, eventIndex, malloptStrList).
          ub_bind (if jemalloc then apply_mallopt env malloptStrList p else Inr p) (\<lambda>p. Inr (ondemandLoad, eventIndex, p)))"

section \<open>Entries\<close>

definition DoStartSAProcess_main :: "env \<Rightarrow> nat \<Rightarrow> int \<Rightarrow> string list \<Rightarrow> int \<Rightarrow> proc \<Rightarrow> ub + (int \<times> proc) option" where
  "DoStartSAProcess_main env fuel argc argv saId p =
     (if argc > DEFAULT_LOAD
      then ub_bind (argv_at argv PROFILE_INDEX) (\<lambda>filePath.
        if filePath = [] \<or> str_find ''.json'' filePath = None then Inr (Some (0, p))
        else Inr (map_option (\<lambda>p. (0, p)) (DoStartSAProcess env fuel filePath saId (SetProcName env argv filePath p))))
      else Inr (map_option (\<lambda>p. (0, p)) (DoStartSAProcess env fuel DEFAULT_JSON saId p)))"

text \<open>The exit code of the inner call is dropped.\<close>

definition exit_zero :: "ub + (int \<times> proc) option \<Rightarrow> ub + (int \<times> proc) option" where
  "exit_zero r = ub_bind r (\<lambda>res. Inr (map_option (\<lambda>(_, p). (0, p)) res))"

definition main_safwk :: "env \<Rightarrow> bool \<Rightarrow> nat \<Rightarrow> int \<Rightarrow> string list option \<Rightarrow> proc \<Rightarrow> ub + (int \<times> proc) option" where
  "main_safwk env jemalloc fuel argc argv p =
     (if argc < ARGC_LIMIT \<or> argc > ARGC_MAX_COUNT then Inr (Some (-1, p))
      else case argv of
        None \<Rightarrow> Inr (Some (-1, p))
      | Some argv \<Rightarrow>
          ub_bind (InitMallopt env jemalloc argc argv ONDEMAND_LOAD EVENT_INDEX p) (\<lambda>(ondemandLoad, eventIndex, p).
            if argc > ondemandLoad
            then if eventIndex \<ge> argc then Inr (Some (0, emit (E_ReportSaMainExit ''sa services path config error'') p))
              else ub_bind (ParseArgv env argv JNull eventIndex) (\<lambda>(saId, eventMap).
                if \<not> CheckSaId env saId then Inr (Some (0, emit (E_ReportSaMainExit ''saId is invalid'') p))
                else exit_zero (DoStartSAProcess_main env fuel argc argv saId (SetStartReason saId eventMap p)))
            else exit_zero (DoStartSAProcess_main env fuel argc argv DEFAULT_SAID p)))"

section \<open>The second entry\<close>

text \<open>
  \<open>system_ability_start.cpp\<close> has its own copies of \<open>ParseArgv\<close>, \<open>CheckSaId\<close>, \<open>DoStartSAProcess\<close> and \<open>InitMallopt\<close>, with the same loops. The
  copies are written out from that file, so that the agreement of the two entries is proved and not assumed.
\<close>

definition ParseArgv_start :: "env \<Rightarrow> string list \<Rightarrow> json \<Rightarrow> int \<Rightarrow> ub + int \<times> json" where
  "ParseArgv_start env argv eventMap eventIndex =
     ub_bind (argv_at argv eventIndex) (\<lambda>eventStr.
       if length eventStr > MAX_LENGTH then Inr (DEFAULT_SAID, eventMap)
       else let eventVec = event_parts eventStr [] in
         if length eventVec \<noteq> PARTEVENT_NUM then Inr (DEFAULT_SAID, eventMap)
         else case StrToInt env (eventVec ! 0) of
             None \<Rightarrow> Inr (DEFAULT_SAID, eventMap)
           | Some saId \<Rightarrow>
               ub_bind (atoi (eventVec ! 1)) (\<lambda>eventId.
               ub_bind (json_put ''eventId'' (JInt eventId) eventMap) (\<lambda>eventMap.
               ub_bind (json_put ''name'' (JStr (eventVec ! 2)) eventMap) (\<lambda>eventMap.
               ub_bind (json_put ''value'' (JStr (eventVec ! 3)) eventMap) (\<lambda>eventMap.
               ub_bind (atoi (eventVec ! 4)) (\<lambda>extraDataId.
               ub_bind (json_put ''extraDataId'' (JInt extraDataId) eventMap) (\<lambda>eventMap.
                 Inr (saId, eventMap))))))))"

definition CheckSaId_start :: "env \<Rightarrow> int \<Rightarrow> bool" where
  "CheckSaId_start env saId = (saId \<ge> FIRST_SYS_ABILITY_ID env \<and> saId \<le> LAST_SYS_ABILITY_ID env)"

definition InitMallopt_start :: "env \<Rightarrow> bool \<Rightarrow> int \<Rightarrow> string list \<Rightarrow> int \<Rightarrow> int \<Rightarrow> proc \<Rightarrow> ub + int \<times> int \<times> proc" where
  "InitMallopt_start env jemalloc argc argv ondemandLoad eventIndex p =
     ub_bind (scan_mallopt jemalloc argv [0..argc - 2] ondemandLoad eventIndex [])
       (\<lambda>(ondemandLoad, eventIndex, malloptStrList).
          ub_bind (if jemalloc then apply_mallopt env malloptStrList p else Inr p) (\<lambda>p. Inr (ondemandLoad, eventIndex, p)))"

definition DoStartSAProcess_start :: "env \<Rightarrow> nat \<Rightarrow> int \<Rightarrow> string list \<Rightarrow> int \<Rightarrow> proc \<Rightarrow> ub + (int \<times> proc) option" where
  "DoStartSAProcess_start env fuel argc argv saId p =
     (if argc > DEFAULT_LOAD
      then ub_bind (argv_at argv PROFILE_INDEX) (\<lambda>filePath.
        if filePath = [] \<or> str_find ''.json'' filePath = None then Inr (Some (0, p))
        else Inr (map_option (\<lambda>p. (0, p)) (DoStartSAProcess env fuel filePath saId p)))
      else Inr (map_option (\<lambda>p. (0, p)) (DoStartSAProcess env fuel DEFAULT_JSON saId p)))"

definition StartSA :: "env \<Rightarrow> bool \<Rightarrow> nat \<Rightarrow> int \<Rightarrow> string list option \<Rightarrow> proc \<Rightarrow> ub + (int \<times> proc) option" where
  "StartSA env jemalloc fuel argc argv p =
     (if argc < ARGC_LIMIT \<or> argc > ARGC_MAX_COUNT then Inr (Some (-1, p))
      else case argv of
        None \<Rightarrow> Inr (Some (-1, p))
      | Some argv \<Rightarrow>
          ub_bind (InitMallopt_start env jemalloc argc argv ONDEMAND_LOAD EVENT_INDEX p) (\<lambda>(ondemandLoad, eventIndex, p).
            if argc > ondemandLoad
            then if eventIndex \<ge> argc then Inr (Some (0, emit (E_ReportSaMainExit ''sa services path config error'') p))
              else ub_bind (ParseArgv_start env argv JNull eventIndex) (\<lambda>(saId, eventMap).
                if \<not> CheckSaId_start env saId then Inr (Some (0, emit (E_ReportSaMainExit ''saId is invalid'') p))
                else exit_zero (DoStartSAProcess_start env fuel argc argv saId (SetStartReason saId eventMap p)))
            else exit_zero (DoStartSAProcess_start env fuel argc argv DEFAULT_SAID p)))"

lemma copies_agree:
  "ParseArgv_start = ParseArgv" "CheckSaId_start = CheckSaId" "InitMallopt_start = InitMallopt"
  by (intro ext, simp only: ParseArgv_start_def ParseArgv_def CheckSaId_start_def CheckSaId_def InitMallopt_start_def InitMallopt_def)+

section \<open>What an argument vector asks for\<close>

text \<open>The strings that follow an allocator option.\<close>

fun mallopt_args :: "string list \<Rightarrow> string list" where
  "mallopt_args (a # b # rest) = (if a = PARAM_PREFIX_M then [b] else []) @ mallopt_args (b # rest)"
| "mallopt_args _ = []"

text \<open>
  The specification both entries share: the arguments from the third on are allocator options and their values, in any order, and
  whatever is left beyond two strings per option is an event at the position just after. A process without one boots all its
  abilities, one with a valid event boots for that ability with the event as its start reason, and one with an invalid event
  reports and exits. Without a profile name nothing is booted. \<open>name\<close> is what is done to the process before the boot.
\<close>

definition launch :: "env \<Rightarrow> nat \<Rightarrow> (proc \<Rightarrow> proc) \<Rightarrow> string list \<Rightarrow> proc \<Rightarrow> ub + (int \<times> proc) option" where
  "launch env fuel name argv p =
     (let boot = (\<lambda>saId p. if str_find ''.json'' (argv ! 1) = None then Some (0, p)
                            else map_option (\<lambda>p. (0, p)) (DoStartSAProcess env fuel (argv ! 1) saId (name p)));
          index = 2 + 2 * length (mallopt_args argv)
      in if length argv \<le> index then Inr (boot DEFAULT_SAID p)
         else ub_bind (ParseArgv env argv JNull (int index)) (\<lambda>(saId, event).
           Inr (if CheckSaId env saId then boot saId (SetStartReason saId event p)
                else Some (0, emit (E_ReportSaMainExit ''saId is invalid'') p))))"

definition allocator_options :: "env \<Rightarrow> bool \<Rightarrow> string list \<Rightarrow> proc \<Rightarrow> ub + proc" where
  "allocator_options env jemalloc argv p = (if jemalloc then apply_mallopt env (mallopt_args argv) p else Inr p)"

lemma scan_mallopt_suffix:
  "argv = pre @ suf \<Longrightarrow>
     scan_mallopt jemalloc argv [int (length pre)..int (length argv) - 2] od ei strs =
       (let args = mallopt_args suf in
        Inr (od + 2 * int (length args), ei + 2 * int (length args), strs @ (if jemalloc then args else [])))"
proof (induction suf arbitrary: pre od ei strs rule: mallopt_args.induct)
  case (1 a b rest)
  define k where "k = int (length (pre @ [a]))"
  have up: "[int (length pre)..int (length argv) - 2] = int (length pre) # [k..int (length argv) - 2]"
    using "1.prems" by (simp add: k_def upto_rec1 add.commute)
  have at: "argv_at argv (int (length pre)) = Inr a" "argv_at argv (int (length pre) + 1) = Inr b"
    using "1.prems" by (simp_all add: argv_at_def nth_append nat_add_distrib)
  have "\<forall>od ei strs. scan_mallopt jemalloc argv [k..int (length argv) - 2] od ei strs =
       (let args = mallopt_args (b # rest) in
        Inr (od + 2 * int (length args), ei + 2 * int (length args), strs @ (if jemalloc then args else [])))"
    unfolding k_def by (intro allI "1.IH") (simp add: "1.prems")
  then show ?case
    by (cases "a = PARAM_PREFIX_M"; cases jemalloc) (simp_all add: up at Let_def MALLOPT_CONFIG_LEN_def)
qed (simp_all add: Let_def)

lemma InitMallopt_eq:
  "InitMallopt env jemalloc (int (length argv)) argv od ei p =
     ub_bind (allocator_options env jemalloc argv p)
       (\<lambda>p. Inr (od + 2 * int (length (mallopt_args argv)), ei + 2 * int (length (mallopt_args argv)), p))"
  using scan_mallopt_suffix [of argv "[]" argv jemalloc od ei "[]"] by (simp add: InitMallopt_def allocator_options_def Let_def)

lemma ub_bind_assoc: "ub_bind (ub_bind r f) g = ub_bind r (\<lambda>x. ub_bind (f x) g)"
  by (cases r) simp_all

lemma str_find_Nil: "str_find (c # sub) [] = None"
  by simp

lemma exit_zero_boot: "exit_zero (Inr (map_option (\<lambda>p. (0, p)) r)) = Inr (map_option (\<lambda>p. (0, p)) r)"
  by (cases r) (simp_all add: exit_zero_def)

lemma DoStart_main_eq:
  assumes "2 \<le> length argv"
  shows "exit_zero (DoStartSAProcess_main env fuel (int (length argv)) argv saId p) =
     Inr (if str_find ''.json'' (argv ! 1) = None then Some (0, p)
          else map_option (\<lambda>p. (0, p)) (DoStartSAProcess env fuel (argv ! 1) saId (SetProcName env argv (argv ! 1) p)))"
    and "exit_zero (DoStartSAProcess_start env fuel (int (length argv)) argv saId p) =
     Inr (if str_find ''.json'' (argv ! 1) = None then Some (0, p)
          else map_option (\<lambda>p. (0, p)) (DoStartSAProcess env fuel (argv ! 1) saId p))"
proof -
  have a: "argv_at argv PROFILE_INDEX = Inr (argv ! 1)" "DEFAULT_LOAD < int (length argv)"
    using assms by (simp_all add: argv_at_def PROFILE_INDEX_def DEFAULT_LOAD_def)
  have e: "argv ! 1 = [] \<or> str_find ''.json'' (argv ! 1) = None \<longleftrightarrow> str_find ''.json'' (argv ! 1) = None"
    by (cases "argv ! 1") simp_all
  have z: "exit_zero (Inr (Some (0, p))) = Inr (Some (0, p))" by (simp add: exit_zero_def)
  show "exit_zero (DoStartSAProcess_main env fuel (int (length argv)) argv saId p) =
     Inr (if str_find ''.json'' (argv ! 1) = None then Some (0, p)
          else map_option (\<lambda>p. (0, p)) (DoStartSAProcess env fuel (argv ! 1) saId (SetProcName env argv (argv ! 1) p)))"
    unfolding DoStartSAProcess_main_def a(1) ub_bind_simps e by (simp only: a(2) if_True exit_zero_boot z split: if_split) blast
  show "exit_zero (DoStartSAProcess_start env fuel (int (length argv)) argv saId p) =
     Inr (if str_find ''.json'' (argv ! 1) = None then Some (0, p)
          else map_option (\<lambda>p. (0, p)) (DoStartSAProcess env fuel (argv ! 1) saId p))"
    unfolding DoStartSAProcess_start_def a(1) ub_bind_simps e by (simp only: a(2) if_True exit_zero_boot z split: if_split) blast
qed

lemma str_find_char:
  "c \<notin> set s \<Longrightarrow> str_find [c] (s @ c # t) = Some (length s)"
  "c \<notin> set s \<Longrightarrow> str_find [c] s = None"
  by (induction s) auto

lemma event_parts_join:
  assumes "CHR ''#'' \<notin> set rest"
  shows "\<forall>s \<in> set parts. CHR ''#'' \<notin> set s \<Longrightarrow> event_parts (concat (map (\<lambda>s. s @ ''#'') parts) @ rest) acc = acc @ parts"
proof (induction parts arbitrary: acc)
  case Nil
  then show ?case using assms by (simp add: event_parts.simps [of rest] str_find_char)
next
  case (Cons s parts)
  let ?t = "concat (map (\<lambda>s. s @ ''#'') parts) @ rest"
  have f: "str_find ''#'' (s @ CHR ''#'' # ?t) = Some (length s)" using Cons.prems str_find_char(1) by simp
  have "event_parts (s @ CHR ''#'' # ?t) acc = event_parts ?t (acc @ [s])"
    by (subst event_parts.simps) (simp only: f option.case, simp)
  then show ?case using Cons by simp
qed

lemma mallopt_args_skip: "a \<noteq> PARAM_PREFIX_M \<Longrightarrow> mallopt_args (a # xs) = mallopt_args xs"
  by (cases xs) simp_all

lemma mallopt_args_pairs:
  "PARAM_PREFIX_M \<notin> set cfgs \<Longrightarrow> mallopt_args (concat (map (\<lambda>c. [PARAM_PREFIX_M, c]) cfgs) @ [event]) = cfgs"
proof (induction cfgs)
  case (Cons c cfgs)
  then show ?case by (cases "concat (map (\<lambda>c. [PARAM_PREFIX_M, c]) cfgs) @ [event]") (auto simp: mallopt_args_skip)
qed simp

lemma atoi_range: "atoi s = Inr n \<Longrightarrow> - (2 ^ 31) \<le> n \<and> n < 2 ^ 31"
  by (simp add: atoi_def Let_def split: if_splits)

lemma ParseArgv_event:
  assumes "argv_at argv k = Inr (concat (map (\<lambda>s. s @ ''#'') [sa, eid, name, val, xid]))"
    and "\<forall>s \<in> {sa, eid, name, val, xid}. CHR ''#'' \<notin> set s"
    and "length (concat (map (\<lambda>s. s @ ''#'') [sa, eid, name, val, xid])) \<le> MAX_LENGTH"
    and "StrToInt env sa = Some saId" and "atoi eid = Inr i" and "atoi xid = Inr x"
  shows "ParseArgv env argv JNull k =
     Inr (saId, JObj [(''eventId'', JInt i), (''extraDataId'', JInt x), (''name'', JStr name), (''value'', JStr val)])"
proof -
  have "event_parts (concat (map (\<lambda>s. s @ ''#'') [sa, eid, name, val, xid])) [] = [sa, eid, name, val, xid]"
    using event_parts_join [of "[]" "[sa, eid, name, val, xid]" "[]"] assms(2) by simp
  then show ?thesis
    using assms unfolding ParseArgv_def assms(1) ub_bind_simps
    by (simp add: Let_def PARTEVENT_NUM_def json_put_def less_char_def del: concat.simps list.map length_concat)
qed

lemma both_launch:
  assumes "argc = int (length argv)" and "2 \<le> argc" and "argc \<le> 64"
  shows main_launch: "main_safwk env jemalloc fuel argc (Some argv) p =
           ub_bind (allocator_options env jemalloc argv p) (launch env fuel (SetProcName env argv (argv ! 1)) argv)"
    and StartSA_launch: "StartSA env jemalloc fuel argc (Some argv) p =
           ub_bind (allocator_options env jemalloc argv p) (launch env fuel (\<lambda>p. p) argv)"
proof -
  have n: "2 \<le> length argv" using assms(1,2) by simp
  have c: "\<not> (argc < ARGC_LIMIT \<or> argc > ARGC_MAX_COUNT)" using assms(2,3) by (simp add: ARGC_LIMIT_def ARGC_MAX_COUNT_def)
  have i: "ONDEMAND_LOAD + 2 * int n = int (2 + 2 * n)" "EVENT_INDEX + 2 * int n = int (2 + 2 * n)" for n
    by (simp_all add: ONDEMAND_LOAD_def EVENT_INDEX_def)
  show "main_safwk env jemalloc fuel argc (Some argv) p =
           ub_bind (allocator_options env jemalloc argv p) (launch env fuel (SetProcName env argv (argv ! 1)) argv)"
    using c unfolding main_safwk_def assms(1)
    by (auto simp: launch_def Let_def InitMallopt_eq i ub_bind_assoc DoStart_main_eq [OF n] not_less case_prod_beta
        simp del: of_nat_add of_nat_mult intro!: arg_cong2 [where f = ub_bind] ext)
  show "StartSA env jemalloc fuel argc (Some argv) p =
           ub_bind (allocator_options env jemalloc argv p) (launch env fuel (\<lambda>p. p) argv)"
    using c unfolding StartSA_def copies_agree assms(1)
    by (auto simp: launch_def Let_def InitMallopt_eq i ub_bind_assoc DoStart_main_eq [OF n] not_less case_prod_beta
        simp del: of_nat_add of_nat_mult intro!: arg_cong2 [where f = ub_bind] ext)
qed

text \<open>
  The contract of an entry of the process: it refuses an impossible argument vector, and performs the launch of any
  other one after the allocator options, with some preparation of the process before the boot. What follows from the contract is
  proved for both entries at once.
\<close>

locale process_entry =
  fixes entry :: "env \<Rightarrow> bool \<Rightarrow> nat \<Rightarrow> int \<Rightarrow> string list option \<Rightarrow> proc \<Rightarrow> ub + (int \<times> proc) option"
    and prepare :: "env \<Rightarrow> string list \<Rightarrow> proc \<Rightarrow> proc"
  assumes entry_launch: "argc = int (length argv) \<Longrightarrow> 2 \<le> argc \<Longrightarrow> argc \<le> 64 \<Longrightarrow>
      entry env jemalloc fuel argc (Some argv) p =
        ub_bind (allocator_options env jemalloc argv p) (launch env fuel (prepare env argv) argv)"
    and entry_refuses: "argc < 2 \<or> argc > 64 \<or> args = None \<Longrightarrow> entry env jemalloc fuel argc args p = Inr (Some (-1, p))"
begin

text \<open>The arguments are never read out of range: what can be undefined is only a number that does not fit.\<close>

lemma entry_defined:
  assumes "args = None \<or> args = Some argv \<and> argc = int (length argv)" and "entry env jemalloc fuel argc args p = Inl e"
  shows "e = IntOverflow"
proof -
  have atoi: "atoi s = Inl e \<Longrightarrow> e = IntOverflow" for s by (simp add: atoi_def Let_def split: if_splits)
  have opts: "apply_mallopt env strs p = Inl e \<Longrightarrow> e = IntOverflow" for strs p
    by (induction env strs p rule: apply_mallopt.induct) (auto simp: Let_def ub_bind_Inl dest: atoi split: if_splits)
  have parse: "k < length argv \<Longrightarrow> ParseArgv env argv JNull (int k) = Inl e \<Longrightarrow> e = IntOverflow" for k
    by (auto simp: ParseArgv_def argv_at_def ub_bind_Inl json_put_def Let_def dest: atoi split: if_splits option.splits)
  have "\<not> (argc < 2 \<or> argc > 64 \<or> args = None)" using assms(2) entry_refuses by (metis Inl_Inr_False)
  then have "ub_bind (allocator_options env jemalloc argv p) (launch env fuel (prepare env argv) argv) = Inl e"
    using assms entry_launch by auto
  then show ?thesis
    using parse [of "2 + 2 * length (mallopt_args argv)"]
    by (auto simp: ub_bind_Inl allocator_options_def launch_def Let_def dest: opts split: if_splits)
qed

lemma entry_event:
  assumes "argv = [prog, profile] @ concat (map (\<lambda>c. [''-m'', c]) cfgs) @ [event]"
    and "''-m'' \<notin> set (prog # profile # cfgs)" and "length argv \<le> 64"
    and "event = concat (map (\<lambda>s. s @ ''#'') [sa, eid, name, val, xid])"
    and "\<forall>s \<in> {sa, eid, name, val, xid}. CHR ''#'' \<notin> set s" and "length event \<le> 2000"
    and "StrToInt env sa = Some saId" and "CheckSaId env saId" and "atoi eid = Inr i" and "atoi xid = Inr x"
    and "str_find ''.json'' profile \<noteq> None"
  shows "\<exists>j. entry env jemalloc fuel (int (length argv)) (Some argv) p =
         ub_bind (if jemalloc then apply_mallopt env cfgs p else Inr p) (\<lambda>p.
           Inr (map_option (\<lambda>q. (0, q)) (DoStartSAProcess env fuel profile saId
                  (prepare env argv (SetStartReason saId j p)))))
       \<and> (\<forall>n. JsonToOnDemandReason n j =
              \<lparr>reasonIdM = i, reasonNameM = name, reasonValueM = val, extraDataIdM = x, extraDataM = OnDemandReasonExtraData_default\<rparr>)"
proof -
  let ?j = "JObj [(''eventId'', JInt i), (''extraDataId'', JInt x), (''name'', JStr name), (''value'', JStr val)]"
  let ?k = "2 + 2 * length cfgs"
  have "prog \<noteq> PARAM_PREFIX_M" "profile \<noteq> PARAM_PREFIX_M" "PARAM_PREFIX_M \<notin> set cfgs"
    using assms(2) by (auto simp: PARAM_PREFIX_M_def)
  then have m: "mallopt_args argv = cfgs"
    using mallopt_args_pairs [of cfgs event] unfolding assms(1)
    by (simp add: mallopt_args_skip flip: PARAM_PREFIX_M_def)
  have len: "length argv = Suc ?k" "argv ! 1 = profile" unfolding assms(1) by (induction cfgs) simp_all
  have "argv ! ?k = event"
  proof -
    have "argv = butlast argv @ [event]" unfolding assms(1) by (simp add: butlast_append)
    then show ?thesis by (metis len(1) length_butlast diff_Suc_1 nth_append_length)
  qed
  then have "argv_at argv (int ?k) = Inr event" using len by (simp add: argv_at_def nat_add_distrib nat_mult_distrib)
  then have "ParseArgv env argv JNull (int ?k) = Inr (saId, ?j)"
    using ParseArgv_event [of argv "int ?k" sa eid name val xid env saId i x] assms(4-7,9,10) by (simp add: MAX_LENGTH_def)
  then have "launch env fuel (prepare env argv) argv = (\<lambda>p. Inr (map_option (\<lambda>q. (0, q))
      (DoStartSAProcess env fuel profile saId (prepare env argv (SetStartReason saId ?j p)))))"
    using assms(8,11) len by (intro ext) (auto simp: launch_def m Let_def)
  then have "entry env jemalloc fuel (int (length argv)) (Some argv) p =
      ub_bind (if jemalloc then apply_mallopt env cfgs p else Inr p) (\<lambda>p. Inr (map_option (\<lambda>q. (0, q))
        (DoStartSAProcess env fuel profile saId (prepare env argv (SetStartReason saId ?j p)))))"
    using entry_launch [of "int (length argv)" argv env jemalloc fuel p] assms(3) len
    by (simp only: allocator_options_def m)
  moreover have "JsonToOnDemandReason n ?j = \<lparr>reasonIdM = i, reasonNameM = name, reasonValueM = val, extraDataIdM = x,
      extraDataM = OnDemandReasonExtraData_default\<rparr>" for n
    using atoi_range [OF assms(9)] atoi_range [OF assms(10)]
    by (simp add: JsonToOnDemandReason_def json_find_def smap_find_def json_number_def json_string_def s32_id s64_id
        SystemAbilityOnDemandReason_default_def)
  ultimately show ?thesis by blast
qed

end

interpretation me: process_entry main_safwk "\<lambda>env argv. SetProcName env argv (argv ! 1)"
  by unfold_locales (simp_all add: main_launch, auto simp: main_safwk_def ARGC_LIMIT_def ARGC_MAX_COUNT_def split: option.split)

interpretation se: process_entry StartSA "\<lambda>env argv p. p"
  by unfold_locales (simp_all add: StartSA_launch, auto simp: StartSA_def ARGC_LIMIT_def ARGC_MAX_COUNT_def split: option.split)

section \<open>Properties\<close>

text \<open>
  C17. The two entries agree and implement the specification of the argument vector: for 2 to 64 arguments \<open>main\<close> and
  \<open>StartSA\<close> apply the allocator options and then perform the same launch, except that \<open>main\<close> sets the process name first. The
  only thing that can be undefined in a run is a number that does not fit: neither entry reads the vector out of range, and the report of a
  missing services path is never made.
\<close>

theorem entries_agree:
  assumes "argc = int (length argv)" and "2 \<le> argc" and "argc \<le> 64"
  shows "main_safwk env jemalloc fuel argc (Some argv) p =
           ub_bind (allocator_options env jemalloc argv p) (launch env fuel (SetProcName env argv (argv ! 1)) argv)
       \<and> StartSA env jemalloc fuel argc (Some argv) p =
           ub_bind (allocator_options env jemalloc argv p) (launch env fuel (\<lambda>p. p) argv)
       \<and> (\<forall>e. main_safwk env jemalloc fuel argc (Some argv) p = Inl e \<or> StartSA env jemalloc fuel argc (Some argv) p = Inl e
              \<longrightarrow> e = IntOverflow)"
  using me.entry_launch [OF assms] se.entry_launch [OF assms] me.entry_defined [of "Some argv" argv argc env jemalloc fuel p]
    se.entry_defined [of "Some argv" argv argc env jemalloc fuel p] assms(1) by blast

definition fresh_process :: proc where
  "fresh_process = LocalAbilityManager (\<lambda>_. SystemAbility 7 False)"

theorem entries_agree_witness:
  "main_safwk quiet_env False 0 2 (Some [''sa_main'', ''a.txt'']) fresh_process = Inr (Some (0, fresh_process))
   \<and> StartSA quiet_env False 0 2 (Some [''sa_main'', ''a.txt'']) fresh_process = Inr (Some (0, fresh_process))"
  using entries_agree [of 2 "[''sa_main'', ''a.txt'']" quiet_env False 0 fresh_process]
  by (simp add: allocator_options_def launch_def PARAM_PREFIX_M_def)

definition number_env :: env where
  "number_env = quiet_env\<lparr>StrToInt := (\<lambda>_. Some 7), SplitStr := (\<lambda>s _. [drop 1 s])\<rparr>"

text \<open>
  The process name fits: the space of the arguments that \<open>main\<close> clears and writes the profile name into is longer than the
  name with its terminator, since the name is a part of the second argument, and the thread name it sets has at most 15
  characters.
\<close>

theorem process_name_fits:
  assumes "2 \<le> length argv" and "SplitStr env (argv ! 1) ''/'' = dirs @ [fileName]" and "sublist fileName (argv ! 1)"
    and "str_find ''.'' fileName = Some dot" and "\<And>h n. ans_int env (h @ [E_ClearArguments n]) = EOK env"
  shows "\<exists>size. length (take dot fileName) < size \<and> size = arg_span argv \<and> length (take (min dot 15) fileName) \<le> 15
     \<and> SetProcName env argv (argv ! 1) p =
         emit (E_Prctl (take (min dot 15) fileName)) (StartMemoryHook env (take dot fileName)
           (emit (E_CopyProcessName size (take dot fileName)) (emit (E_ClearArguments size) p)))"
proof (intro exI conjI)
  obtain a b rest where ab: "argv = a # b # rest" using assms(1) by (cases argv; cases "tl argv") auto
  have "dot < length fileName" using str_find_bound [OF assms(4)] by simp
  also have "\<dots> \<le> length (argv ! 1)" using assms(3) by (simp add: sublist_length_le)
  finally show "length (take dot fileName) < arg_span argv" by (simp add: ab arg_span_def)
  show "SetProcName env argv (argv ! 1) p =
         emit (E_Prctl (take (min dot 15) fileName)) (StartMemoryHook env (take dot fileName)
           (emit (E_CopyProcessName (arg_span argv) (take dot fileName)) (emit (E_ClearArguments (arg_span argv)) p)))"
    using assms(2,4,5) by (simp add: SetProcName_def setProcessName_def asks Let_def MAX_LEN_PID_NAME_def min_def)
qed simp_all

theorem process_name_fits_witness:
  "\<exists>size. 1 < size \<and> SetProcName number_env [''sa_main'', ''/a.json''] ''/a.json'' fresh_process =
     emit (E_Prctl ''a'') (StartMemoryHook number_env ''a'' (emit (E_CopyProcessName size ''a'') (emit (E_ClearArguments size) fresh_process)))"
proof -
  have "\<exists>size. length (take 1 ''a.json'') < size \<and> size = arg_span [''sa_main'', ''/a.json''] \<and> length (take (min 1 15) ''a.json'') \<le> 15
     \<and> SetProcName number_env [''sa_main'', ''/a.json''] ([''sa_main'', ''/a.json''] ! 1) fresh_process =
         emit (E_Prctl (take (min 1 15) ''a.json'')) (StartMemoryHook number_env (take 1 ''a.json'')
           (emit (E_CopyProcessName size (take 1 ''a.json'')) (emit (E_ClearArguments size) fresh_process)))"
    by (rule process_name_fits [where dirs = "[]"]) (simp_all add: number_env_def quiet_env_def sublist_def exI [of _ "''/''"])
  then show ?thesis by auto
qed

end
