(* ===== verification/Lam_Process.thy ===== *)
theory Lam_Process
  imports Lam_Stub Safwk_Main
begin

text \<open>
  The process as a whole: a step is one call of an entry point of the framework, by the operating system (\<open>main\<close>), the system
  ability manager, an ability or the scheduler running a detached thread; a process runs as any sequence of steps. The invariants of the
  registry, the listener table, the unused-ability configuration and the statistics hold in every reachable state, also when callbacks and other threads
  re-enter the framework while an operation runs.
\<close>

section \<open>Steps\<close>

inductive manager_step :: "'p message_parcel \<Rightarrow> stub_consts \<Rightarrow> env \<Rightarrow> proc \<Rightarrow> proc \<Rightarrow> bool" for P C env where
  do_start: "DoStartSAProcess env fuel path saId p = Some q \<Longrightarrow> manager_step P C env p q"
| main_entry: "main_safwk env jemalloc fuel argc argv p = Inr (Some (ret, q)) \<Longrightarrow> manager_step P C env p q"
| start_entry: "StartSA env jemalloc fuel argc argv p = Inr (Some (ret, q)) \<Longrightarrow> manager_step P C env p q"
| add_ability: "manager_step P C env p (snd (AddAbility env ability p))"
| remove_ability: "manager_step P C env p (snd (RemoveAbility saId p))"
| publish: "manager_step P C env p (snd (Publish env a ob p))"
| start_fail: "manager_step P C env p (snd (OnStartFail env a errCode p))"
| cancel_idle: "manager_step P C env p (snd (CancelIdle env a p))"
| stop_self: "manager_step P C env p (StopAbility_samgr env saId p)"
| dump_ability: "manager_step P C env p (SADump env a p)"
| set_capability: "manager_step P C env p (upd_sa a (SetCapability c) p)"
| set_permission: "manager_step P C env p (upd_sa a (SetPermission c) p)"
| start_ability: "manager_step P C env p (snd (StartAbility env saId eventStr p))"
| stop_ability: "manager_step P C env p (snd (StopAbility env saId eventStr p))"
| thread: "manager_step P C env p (run_detached env i p)"
| active_ability: "manager_step P C env p (snd (ActiveAbility env saId reason p))"
| idle_ability: "manager_step P C env p (snd (snd (IdleAbility env saId reason delayTime p)))"
| send_strategy: "manager_step P C env p (snd (snd (SendStrategyToSA env type saId level action p)))"
| extension: "manager_step P C env p (snd (SystemAbilityExtProc env ext saId callback isAsync p))"
| service_control: "manager_step P C env p (snd (ServiceControlCmd env fd saId args p))"
| add_listener: "manager_step P C env p (snd (AddSystemAbilityListener env saId listener p))"
| remove_listener: "manager_step P C env p (snd (RemoveSystemAbilityListener env saId listener p))"
| status_added: "manager_step P C env p (OnAddSystemAbility env saId deviceId p)"
| status_removed: "manager_step P C env p (OnRemoveSystemAbility env saId deviceId p)"
| timer: "manager_step P C env p (IdentifyUnusedOndemand env p)"
| stop_timer: "manager_step P C env p (StopTimedQuery p)"
| remote_request: "manager_step P C env p (snd (snd (OnRemoteRequest env C P code d reply p)))"
| clear_statistics: "manager_step P C env p (ClearFfrtStatistics env p)"
| clear_resource: "manager_step P C env p (ClearResource p)"

inductive reachable :: "'p message_parcel \<Rightarrow> stub_consts \<Rightarrow> env \<Rightarrow> proc \<Rightarrow> proc \<Rightarrow> bool" for P C env p0 where
  start: "reachable P C env p0 p0"
| step: "reachable P C env p0 p \<Longrightarrow> manager_step P C env p q \<Longrightarrow> reachable P C env p0 q"

text \<open>
  Foreign code that acts on the framework only through its entry points, with callbacks nested to the depth \<open>n\<close>:
  at depth 0 it does nothing to it, and at depth \<open>n + 1\<close> it makes calls whose own callbacks are of depth \<open>n\<close>.
\<close>

primrec tame :: "'p message_parcel \<Rightarrow> stub_consts \<Rightarrow> nat \<Rightarrow> env \<Rightarrow> bool" where
  "tame P C 0 env = silent env"
| "tame P C (Suc n) env = (\<forall>h p. \<exists>env'. tame P C n env' \<and> reachable P C env' p (interfere env h p))"

section \<open>Invariants\<close>

lemma check_unused_frame: "\<exists>t. check_unused env now it p = p\<lparr>trace := t\<rparr>"
  by (auto simp: check_unused_def GetSaLastRequestTime_def asks emit_def Let_def split: option.split
      intro: exI [of _ "trace p"])

locale step_invariant = process_invariant +
  assumes inv_idleTimer: "inv p \<Longrightarrow> inv (p\<lparr>idleTimerM := b\<rparr>)"
    and inv_Dumper: "inv p \<Longrightarrow> inv (snd (FfrtStatCmdProc env K fd cmd p))"
    and inv_ClearFfrt: "inv p \<Longrightarrow> inv (ClearFfrtStatistics env p)"
begin

lemma inv_check_unused: "inv p \<Longrightarrow> inv (check_unused env now it p)"
  using check_unused_frame [of env now it p] by (auto intro: inv_trace)

lemma inv_Identify: "inv p \<Longrightarrow> inv (IdentifyUnusedOndemand env p)"
  by (simp add: IdentifyUnusedOndemand_def case_prod_beta Let_def inv_asks inv_fold inv_check_unused)

lemma inv_StopTimedQuery: "inv p \<Longrightarrow> inv (StopTimedQuery p)"
  by (simp add: StopTimedQuery_def inv_idleTimer inv_emit)

lemma inv_fold_snd: "(\<And>x rp. inv (snd rp) \<Longrightarrow> inv (snd (f x rp))) \<Longrightarrow> inv (snd rp) \<Longrightarrow> inv (snd (fold f xs rp))"
  by (induction xs arbitrary: rp) simp_all

lemma inv_reports:
  "inv (snd rp) \<Longrightarrow> inv (snd (interface_report env pid x rp))"
  "inv (snd rp) \<Longrightarrow> inv (snd (process_report env pid rp))"
proof -
  show 1: "inv (snd rp) \<Longrightarrow> inv (snd (interface_report env pid x rp))" for rp x
    by (simp only: interface_report_def Let_def case_prod_beta ask_int_def query_def fst_conv snd_conv inv_emit)
  have "inv p \<Longrightarrow> inv (snd (fold (interface_report env pid) xs (r, p)))" for xs r p
    using inv_fold_snd [of "interface_report env pid" "(r, p)" xs] 1 by simp
  then show "inv (snd rp) \<Longrightarrow> inv (snd (process_report env pid rp))"
    by (simp only: process_report_def Let_def case_prod_beta ask_int_def query_def fst_conv snd_conv inv_emit)
qed

lemma inv_IpcStat: "inv p \<Longrightarrow> inv (snd (IpcStatCmdProc env K fd cmd p))"
proof -
  assume p: "inv p"
  have "inv q \<Longrightarrow> inv (snd (fold (process_report env) xs (r, q)))" for xs r q
    using inv_fold_snd [of "process_report env" "(r, q)" xs] inv_reports(2) by simp
  then have "inv (snd (snd (GetIpcStatistics env r p)))" for r
    using p by (simp only: GetIpcStatistics_def Let_def case_prod_beta ask_int_def query_def fst_conv snd_conv inv_emit)
  then show ?thesis
    using p by (simp add: IpcStatCmdProc_def StartIpcStatistics_def StopIpcStatistics_def asks Let_def case_prod_beta inv_emit)
qed

lemma inv_func: "rely env inv \<Longrightarrow> inv p \<Longrightarrow> inv (snd (snd (run_func f env C P d reply p)))"
  by (cases f)
     (auto simp: StartAbilityInner_def StopAbilityInner_def ActiveAbilityInner_def IdleAbilityInner_def SendStrategyToSAInner_def
       IpcStatCmdProcInner_def FfrtStatCmdProcInner_def FfrtDumperProcInner_def SystemAbilityExtProcInner_def
       ServiceControlCmdInner_def FfrtDumperProc_def asks Let_def case_prod_beta inv_requests inv_IpcStat inv_Dumper inv_emit
       split: prod.split option.split)

lemma inv_OnRemoteRequest: "rely env inv \<Longrightarrow> inv p \<Longrightarrow> inv (snd (snd (OnRemoteRequest env C P code d reply p)))"
  by (simp add: OnRemoteRequest_def EnforceInterceToken_def CheckPermission_def asks Let_def case_prod_beta inv_emit inv_func
      split: option.split)

lemma inv_apply_mallopt: "apply_mallopt env strs p = Inr q \<Longrightarrow> inv p \<Longrightarrow> inv q"
  by (induction env strs p rule: apply_mallopt.induct) (auto simp: Let_def ub_bind_Inr inv_emit split: if_splits)

lemma inv_InitMallopt: "InitMallopt env jemalloc argc argv od ei p = Inr (od', ei', q) \<Longrightarrow> inv p \<Longrightarrow> inv q"
  by (auto simp: InitMallopt_def ub_bind_Inr split: if_splits dest: inv_apply_mallopt)

lemma inv_SetProcName: "rely env inv \<Longrightarrow> inv p \<Longrightarrow> inv (SetProcName env argv path p)"
  by (simp add: SetProcName_def setProcessName_def StartMemoryHook_def asks Let_def inv_emit inv_run_foreign split: option.split)

lemma inv_entry_boot:
  "exit_zero (DoStartSAProcess_main env fuel argc argv i p) = Inr (Some (ret, q)) \<Longrightarrow> rely env inv \<Longrightarrow> inv p \<Longrightarrow> inv q"
  "exit_zero (DoStartSAProcess_start env fuel argc argv i p) = Inr (Some (ret, q)) \<Longrightarrow> rely env inv \<Longrightarrow> inv p \<Longrightarrow> inv q"
  by (auto simp: exit_zero_def DoStartSAProcess_main_def DoStartSAProcess_start_def ub_bind_Inr split: if_splits
      dest!: inv_DoStart intro: inv_SetProcName)

lemma inv_entries:
  "main_safwk env jemalloc fuel argc argv p = Inr (Some (ret, q)) \<Longrightarrow> rely env inv \<Longrightarrow> inv p \<Longrightarrow> inv q"
  "StartSA env jemalloc fuel argc argv p = Inr (Some (ret, q)) \<Longrightarrow> rely env inv \<Longrightarrow> inv p \<Longrightarrow> inv q"
  by (auto simp: main_safwk_def StartSA_def copies_agree ub_bind_Inr inv_emit split: if_splits option.splits
      dest!: inv_InitMallopt inv_entry_boot intro: inv_SetStartReason)

lemma inv_ability_calls:
  "inv p \<Longrightarrow> inv (snd (OnStartFail env a errCode p))"
  "inv p \<Longrightarrow> inv (snd (CancelIdle env a p))"
  "inv p \<Longrightarrow> inv (StopAbility_samgr env saId p)"
  "inv p \<Longrightarrow> inv (upd_sa a (SetCapability c) p)"
  "inv p \<Longrightarrow> inv (upd_sa a (SetPermission c) p)"
  by (simp_all add: OnStartFail_def CancelIdle_def StopAbility_samgr_def asks Let_def inv_emit inv_sa keeps_identity_def
      SetCapability_def SetPermission_def)

lemma inv_step: "manager_step P C env p q \<Longrightarrow> rely env inv \<Longrightarrow> inv p \<Longrightarrow> inv q"
  by (induction rule: manager_step.induct)
     (simp_all add: inv_entries inv_ability_calls inv_services inv_Publish inv_Identify inv_StopTimedQuery inv_DoStart inv_OnRemoteRequest inv_ClearFfrt
       ClearResource_def SADump_def inv_run_foreign inv_emit)

lemma inv_reachable: "reachable P C env p0 p \<Longrightarrow> rely env inv \<Longrightarrow> inv p0 \<Longrightarrow> inv p"
  by (induction rule: reachable.induct) (auto intro: inv_step)

lemma tame_rely: "tame P C n env \<Longrightarrow> rely env inv"
proof (induction n arbitrary: env)
  case 0
  then show ?case by (simp add: silent_def rely_def)
next
  case (Suc n)
  show ?case unfolding rely_def
  proof (intro allI impI)
    fix h p assume "inv p"
    obtain env' where "tame P C n env'" "reachable P C env' p (interfere env h p)" using Suc.prems by auto
    then show "inv (interfere env h p)" using Suc.IH inv_reachable \<open>inv p\<close> by blast
  qed
qed

lemma inv_tame: "tame P C n env \<Longrightarrow> reachable P C env p0 p \<Longrightarrow> inv p0 \<Longrightarrow> inv p"
  using tame_rely inv_reachable by blast

end

text \<open>An invariant that does not look at the members of the dumper.\<close>

locale dumper_blind = process_invariant +
  assumes blind_idleTimer: "inv p \<Longrightarrow> inv (p\<lparr>idleTimerM := b\<rparr>)"
    and blind_handler: "inv p \<Longrightarrow> inv (p\<lparr>handlerM := h\<rparr>)"
    and blind_buffer: "inv p \<Longrightarrow> inv (p\<lparr>ffrtMetricBufferM := b\<rparr>)"
    and blind_collect: "inv p \<Longrightarrow> inv (p\<lparr>collectEnableM := b\<rparr>)"
begin

lemma inv_ClearBuffer: "inv p \<Longrightarrow> inv (ClearFfrtStatisticsBufferLocked p)"
  by (simp add: ClearFfrtStatisticsBufferLocked_def RemoveTask_def Let_def blind_handler blind_buffer inv_emit split: option.split)

lemma inv_PostTask: "inv p \<Longrightarrow> inv (snd (snd (PostTask env n t m p)))"
  by (simp add: PostTask_def query_def inv_emit split: option.split)

lemma inv_collect_run: "inv p \<Longrightarrow> inv (snd (snd (collect_run env c p)))"
  by (cases c)
     (simp_all add: StartFfrtStatistics_def StopFfrtStatistics_def GetFfrtStatistics_def asks Let_def case_prod_beta
       inv_ClearBuffer inv_PostTask inv_emit blind_handler blind_buffer blind_collect)

lemma inv_Collect: "inv p \<Longrightarrow> inv (snd (snd (CollectFfrtStatistics env K cmd p)))"
  using inv_collect_run [of p env CmdStart] inv_collect_run [of p env CmdStop] inv_collect_run [of p env CmdGet]
  by (simp add: CollectFfrtStatistics_def Let_def case_prod_beta)

end

sublocale dumper_blind \<subseteq> step_invariant
  by unfold_locales
     (simp_all add: blind_idleTimer FfrtStatCmdProc_def ClearFfrtStatistics_def asks Let_def case_prod_beta inv_Collect inv_emit
       inv_ClearBuffer blind_collect)

interpretation reg: dumper_blind registry_ok
  by unfold_locales (simp_all add: registry_ok_def)

interpretation lis: dumper_blind listeners_ok
  by unfold_locales (simp_all add: listeners_ok_def)

interpretation unu: dumper_blind unused_ok
  by unfold_locales (simp_all add: unused_ok_def)

text \<open>The invariant of the dumper itself is one of the process as well.\<close>

lemma dumper_ok_cong:
  "dumper_ok p \<Longrightarrow> collectEnableM q = collectEnableM p \<Longrightarrow> ffrtMetricBufferM q = ffrtMetricBufferM p \<Longrightarrow> handlerM q = handlerM p
     \<Longrightarrow> dumper_ok q"
  by (simp add: dumper_ok_def)

lemma dumper_ok_AddAbility: "dumper_ok p \<Longrightarrow> dumper_ok (snd (AddAbility env q p))"
  by (simp add: AddAbility_def dumper_ok_def Let_def query_def split: option.split)

lemma dumper_ok_RemoveAbility: "dumper_ok p \<Longrightarrow> dumper_ok (snd (RemoveAbility i p))"
  by (simp add: RemoveAbility_def dumper_ok_def)

lemma dumper_ok_StartTimedQuery: "dumper_ok p \<Longrightarrow> dumper_ok (StartTimedQuery env p)"
proof -
  have "collectEnableM (fold init_unused_entry pfs q) = collectEnableM q"
      "ffrtMetricBufferM (fold init_unused_entry pfs q) = ffrtMetricBufferM q"
      "handlerM (fold init_unused_entry pfs q) = handlerM q" for pfs q
    by (induction pfs arbitrary: q) (simp_all add: init_unused_entry_def LimitUnusedTimeout_eq)
  then show "dumper_ok p \<Longrightarrow> ?thesis"
    by (simp add: StartTimedQuery_def StartOnDemandTimer_def InitUnusedCfg_def Let_def asks dumper_ok_def)
qed

lemma dumper_ok_collect: "dumper_ok p \<Longrightarrow> dumper_ok (snd (FfrtStatCmdProc env K fd cmd p))"
proof -
  assume p: "dumper_ok p"
  have "dumper_ok (snd (snd (collect_run env c p)))" for c
    using collect_run_spec [OF p] by (metis prod.collapse)
  from this [of CmdStart] this [of CmdStop] this [of CmdGet] p
  have "dumper_ok (snd (snd (CollectFfrtStatistics env K cmd p)))"
    by (simp add: CollectFfrtStatistics_def Let_def case_prod_beta)
  then show ?thesis using p by (simp add: FfrtStatCmdProc_def asks Let_def case_prod_beta) (simp add: dumper_ok_def)
qed

interpretation dmp: listener_blind dumper_ok
  by unfold_locales (simp_all add: dumper_ok_AddAbility dumper_ok_RemoveAbility, (simp_all add: dumper_ok_def reason_tables))

interpretation dmp: step_invariant dumper_ok
  by unfold_locales
     (simp_all add: dumper_ok_StartTimedQuery dumper_ok_collect ClearFfrtStatistics_spec, (simp_all add: dumper_ok_def))

text \<open>
  The types that the code relies on without naming them: the maps are ordered, no phase above the last boot phase is listed, a phase that
  is listed has a non-empty list without null pointers, and the count of unfinished tasks is not negative. The phases
  are not bounded from below: a profile with boot phase 0 passes the check and is listed under 0 (\<open>phase_zero_not_started\<close>).
\<close>

definition members_typed :: "proc \<Rightarrow> bool" where
  "members_typed p \<longleftrightarrow> smap_ok (saIdToStartReasonM p) \<and> smap_ok (saIdToStopReasonM p) \<and> smap_ok (abilityPhaseMapM p)
     \<and> (\<forall>k xs. smap_find (abilityPhaseMapM p) k = Some xs \<longrightarrow> k \<le> OTHER_START \<and> xs \<noteq> [] \<and> None \<notin> set xs)
     \<and> 0 \<le> startTaskNumM p"

lemma members_typed_cong:
  "members_typed p \<Longrightarrow> saIdToStartReasonM q = saIdToStartReasonM p \<Longrightarrow> saIdToStopReasonM q = saIdToStopReasonM p \<Longrightarrow>
     abilityPhaseMapM q = abilityPhaseMapM p \<Longrightarrow> startTaskNumM q = startTaskNumM p \<Longrightarrow> members_typed q"
  by (simp add: members_typed_def)

lemma members_typed_registry:
  "members_typed p \<Longrightarrow> members_typed (snd (AddAbility env q p))" "members_typed p \<Longrightarrow> members_typed (snd (RemoveAbility i p))"
  by (auto simp: AddAbility_def RemoveAbility_def query_def Let_def intro: members_typed_cong split: option.split)

lemma members_typed_InnerLocked: "members_typed p \<Longrightarrow> members_typed (snd (InitializeSaProfilesInnerLocked pf p))"
  by (auto simp: InitializeSaProfilesInnerLocked_def members_typed_def Let_def smap_assign_emplace sm.invar_assign sm.lookup_assign
      smap_find_emplace split: option.split option.splits)

lemma members_typed_StartTimedQuery: "members_typed p \<Longrightarrow> members_typed (StartTimedQuery env p)"
proof -
  have "saIdToStartReasonM (fold init_unused_entry pfs q) = saIdToStartReasonM q"
      "saIdToStopReasonM (fold init_unused_entry pfs q) = saIdToStopReasonM q"
      "abilityPhaseMapM (fold init_unused_entry pfs q) = abilityPhaseMapM q"
      "startTaskNumM (fold init_unused_entry pfs q) = startTaskNumM q" for pfs q
    by (induction pfs arbitrary: q) (simp_all add: init_unused_entry_def LimitUnusedTimeout_eq)
  then show "members_typed p \<Longrightarrow> ?thesis"
    by (auto simp: StartTimedQuery_def StartOnDemandTimer_def InitUnusedCfg_def Let_def asks intro: members_typed_cong)
qed

interpretation mt: listener_blind members_typed
  by unfold_locales
     (simp_all add: members_typed_registry, (simp_all add: members_typed_def reason_tables smap_ok_emplace sm.invar_assign))

interpretation mt: dumper_blind members_typed
  by unfold_locales
     (simp_all add: members_typed_InnerLocked members_typed_StartTimedQuery, (auto simp: members_typed_def))

lemma constructed_state_ok:
  assumes "\<And>a. \<exists>i b. objs a = SystemAbility i b"
  shows "registry_ok (LocalAbilityManager objs)" "listeners_ok (LocalAbilityManager objs)" "unused_ok (LocalAbilityManager objs)"
    "dumper_ok (LocalAbilityManager objs)" "members_typed (LocalAbilityManager objs)"
proof -
  have "timeout_ok (objs a)" for a
    using assms [of a] by (auto simp: timeout_ok_def SystemAbility_def MIN_DEPENDENCY_TIMEOUT_def
        MAX_DEPENDENCY_TIMEOUT_def DEFAULT_DEPENDENCY_TIMEOUT_def)
  then show "registry_ok (LocalAbilityManager objs)" by (simp add: registry_ok_def LocalAbilityManager_def)
qed (simp_all add: listeners_ok_def unused_ok_def dumper_ok_def members_typed_def LocalAbilityManager_def smap_find_def)

section \<open>Properties\<close>

text \<open>
  C1. In every state that a process can reach from its construction, with callbacks that re-enter the framework to any
  depth: the registry maps identifiers to abilities of that identifier, whose dependency timeouts are within [200, 60000] ms;
  no listener is listed twice and no empty list is kept; every unused-limit lies between one minute and two hours; and while
  statistics are collected their buffer and handler exist.
\<close>

theorem reachable_states_ok:
  assumes "tame P C n env" and "\<And>a. \<exists>i b. objs a = SystemAbility i b" and "reachable P C env (LocalAbilityManager objs) p"
  shows "registry_ok p \<and> listeners_ok p \<and> unused_ok p \<and> dumper_ok p"
  using reg.inv_tame [OF assms(1,3)] lis.inv_tame [OF assms(1,3)] unu.inv_tame [OF assms(1,3)] dmp.inv_tame [OF assms(1,3)]
    constructed_state_ok [of objs] assms(2) by blast

text \<open>A process in which the library that defines ability 7 registers it and its \<open>OnStart\<close> publishes it.\<close>

definition demo_profile :: sa_profile where
  "demo_profile = \<lparr>pf_saId = 7, pf_libPath = [], pf_dependSa = [], pf_dependTimeout = 500, pf_runOnCreate = False,
     pf_distributed = False, pf_dumpLevel = 1, pf_bootPhase = 1, pf_unusedTimeout = 60\<rparr>"

definition demo_base :: env where
  "demo_base = quiet_env\<lparr>ans_profile := (\<lambda>_. Some demo_profile)\<rparr>"

definition demo_env :: env where
  "demo_env = demo_base\<lparr>interfere := (\<lambda>h p. case last h of
       E_LoadSaLib i \<Rightarrow> snd (AddAbility demo_base (Some 0) p)
     | E_OnStart a r \<Rightarrow> snd (Publish demo_base a (Some 3) p)
     | _ \<Rightarrow> p)\<rparr>"

lemma demo_env_tame: "tame list_parcel_ops demo_consts 1 demo_env"
proof -
  have b: "tame list_parcel_ops demo_consts 0 demo_base" by (simp add: silent_def demo_base_def quiet_env_def)
  have "reachable list_parcel_ops demo_consts demo_base p (interfere demo_env h p)" for h p
    by (cases "last h")
       (auto simp: demo_env_def intro: reachable.start reachable.step [OF reachable.start] add_ability publish)
  then show ?thesis using b by auto
qed

theorem reachable_states_ok_witness:
  "registry_ok (run_detached demo_env 0 (snd (StartAbility demo_env 7 ''e'' (LocalAbilityManager (\<lambda>_. SystemAbility 7 False)))))"
proof -
  let ?p0 = "LocalAbilityManager (\<lambda>_. SystemAbility 7 False)"
  have c: "\<exists>i b. (\<lambda>_::nat. SystemAbility 7 False) a = SystemAbility i b" for a by blast
  have r: "reachable list_parcel_ops demo_consts demo_env ?p0 (run_detached demo_env 0 (snd (StartAbility demo_env 7 ''e'' ?p0)))"
    by (rule reachable.step [OF reachable.step [OF reachable.start start_ability] thread])
  show ?thesis by (rule conjunct1 [OF reachable_states_ok [OF demo_env_tame c r]])
qed

text \<open>
  C9. The members of the manager keep the types that the code relies on, in every state that a process can reach with callbacks that
  re-enter the framework to any depth: the tables of start and stop reasons and of the boot phases stay ordered maps, no
  phase above the last boot phase is listed, the list of every listed phase is non-empty and free of null pointers, and the count of
  unfinished start tasks never becomes negative. A phase below the first boot phase, 0, can be listed, since the code only
  checks the upper bound.
\<close>

theorem reachable_members_typed:
  assumes "tame P C n env" and "\<And>a. \<exists>i b. objs a = SystemAbility i b" and "reachable P C env (LocalAbilityManager objs) p"
  shows "members_typed p"
  by (rule mt.inv_tame [OF assms(1,3)]) (rule constructed_state_ok(5) [OF assms(2)])

theorem reachable_members_typed_witness:
  "members_typed (run_detached demo_env 0 (snd (StopAbility demo_env 7 ''e'' (LocalAbilityManager (\<lambda>_. SystemAbility 7 False)))))"
proof -
  let ?p0 = "LocalAbilityManager (\<lambda>_. SystemAbility 7 False)"
  have c: "\<exists>i b. (\<lambda>_::nat. SystemAbility 7 False) a = SystemAbility i b" for a by blast
  have r: "reachable list_parcel_ops demo_consts demo_env ?p0 (run_detached demo_env 0 (snd (StopAbility demo_env 7 ''e'' ?p0)))"
    by (rule reachable.step [OF reachable.step [OF reachable.start stop_ability] thread])
  show ?thesis by (rule reachable_members_typed [OF demo_env_tame c r])
qed

end
