(* ===== verification/Lam_Launch.thy ===== *)
theory Lam_Launch
  imports Safwk_Main
begin

text \<open>
  The start of a process on demand from end to end: from the event in the arguments of \<open>main\<close> through the loading of the library, the
  registration of the ability, its boot phase and the task of the thread pool to the call of \<open>OnStart\<close>.

  What happens around the start is restricted to what leaves it alone (\<open>calmly\<close>): callbacks and other threads may
  extend the trace and change the abilities that have been started, but do not start abilities and do not touch the
  tables and the task queue of the start-up. Loading the library registers the ability.
\<close>

section \<open>Steps that leave the start alone\<close>

definition calmly :: "proc \<Rightarrow> proc \<Rightarrow> bool" where
  "calmly p q \<longleftrightarrow> localAbilityMapM q = localAbilityMapM p \<and> abilityPhaseMapM q = abilityPhaseMapM p
     \<and> saIdToStartReasonM q = saIdToStartReasonM p \<and> startTaskNumM q = startTaskNumM p \<and> initPoolM q = initPoolM p
     \<and> (\<exists>new. trace q = trace p @ new \<and> \<not> list_ex is_OnStart new)
     \<and> (\<forall>b. saIdM (heap q b) = saIdM (heap p b) \<and> dependSaM (heap q b) = dependSaM (heap p b)
          \<and> (abilityStateM (heap q b) = abilityStateM (heap p b) \<or> (\<exists>r. E_OnStart b r \<in> set (trace p))))"

lemma calmly_refl: "calmly p p"
  by (simp add: calmly_def)

lemma calmly_trans: "calmly p q \<Longrightarrow> calmly q s \<Longrightarrow> calmly p s"
proof -
  assume pq: "calmly p q" and qs: "calmly q s"
  obtain t u where t: "trace q = trace p @ t" "\<not> list_ex is_OnStart t" and u: "trace s = trace q @ u" "\<not> list_ex is_OnStart u"
    using pq qs by (auto simp: calmly_def)
  have "E_OnStart b r \<in> set (trace q) \<longleftrightarrow> E_OnStart b r \<in> set (trace p)" for b r
    using t by (auto simp: list_ex_iff)
  then show ?thesis using pq qs t u unfolding calmly_def by (auto simp: list_ex_iff) metis+
qed

lemma calmly_emit: "calmly p q \<Longrightarrow> \<not> is_OnStart ev \<Longrightarrow> calmly p (emit ev q)"
  by (rule calmly_trans) (auto simp: calmly_def)

lemma calmly_fields:
  "calmly p q \<Longrightarrow> calmly p (q\<lparr>startBeginM := x\<rparr>)" "calmly p q \<Longrightarrow> calmly p (q\<lparr>procNameM := n\<rparr>)"
  "calmly p q \<Longrightarrow> calmly p (q\<lparr>localAbilityManagerM := b\<rparr>)"
  by (simp_all add: calmly_def)

lemma calmly_fold: "(\<And>x q. calmly p q \<Longrightarrow> calmly p (f x q)) \<Longrightarrow> calmly p q \<Longrightarrow> calmly p (fold f xs q)"
  by (induction xs arbitrary: q) simp_all

text \<open>The restriction on the environment; \<open>i\<close> is the identifier whose library registers the object \<open>a\<close>.\<close>

definition registers :: "env \<Rightarrow> int \<Rightarrow> nat \<Rightarrow> bool" where
  "registers env i a \<longleftrightarrow>
     (\<forall>h p. if last h = E_LoadSaLib i then interfere env h p = snd (AddAbility env (Some a) p) else calmly p (interfere env h p))"

lemma calmly_foreign:
  "registers env i a \<Longrightarrow> calmly p q \<Longrightarrow> \<not> is_OnStart ev \<Longrightarrow> ev \<noteq> E_LoadSaLib i \<Longrightarrow> calmly p (run_foreign env ev q)"
  unfolding run_foreign_def registers_def by (metis calmly_emit calmly_trans last_snoc)

lemmas calmly_intros = calmly_emit calmly_fields calmly_foreign

lemma calmly_started:
  "calmly p q \<Longrightarrow> E_OnStart b r \<in> set (trace p) \<Longrightarrow> E_OnStart b r \<in> set (trace q)"
  by (auto simp: calmly_def)

section \<open>Stages of the start\<close>

text \<open>The environment of a successful start: every service answers, and the profile of the ability has no dependencies.\<close>

definition start_world :: "env \<Rightarrow> string \<Rightarrow> int \<Rightarrow> nat \<Rightarrow> sa_profile \<Rightarrow> bool" where
  "start_world env path i a pf \<longleftrightarrow>
     length path \<le> PATH_MAX env \<and> (\<forall>h. ans_path env (h @ [E_RealPath path]) \<noteq> None) \<and> (\<forall>h. ans_bool env h)
     \<and> (\<forall>h. ans_profile env (h @ [E_GetProfile i]) = Some pf)
     \<and> pf_saId pf = i \<and> pf_dependSa pf = [] \<and> BOOT_START \<le> pf_bootPhase pf \<and> pf_bootPhase pf \<le> OTHER_START
     \<and> (\<forall>h n. ans_int env (h @ [E_AddSystemProcess n]) = ERR_OK env)
     \<and> (\<forall>h. ans_schedule env (h @ [E_WaitForTasks]) \<noteq> [] \<and> hd (ans_schedule env (h @ [E_WaitForTasks])) = 0)
     \<and> registers env i a"

lemma calmly_SetProcName: "registers env i a \<Longrightarrow> calmly p q \<Longrightarrow> calmly p (SetProcName env argv path q)"
  by (simp add: SetProcName_def setProcessName_def StartMemoryHook_def asks Let_def calmly_intros split: option.split)

lemma calmly_CheckTrustSa: "calmly p q \<Longrightarrow> calmly p (CheckTrustSa env path n pfs q)"
  by (simp add: CheckTrustSa_def Let_def calmly_intros calmly_fold)

lemma calmly_RegisterOnDemand: "calmly p q \<Longrightarrow> calmly p (RegisterOnDemandSystemAbility env i q)"
  by (simp add: RegisterOnDemandSystemAbility_def asks Let_def calmly_intros calmly_fold)

lemma StartTimedQuery_trace: "\<exists>new. trace (StartTimedQuery env p) = trace p @ new \<and> \<not> list_ex is_OnStart new"
proof -
  have "trace (fold init_unused_entry pfs q) = trace q" for pfs q
    by (induction pfs arbitrary: q) (simp_all add: init_unused_entry_def LimitUnusedTimeout_eq)
  then show ?thesis by (auto simp: StartTimedQuery_def StartOnDemandTimer_def InitUnusedCfg_def Let_def asks)
qed

text \<open>What precedes the profiles and the phases is calm, whichever ability the process is started for.\<close>

lemma init_profiles_calm:
  assumes "ans_bool env (trace p @ [E_ParseSaProfiles real])"
  shows "\<exists>q. InitSystemAbilityProfiles env real i p = InitializeSaProfiles env i q \<and> calmly p q"
proof -
  define n where "n = ask (ans_name env) E_GetProcessName (trace p @ [E_ParseSaProfiles real])"
  define pfs where "pfs = ask (ans_profiles env) E_GetAllSaProfiles (trace p @ [E_ParseSaProfiles real, E_GetProcessName])"
  define path where "path = ''/system/profile/'' @ Str16ToStr8 env n @ ''_trust.json''"
  define p1 where "p1 = emit (E_CheckPathExist path) (emit E_GetAllSaProfiles ((emit E_GetProcessName
      (emit (E_ParseSaProfiles real) p))\<lparr>procNameM := n\<rparr>))"
  define q where "q = (if ans_bool env (trace p1) then CheckTrustSa env path (Str16ToStr8 env n) pfs p1 else p1)"
  have "InitSystemAbilityProfiles env real i p = InitializeSaProfiles env i q"
    using assms by (simp add: InitSystemAbilityProfiles_def asks Let_def q_def p1_def path_def pfs_def n_def)
  moreover have "calmly p p1" unfolding p1_def by (simp add: calmly_intros calmly_refl)
  then have "calmly p q" unfolding q_def by (simp add: calmly_CheckTrustSa)
  ultimately show ?thesis by blast
qed

lemma run_calm:
  assumes b: "\<And>h. ans_bool env (h @ [E_GetSystemAbilityManager])"
    and ok: "\<And>h n. ans_int env (h @ [E_AddSystemProcess n]) = ERR_OK env"
  shows "\<exists>q. Run env fuel i p = map_option (\<lambda>q. (True, run_foreign env E_PoolStop q)) (FindAndStartPhaseTasks env fuel i q) \<and> calmly p q"
proof -
  obtain p1 where p1: "AddLocalAbilityManager env p = (True, p1)" "calmly p p1"
    using b [of "trace p"] ok [of "trace p @ [E_GetSystemAbilityManager]" "procNameM p"]
    by (simp add: AddLocalAbilityManager_def asks Let_def calmly_intros calmly_refl)
  define p2 where "p2 = RegisterOnDemandSystemAbility env i (emit (E_PoolSetMaxTaskNum MAX_TASK_NUMBER)
      (emit (E_PoolStart (ask (ans_int env) E_HardwareConcurrency (trace p1))) (emit E_HardwareConcurrency p1)))"
  have "calmly p p2" unfolding p2_def using p1(2) by (simp add: calmly_RegisterOnDemand calmly_intros)
  moreover have "Run env fuel i p = map_option (\<lambda>q. (True, run_foreign env E_PoolStop q)) (FindAndStartPhaseTasks env fuel i p2)"
    unfolding p2_def by (simp add: Run_def p1(1) asks)
  ultimately show ?thesis by blast
qed

text \<open>The ability waits to be started: nothing is queued, and it is not loaded.\<close>

definition waiting :: "int \<Rightarrow> nat \<Rightarrow> (nat, ptr list) smap \<Rightarrow> (int, json) smap \<Rightarrow> proc \<Rightarrow> bool" where
  "waiting i a phases reasons p \<longleftrightarrow> abilityPhaseMapM p = phases \<and> saIdToStartReasonM p = reasons
     \<and> startTaskNumM p = 0 \<and> initPoolM p = [] \<and> saIdM (heap p a) = i \<and> abilityStateM (heap p a) = NOT_LOADED
     \<and> (\<forall>r. E_OnStart a r \<notin> set (trace p))"

definition unregistered :: "int \<Rightarrow> proc \<Rightarrow> bool" where
  "unregistered i p \<longleftrightarrow> smap_find (localAbilityMapM p) i = None"

lemma calmly_waiting: "calmly p q \<Longrightarrow> waiting i a phases reasons p \<Longrightarrow> waiting i a phases reasons q"
  by (auto simp: calmly_def waiting_def list_ex_iff) (metis, fastforce)

lemma calmly_unregistered: "calmly p q \<Longrightarrow> unregistered i p \<Longrightarrow> unregistered i q"
  by (simp add: calmly_def unregistered_def)

lemma calmly_depends: "calmly p q \<Longrightarrow> dependSaM (heap q a) = dependSaM (heap p a)"
  by (simp add: calmly_def)

lemma load_registers:
  assumes w: "start_world env path i a pf" and p: "waiting i a [] reasons p" "unregistered i p"
  shows "\<exists>q. InitializeOnDemandSaProfile env i p = (True, q) \<and> waiting i a [(pf_bootPhase pf, [Some a])] reasons q
     \<and> dependSaM (heap q a) = []"
proof -
  let ?p1 = "snd (AddAbility env (Some a) (emit (E_LoadSaLib i) p))"
  have e: "interfere env (h @ [E_LoadSaLib i]) q = snd (AddAbility env (Some a) q)" for h q
    using w unfolding start_world_def registers_def by (metis last_snoc)
  have w': "ans_bool env h" "ans_profile env (h @ [E_GetProfile i]) = Some pf" for h using w by (simp_all add: start_world_def)
  have f: "pf_saId pf = i" "pf_dependSa pf = []" "\<not> OTHER_START < pf_bootPhase pf" using w by (auto simp: start_world_def)
  have add: "?p1 = emit (E_GetProfile i) (emit (E_LoadSaLib i) p)
      \<lparr>heap := (heap p)(a := apply_profile pf (heap p a)), localAbilityMapM := smap_emplace i (Some a) (localAbilityMapM p)\<rparr>"
    using p w'(2) [of "trace p @ [E_LoadSaLib i]"]
    by (simp add: AddAbility_def query_def ask_def waiting_def unregistered_def upd_sa_def emit_def)
  have "smap_find (smap_emplace i (Some a) (localAbilityMapM p)) i = Some (Some a)"
    using p(2) by (simp add: smap_emplace_def unregistered_def)
  then show ?thesis
    using p f w'
    by (simp add: InitializeOnDemandSaProfile_def asks run_foreign_def e add InitializeSaProfilesInnerLocked_def waiting_def
        smap_emplace_def smap_find_def apply_profile_def setters Let_def)
qed

lemma profiles_ready:
  assumes w: "start_world env path i a pf" and p: "waiting i a [] reasons p" "unregistered i p" and i: "i \<noteq> DEFAULT_SAID"
  shows "\<exists>q. InitSystemAbilityProfiles env real i p = (True, q) \<and> waiting i a [(pf_bootPhase pf, [Some a])] reasons q
     \<and> dependSaM (heap q a) = []"
proof -
  have "ans_bool env (trace p @ [E_ParseSaProfiles real])" using w by (simp add: start_world_def)
  then obtain q where q: "InitSystemAbilityProfiles env real i p = InitializeOnDemandSaProfile env i q" "calmly p q"
    using init_profiles_calm [of env p real i] i by (auto simp: InitializeSaProfiles_def)
  show ?thesis
    using load_registers [OF w calmly_waiting [OF q(2) p(1)] calmly_unregistered [OF q(2) p(2)]] q(1) by simp
qed

lemma OnStart_calm: "registers env i a \<Longrightarrow> calmly (emit (E_OnStart b r) q) (run_foreign env (E_OnStart b r) q)"
proof -
  assume "registers env i a"
  moreover have "last (trace q @ [E_OnStart b r]) \<noteq> E_LoadSaLib i" by simp
  ultimately show ?thesis unfolding run_foreign_def registers_def by presburger
qed

text \<open>The tables of the start-up survive the start of an ability.\<close>

lemma Start_tables:
  assumes "registers env i a"
  shows "abilityPhaseMapM (Start env b p) = abilityPhaseMapM p" "startTaskNumM (Start env b p) = startTaskNumM p"
proof -
  have x: "abilityPhaseMapM (snd (GetOnDemandReasonExtraData env r q)) = abilityPhaseMapM q"
      "startTaskNumM (snd (GetOnDemandReasonExtraData env r q)) = startTaskNumM q" for r q
    by (simp_all add: GetOnDemandReasonExtraData_def asks split: option.split)
  have y: "abilityPhaseMapM (run_foreign env (E_OnStart b r) q) = abilityPhaseMapM q"
      "startTaskNumM (run_foreign env (E_OnStart b r) q) = startTaskNumM q" for r q
    using OnStart_calm [OF assms, of b r q] by (simp_all add: calmly_def)
  show "abilityPhaseMapM (Start env b p) = abilityPhaseMapM p" "startTaskNumM (Start env b p) = startTaskNumM p"
    by (simp_all add: Start_def Let_def case_prod_beta x y GetStartReason_def)
qed

definition stored_reason :: "int \<Rightarrow> (int, json) smap \<Rightarrow> json" where
  "stored_reason i reasons = (case smap_find reasons i of None \<Rightarrow> JNull | Some j \<Rightarrow> j)"

text \<open>\<open>OnStart\<close> of \<open>a\<close> has been called with the reason that \<open>j\<close> describes.\<close>

definition started_with :: "nat \<Rightarrow> json \<Rightarrow> proc \<Rightarrow> bool" where
  "started_with a j p \<longleftrightarrow> (\<exists>r n. E_OnStart a r \<in> set (trace p)
     \<and> r\<lparr>extraDataM := OnDemandReasonExtraData_default\<rparr> = JsonToOnDemandReason n j)"

lemma started_with_mono: "started_with a j p \<Longrightarrow> trace q = trace p @ new \<Longrightarrow> started_with a j q"
  unfolding started_with_def by auto

lemma calmly_started_with: "calmly p q \<Longrightarrow> started_with a j p \<Longrightarrow> started_with a j q"
  by (auto simp: calmly_def intro: started_with_mono)

lemma Start_started:
  assumes "registers env i a" and "waiting i a phases reasons (p\<lparr>startTaskNumM := 0\<rparr>)"
  shows "started_with a (stored_reason i reasons) (Start env a p)"
proof -
  obtain r q where q: "Start env a p = upd_sa a (\<lambda>sa. sa\<lparr>isRunningM := True\<rparr>) (run_foreign env (E_OnStart a r) q)"
    "r\<lparr>extraDataM := OnDemandReasonExtraData_default\<rparr> = JsonToOnDemandReason (indeterminate env (trace p)) (stored_reason i reasons)"
    using Start_outcome [of p a env] assms(2) by (auto simp: waiting_def stored_reason_def)
  then have "started_with a (stored_reason i reasons) (emit (E_OnStart a r) q)" by (auto simp: started_with_def)
  then have "started_with a (stored_reason i reasons) (run_foreign env (E_OnStart a r) q)"
    using calmly_started_with OnStart_calm [OF assms(1)] by blast
  then show ?thesis by (simp add: q(1) started_with_def)
qed

lemma run_tasks_idle: "startTaskNumM p = 0 \<Longrightarrow> run_tasks env fuel sched p = Some p"
  by (cases sched) simp_all

lemma phase_starts:
  assumes w: "start_world env path i a pf" and i: "i \<noteq> DEFAULT_SAID"
    and p: "waiting i a [(ph, [Some a])] reasons p" "dependSaM (heap p a) = []"
  shows "\<exists>q. start_phase env fuel i ph p = Some q \<and> abilityPhaseMapM q = [(ph, [Some a])] \<and> started_with a (stored_reason i reasons) q"
proof -
  have reg: "registers env i a" using w by (simp add: start_world_def)
  let ?p1 = "p\<lparr>startTaskNumM := 1, initPoolM := [a]\<rparr>"
  let ?p2 = "emit E_WaitForTasks p\<lparr>startTaskNumM := 1, initPoolM := []\<rparr>"
  obtain sched where sched: "ans_schedule env (trace p @ [E_WaitForTasks]) = 0 # sched"
    using w unfolding start_world_def by (metis list.collapse)
  have 1: "start_phase env fuel i ph p = WaitForTasks env fuel ?p1"
    using p i by (simp add: start_phase_def waiting_def smap_find_def StartPhaseTasks_def)
  have t: "StartSystemAbilityTask env fuel (Some a) ?p2 = Some ((Start env a ?p2)\<lparr>startTaskNumM := 0\<rparr>)"
    using p(2) by (simp add: StartSystemAbilityTask_def Start_tables [OF reg])
  have eq: "emit E_WaitForTasks ?p1\<lparr>initPoolM := []\<rparr> = ?p2" by (simp add: emit_def)
  have "StartSystemAbilityTask env fuel (Some a) (emit E_WaitForTasks ?p1\<lparr>initPoolM := []\<rparr>) =
      Some ((Start env a ?p2)\<lparr>startTaskNumM := 0\<rparr>)" unfolding eq by (rule t)
  then have 2: "WaitForTasks env fuel ?p1 = Some ((Start env a ?p2)\<lparr>startTaskNumM := 0\<rparr>)"
    using sched by (simp add: WaitForTasks_def query_def ask_def run_tasks_idle)
  have "waiting i a [(ph, [Some a])] reasons (?p2\<lparr>startTaskNumM := 0\<rparr>)" using p(1) by (auto simp: waiting_def)
  then have "started_with a (stored_reason i reasons) (Start env a ?p2)" by (rule Start_started [OF reg])
  then show ?thesis
    using 1 2 p(1) by (simp add: started_with_def Start_tables [OF reg]) (simp add: waiting_def)
qed

lemma run_phases_skip:
  "i \<noteq> DEFAULT_SAID \<Longrightarrow> \<forall>x \<in> set phs. smap_find (abilityPhaseMapM p) x = None \<Longrightarrow> run_phases env fuel i phs p = Some p"
  by (induction phs) (simp_all add: start_phase_def)

lemma run_phases_append: "run_phases env fuel i (xs @ ys) p = Option.bind (run_phases env fuel i xs p) (run_phases env fuel i ys)"
proof (induction xs arbitrary: p)
  case (Cons x xs)
  then show ?case by (cases "start_phase env fuel i x p") simp_all
qed simp

lemma phases_start:
  assumes w: "start_world env path i a pf" and i: "i \<noteq> DEFAULT_SAID"
    and p: "waiting i a [(pf_bootPhase pf, [Some a])] reasons p" "dependSaM (heap p a) = []"
  shows "\<exists>q. FindAndStartPhaseTasks env fuel i p = Some q \<and> started_with a (stored_reason i reasons) q"
proof -
  have "pf_bootPhase pf \<in> set [BOOT_START..<Suc OTHER_START]" using w unfolding start_world_def by auto
  then obtain pre post where s: "[BOOT_START..<Suc OTHER_START] = pre @ pf_bootPhase pf # post" by (metis split_list)
  have d: "pf_bootPhase pf \<notin> set pre" "pf_bootPhase pf \<notin> set post"
    using s distinct_upt [of BOOT_START "Suc OTHER_START"] by (metis distinct.simps(2) distinct_append not_distinct_conv_prefix, metis distinct.simps(2) distinct_append)
  obtain q where q: "start_phase env fuel i (pf_bootPhase pf) p = Some q" "abilityPhaseMapM q = [(pf_bootPhase pf, [Some a])]"
      "started_with a (stored_reason i reasons) q"
    using phase_starts [OF w i p] by blast
  have "run_phases env fuel i pre p = Some p" "run_phases env fuel i post q = Some q"
    using d p(1) q(2) by (auto intro!: run_phases_skip [OF i] simp: waiting_def smap_find_def)
  then show ?thesis using q unfolding FindAndStartPhaseTasks_def s run_phases_append by simp
qed

lemma Run_starts:
  assumes w: "start_world env path i a pf" and i: "i \<noteq> DEFAULT_SAID"
    and p: "waiting i a [(pf_bootPhase pf, [Some a])] reasons p" "dependSaM (heap p a) = []"
  shows "\<exists>q. Run env fuel i p = Some (True, q) \<and> started_with a (stored_reason i reasons) q"
proof -
  have reg: "registers env i a" and b: "\<And>h. ans_bool env h" and ok: "\<And>h n. ans_int env (h @ [E_AddSystemProcess n]) = ERR_OK env"
    using w by (simp_all add: start_world_def)
  obtain p2 where p2: "Run env fuel i p = map_option (\<lambda>q. (True, run_foreign env E_PoolStop q)) (FindAndStartPhaseTasks env fuel i p2)"
      "calmly p p2"
    using run_calm [of env fuel i p] b ok by blast
  obtain q where q: "FindAndStartPhaseTasks env fuel i p2 = Some q" "started_with a (stored_reason i reasons) q"
    using phases_start [OF w i calmly_waiting [OF p2(2) p(1)]] calmly_depends [OF p2(2)] p(2) by auto
  have "Run env fuel i p = Some (True, run_foreign env E_PoolStop q)" using p2(1) q(1) by simp
  moreover have "calmly q (run_foreign env E_PoolStop q)" by (simp add: calmly_foreign [OF reg] calmly_refl)
  ultimately show ?thesis using calmly_started_with q(2) by blast
qed

lemma DoStart_starts:
  assumes w: "start_world env path i a pf" and i: "i \<noteq> DEFAULT_SAID" and p: "waiting i a [] reasons p" "unregistered i p"
  shows "\<exists>q. DoStartSAProcess env fuel path i p = Some q \<and> started_with a (stored_reason i reasons) q"
proof -
  have reg: "registers env i a" and b: "\<And>h. ans_bool env h" using w by (simp_all add: start_world_def)
  define p1 where "p1 = emit (E_RealPath path) ((emit E_GetTickCount p)\<lparr>startBeginM := ask (ans_int env) E_GetTickCount (trace p)\<rparr>)"
  obtain real where real: "ask (ans_path env) (E_RealPath path) (trace p @ [E_GetTickCount]) = Some real"
  proof -
    have "ans_path env ((trace p @ [E_GetTickCount]) @ [E_RealPath path]) \<noteq> None" using w unfolding start_world_def by blast
    then show ?thesis using that unfolding ask_def by blast
  qed
  have c: "calmly p p1" unfolding p1_def by (simp add: calmly_intros calmly_refl)
  obtain p2 where p2: "InitSystemAbilityProfiles env real i p1 = (True, p2)" "waiting i a [(pf_bootPhase pf, [Some a])] reasons p2"
      "dependSaM (heap p2 a) = []"
    using profiles_ready [OF w calmly_waiting [OF c p(1)] calmly_unregistered [OF c p(2)] i] by blast
  have s: "CheckSystemAbilityManagerReady env p2 = (True, emit E_GetSystemAbilityManager p2)"
    using b by (simp add: CheckSystemAbilityManagerReady_def asks)
  have c3: "calmly p2 (emit E_GetSystemAbilityManager p2)" by (simp add: calmly_intros calmly_refl)
  obtain q where q: "Run env fuel i (emit E_GetSystemAbilityManager p2) = Some (True, q)" "started_with a (stored_reason i reasons) q"
    using Run_starts [OF w i calmly_waiting [OF c3 p2(2)]] p2(3) by auto
  have "DoStartSAProcess env fuel path i p = Some (run_foreign env E_JoinWorkThread (StartTimedQuery env q))"
    using w real p2(1) s q(1) unfolding p1_def
    by (simp add: DoStartSAProcess_def CheckAndGetProfilePath_def asks start_world_def)
  moreover have "started_with a (stored_reason i reasons) (StartTimedQuery env q)"
    using StartTimedQuery_trace [of env q] q(2) by (auto intro: started_with_mono)
  moreover have "calmly s (run_foreign env E_JoinWorkThread s)" for s by (simp add: calmly_foreign [OF reg] calmly_refl)
  ultimately show ?thesis using calmly_started_with by blast
qed

section \<open>Both entries\<close>

text \<open>An entry whose preparation of the process leaves the start alone starts the ability of its event.\<close>

locale calm_entry = process_entry +
  assumes prepare_calm: "registers env i a \<Longrightarrow> calmly p (prepare env argv p)"
begin

lemma entry_starts:
  assumes "argv = [prog, profile] @ concat (map (\<lambda>c. [''-m'', c]) cfgs) @ [event]"
    and "''-m'' \<notin> set (prog # profile # cfgs)" and "length argv \<le> 64"
    and "event = concat (map (\<lambda>s. s @ ''#'') [sa, eid, name, val, xid])"
    and "\<forall>s \<in> {sa, eid, name, val, xid}. CHR ''#'' \<notin> set s" and "length event \<le> 2000"
    and "StrToInt env sa = Some saId" and "CheckSaId env saId" and "0 \<le> FIRST_SYS_ABILITY_ID env"
    and "atoi eid = Inr i" and "atoi xid = Inr x" and "str_find ''.json'' profile \<noteq> None"
    and "start_world env profile saId a pf" and "objs a = SystemAbility saId runOnCreate"
  shows "\<exists>q r. entry env False fuel (int (length argv)) (Some argv) (LocalAbilityManager objs) = Inr (Some (0, q))
     \<and> E_OnStart a r \<in> set (trace q) \<and> reasonIdM r = i \<and> reasonNameM r = name \<and> reasonValueM r = val \<and> extraDataIdM r = x"
proof -
  let ?p0 = "LocalAbilityManager objs"
  obtain j where j: "entry env False fuel (int (length argv)) (Some argv) ?p0 =
      ub_bind (if False then apply_mallopt env cfgs ?p0 else Inr ?p0) (\<lambda>p. Inr (map_option (\<lambda>q. (0, q))
        (DoStartSAProcess env fuel profile saId (prepare env argv (SetStartReason saId j p)))))"
    "\<And>n. JsonToOnDemandReason n j = \<lparr>reasonIdM = i, reasonNameM = name, reasonValueM = val, extraDataIdM = x,
      extraDataM = OnDemandReasonExtraData_default\<rparr>"
    using entry_event [OF assms(1-8,10-12), of False fuel ?p0] by blast
  let ?p1 = "SetStartReason saId j ?p0"
  have "waiting saId a [] [(saId, j)] ?p1" "unregistered saId ?p1"
    using assms(14) by (simp_all add: waiting_def unregistered_def SetStartReason_def LocalAbilityManager_def SystemAbility_def)
  moreover have "calmly ?p1 (prepare env argv ?p1)" using assms(13) prepare_calm unfolding start_world_def by blast
  ultimately have "waiting saId a [] [(saId, j)] (prepare env argv ?p1)" "unregistered saId (prepare env argv ?p1)"
    using calmly_waiting calmly_unregistered by blast+
  moreover have "saId \<noteq> DEFAULT_SAID" using assms(8,9) by (simp add: CheckSaId_def DEFAULT_SAID_def)
  ultimately obtain q where q: "DoStartSAProcess env fuel profile saId (prepare env argv ?p1) = Some q"
      "started_with a (stored_reason saId [(saId, j)]) q"
    using DoStart_starts [OF assms(13)] by blast
  have "stored_reason saId [(saId, j)] = j" by (simp add: stored_reason_def smap_find_def)
  with q(2) obtain r n where r: "E_OnStart a r \<in> set (trace q)"
      "r\<lparr>extraDataM := OnDemandReasonExtraData_default\<rparr> = JsonToOnDemandReason n j" unfolding started_with_def by metis
  have "reasonIdM (r\<lparr>extraDataM := OnDemandReasonExtraData_default\<rparr>) = i" "reasonNameM (r\<lparr>extraDataM := OnDemandReasonExtraData_default\<rparr>) = name"
    "reasonValueM (r\<lparr>extraDataM := OnDemandReasonExtraData_default\<rparr>) = val" "extraDataIdM (r\<lparr>extraDataM := OnDemandReasonExtraData_default\<rparr>) = x"
    unfolding r(2) j(2) by simp_all
  moreover have "entry env False fuel (int (length argv)) (Some argv) ?p0 = Inr (Some (0, q))" using j(1) q(1) by simp
  ultimately show ?thesis using r(1) by auto
qed

end

interpretation me: calm_entry main_safwk "\<lambda>env argv. SetProcName env argv (argv ! 1)"
  by unfold_locales (rule calmly_SetProcName [OF _ calmly_refl])

interpretation se: calm_entry StartSA "\<lambda>env argv p. p"
  by unfold_locales (rule calmly_refl)

section \<open>Properties\<close>

text \<open>
  C3. A process launched for an event starts the ability, through either entry: if the arguments are a profile, allocator options and a
  well-formed event for the ability, the services answer, loading the library registers the ability, its profile names no dependency and the
  thread pool runs the queued task, then \<open>main\<close> or \<open>StartSA\<close> returns 0 and has called \<open>OnStart\<close> of the ability with exactly the
  event identifier, name, value and extra-data identifier of the argument.
\<close>

theorem event_starts_ability:
  assumes "argv = [prog, profile] @ concat (map (\<lambda>c. [''-m'', c]) cfgs) @ [event]"
    and "''-m'' \<notin> set (prog # profile # cfgs)" and "length argv \<le> 64"
    and "event = concat (map (\<lambda>s. s @ ''#'') [sa, eid, name, val, xid])"
    and "\<forall>s \<in> {sa, eid, name, val, xid}. CHR ''#'' \<notin> set s" and "length event \<le> 2000"
    and "StrToInt env sa = Some saId" and "CheckSaId env saId" and "0 \<le> FIRST_SYS_ABILITY_ID env"
    and "atoi eid = Inr i" and "atoi xid = Inr x" and "str_find ''.json'' profile \<noteq> None"
    and "start_world env profile saId a pf" and "objs a = SystemAbility saId runOnCreate"
    and "entry = main_safwk \<or> entry = StartSA"
  shows "\<exists>q r. entry env False fuel (int (length argv)) (Some argv) (LocalAbilityManager objs) = Inr (Some (0, q))
     \<and> E_OnStart a r \<in> set (trace q) \<and> reasonIdM r = i \<and> reasonNameM r = name \<and> reasonValueM r = val \<and> extraDataIdM r = x"
  using assms(15) me.entry_starts [where objs = objs and a = a, OF assms(1-14)]
    se.entry_starts [where objs = objs and a = a, OF assms(1-14)] by blast

definition launch_profile :: sa_profile where
  "launch_profile = \<lparr>pf_saId = 7, pf_libPath = [], pf_dependSa = [], pf_dependTimeout = 500, pf_runOnCreate = False,
     pf_distributed = False, pf_dumpLevel = 1, pf_bootPhase = 2, pf_unusedTimeout = 60\<rparr>"

definition launch_base :: env where
  "launch_base = number_env\<lparr>ans_path := (\<lambda>_. Some ''/a.json''), ans_profile := (\<lambda>_. Some launch_profile), ans_schedule := (\<lambda>_. [0])\<rparr>"

definition launch_env :: env where
  "launch_env = launch_base\<lparr>interfere := (\<lambda>h p. if last h = E_LoadSaLib 7 then snd (AddAbility launch_base (Some 0) p) else p)\<rparr>"

lemma launch_env_world: "start_world launch_env ''/a.json'' 7 0 launch_profile"
proof -
  have "AddAbility launch_env (Some 0) p = AddAbility launch_base (Some 0) p" for p
    by (simp add: AddAbility_def launch_env_def)
  then have "registers launch_env 7 0" by (simp add: registers_def launch_env_def calmly_refl)
  moreover have f: "ans_path launch_env h = Some ''/a.json''" "ans_bool launch_env h" "ans_profile launch_env h = Some launch_profile"
      "ans_int launch_env h = ERR_OK launch_env" "ans_schedule launch_env h = [0]" "PATH_MAX launch_env = 4096" for h
    by (simp_all add: launch_env_def launch_base_def number_env_def quiet_env_def)
  moreover have "pf_saId launch_profile = 7" "pf_dependSa launch_profile = []" "BOOT_START \<le> pf_bootPhase launch_profile"
      "pf_bootPhase launch_profile \<le> OTHER_START"
    by (simp_all add: launch_profile_def BOOT_START_def OTHER_START_def)
  ultimately show ?thesis unfolding start_world_def by auto
qed

theorem event_starts_ability_witness:
  "\<exists>q r. main_safwk launch_env False 0 3 (Some [''sa_main'', ''/a.json'', ''7#4#usual.event##-12#''])
       (LocalAbilityManager (\<lambda>_. SystemAbility 7 False)) = Inr (Some (0, q))
     \<and> E_OnStart 0 r \<in> set (trace q) \<and> reasonIdM r = 4 \<and> reasonNameM r = ''usual.event'' \<and> reasonValueM r = [] \<and> extraDataIdM r = -12"
proof -
  have n: "atoi ''4'' = Inr 4" "atoi ''-12'' = Inr (-12)" by code_simp+
  have e: "StrToInt launch_env ''7'' = Some 7" "CheckSaId launch_env 7" "0 \<le> FIRST_SYS_ABILITY_ID launch_env"
    by (simp_all add: launch_env_def launch_base_def number_env_def quiet_env_def CheckSaId_def)
  have "\<exists>q r. main_safwk launch_env False 0 (int (length [''sa_main'', ''/a.json'', ''7#4#usual.event##-12#'']))
       (Some [''sa_main'', ''/a.json'', ''7#4#usual.event##-12#'']) (LocalAbilityManager (\<lambda>_. SystemAbility 7 False)) = Inr (Some (0, q))
     \<and> E_OnStart 0 r \<in> set (trace q) \<and> reasonIdM r = 4 \<and> reasonNameM r = ''usual.event'' \<and> reasonValueM r = [] \<and> extraDataIdM r = -12"
    by (rule event_starts_ability [where a = 0 and objs = "\<lambda>_. SystemAbility 7 False", OF _ _ _ _ _ _ e n _ launch_env_world _ disjI1 [OF refl], where prog = "''sa_main''" and cfgs = "[]"
          and event = "''7#4#usual.event##-12#''"]) simp_all
  then show ?thesis by simp
qed

end
