(* ===== verification/Lam_Phases.thy ===== *)
theory Lam_Phases
  imports Lam_Launch "HOL-Library.Multiset"
begin

text \<open>
  The default start of a process from end to end: the abilities whose libraries are opened with their boot phase are started in the
  order of the phases, each at most once, and those without dependencies exactly once.

  As in the start on demand, callbacks and other threads may extend the trace and change the abilities that have been started, but
  start none themselves and leave the tables of the start-up alone. Opening the libraries of a phase registers the
  abilities they define.
\<close>

section \<open>The abilities started in a trace\<close>

fun start_of :: "event \<Rightarrow> nat option" where
  "start_of (E_OnStart a r) = Some a"
| "start_of _ = None"

definition starts :: "event list \<Rightarrow> nat list" where
  "starts h = List.map_filter start_of h"

lemma starts_append [simp]: "starts (h @ h') = starts h @ starts h'"
  by (simp add: starts_def map_filter_def)

lemma starts_Nil [simp]: "starts [] = []"
  by (simp add: starts_def map_filter_def)

lemma starts_Cons [simp]: "starts (ev # h) = (case start_of ev of None \<Rightarrow> starts h | Some a \<Rightarrow> a # starts h)"
  by (simp add: starts_def map_filter_simps split: option.split)

lemma not_OnStart: "\<not> is_OnStart ev \<Longrightarrow> start_of ev = None"
  by (cases ev) simp_all

lemma starts_none: "\<not> list_ex is_OnStart h \<Longrightarrow> starts h = []"
  by (induction h) (simp_all add: not_OnStart)

lemma in_starts: "a \<in> set (starts h) \<longleftrightarrow> (\<exists>r. E_OnStart a r \<in> set h)"
proof (induction h)
  case (Cons ev h)
  then show ?case by (cases ev) auto
qed simp

section \<open>Steps of the start\<close>

text \<open>A step that starts exactly the abilities \<open>as\<close>, in this order, and leaves the tables alone.\<close>

definition booting :: "nat list \<Rightarrow> proc \<Rightarrow> proc \<Rightarrow> bool" where
  "booting as p q \<longleftrightarrow> localAbilityMapM q = localAbilityMapM p \<and> abilityPhaseMapM q = abilityPhaseMapM p
     \<and> (\<exists>new. trace q = trace p @ new \<and> starts new = as)
     \<and> (\<forall>b. saIdM (heap q b) = saIdM (heap p b) \<and> dependSaM (heap q b) = dependSaM (heap p b)
          \<and> (abilityStateM (heap q b) = abilityStateM (heap p b) \<or> b \<in> set (starts (trace q))))"

lemma booting_refl: "booting [] p p"
  by (simp add: booting_def)

lemma booting_trans: "booting as p q \<Longrightarrow> booting bs q s \<Longrightarrow> booting (as @ bs) p s"
  unfolding booting_def by (elim conjE exE) (auto, metis)

lemma booting_calm: "calmly p q \<Longrightarrow> booting [] p q"
  unfolding calmly_def booting_def by (elim conjE exE) (auto simp: starts_none in_starts)

lemma booting_then: "booting as p q \<Longrightarrow> calmly q s \<Longrightarrow> booting as p s"
  using booting_trans [OF _ booting_calm] by fastforce

lemma booting_starts: "booting as p q \<Longrightarrow> starts (trace q) = starts (trace p) @ as"
  by (auto simp: booting_def)

lemma booting_unstarted:
  "booting as p q \<Longrightarrow> a \<notin> set (starts (trace q)) \<Longrightarrow>
     abilityStateM (heap q a) = abilityStateM (heap p a) \<and> dependSaM (heap q a) = dependSaM (heap p a)"
  unfolding booting_def by metis

lemma booting_fields:
  "booting as p (q\<lparr>startTaskNumM := n\<rparr>) = booting as p q" "booting as p (q\<lparr>initPoolM := ts\<rparr>) = booting as p q"
  "booting as (p\<lparr>startTaskNumM := n\<rparr>) q = booting as p q" "booting as (p\<lparr>initPoolM := ts\<rparr>) q = booting as p q"
  "booting as p (q\<lparr>saIdToStartReasonM := m\<rparr>) = booting as p q"
  by (simp_all add: booting_def)

text \<open>Opening the libraries of phase \<open>ph\<close> registers the abilities at the addresses \<open>lib ph\<close>; the other foreign code is calm.\<close>

definition register_all :: "env \<Rightarrow> nat list \<Rightarrow> proc \<Rightarrow> proc" where
  "register_all env = fold (\<lambda>a p. snd (AddAbility env (Some a) p))"

fun opened_phase :: "event \<Rightarrow> nat option" where
  "opened_phase (E_OpenSo ph) = Some ph"
| "opened_phase _ = None"

definition opens :: "env \<Rightarrow> (nat \<Rightarrow> nat list) \<Rightarrow> bool" where
  "opens env lib \<longleftrightarrow> (\<forall>h p. case opened_phase (last h) of
       Some ph \<Rightarrow> interfere env h p = register_all env (lib ph) p
     | None \<Rightarrow> calmly p (interfere env h p))"

lemma opens_calm: "opens env lib \<Longrightarrow> opened_phase (last h) = None \<Longrightarrow> calmly p (interfere env h p)"
  unfolding opens_def by (drule spec [of _ h], drule spec [of _ p]) simp

lemma opens_registers: "opens env lib \<Longrightarrow> opened_phase (last h) = Some ph \<Longrightarrow> interfere env h p = register_all env (lib ph) p"
  unfolding opens_def by (drule spec [of _ h], drule spec [of _ p]) simp

lemma opens_foreign:
  "opens env lib \<Longrightarrow> calmly p q \<Longrightarrow> \<not> is_OnStart ev \<Longrightarrow> opened_phase ev = None \<Longrightarrow> calmly p (run_foreign env ev q)"
  unfolding run_foreign_def using opens_calm calmly_emit calmly_trans by (metis last_snoc)

lemma register_all_pool:
  "initPoolM (register_all env as p) = initPoolM p" "startTaskNumM (register_all env as p) = startTaskNumM p"
proof -
  have "initPoolM (snd (AddAbility env q p)) = initPoolM p" "startTaskNumM (snd (AddAbility env q p)) = startTaskNumM p" for q p
    by (simp_all add: AddAbility_def query_def Let_def split: option.split)
  then show "initPoolM (register_all env as p) = initPoolM p" "startTaskNumM (register_all env as p) = startTaskNumM p"
    unfolding register_all_def by (induction as arbitrary: p) simp_all
qed

lemma opens_pool_private: "opens env lib \<Longrightarrow> pool_private env"
proof -
  assume o: "opens env lib"
  have "initPoolM (interfere env h p) = initPoolM p \<and> startTaskNumM (interfere env h p) = startTaskNumM p" for h p
    by (cases "opened_phase (last h)")
       (use opens_calm [OF o] in \<open>simp add: calmly_def\<close>, simp add: opens_registers [OF o] register_all_pool)
  then show ?thesis by (simp add: pool_private_def)
qed

section \<open>Tasks\<close>

lemma calmly_extend: "\<not> list_ex is_OnStart evs \<Longrightarrow> calmly p (p\<lparr>trace := trace p @ evs\<rparr>)"
  by (simp add: calmly_def)

lemma calmly_Dependency: "calmly p (snd (CheckDependencyStatus env deps p))"
  using CheckDependency_quiet [of env deps p] calmly_extend by auto

lemma calmly_extra: "GetOnDemandReasonExtraData env r p = (r', q) \<Longrightarrow> calmly p q"
  using GetOnDemandReasonExtraData_frame(1) [of env r p r' q] calmly_extend [of _ p] by (force simp: list_ex_iff)

lemma booting_OnStart: "opens env lib \<Longrightarrow> booting [a] p (run_foreign env (E_OnStart a r) p)"
proof -
  assume o: "opens env lib"
  have "booting [a] p (emit (E_OnStart a r) p)" by (simp add: booting_def)
  moreover have "calmly (emit (E_OnStart a r) p) (run_foreign env (E_OnStart a r) p)"
    unfolding run_foreign_def by (rule opens_calm [OF o]) simp
  ultimately show ?thesis by (rule booting_then)
qed

lemma booting_running: "booting as p (upd_sa a (\<lambda>sa. sa\<lparr>isRunningM := b\<rparr>) q) = booting as p q"
  unfolding booting_def by (intro arg_cong2 [of _ _ _ _ "(\<and>)"] refl) auto

lemma booting_Start:
  assumes "opens env lib"
  shows "booting (if abilityStateM (heap p a) = NOT_LOADED then [a] else []) p (Start env a p)"
proof (cases "abilityStateM (heap p a) = NOT_LOADED")
  case True
  obtain j p1 where 1: "GetStartReason (saIdM (heap p a)) p = (j, p1)" by force
  obtain r p2 where 2: "GetOnDemandReasonExtraData env (JsonToOnDemandReason (indeterminate env (trace p1)) j) p1 = (r, p2)" by force
  have "booting [] p p1" using 1 by (auto simp: GetStartReason_def Let_def booting_fields booting_refl)
  then have "booting [] p p2" by (rule booting_then [OF _ calmly_extra [OF 2]])
  then have "booting [a] p (run_foreign env (E_OnStart a r) p2)"
    using booting_trans [OF _ booting_OnStart [OF assms]] by fastforce
  then show ?thesis using True 1 2 by (simp add: Start_def Let_def booting_running)
qed (simp add: Start_guard booting_refl)

lemma calmly_depend_wait: "opens env lib \<Longrightarrow> depend_wait env fuel start t a n p = Some q \<Longrightarrow> calmly p q"
proof (induction fuel arbitrary: n p)
  case 0
  then show ?case by (cases n) (simp_all add: calmly_refl)
next
  case (Suc fuel)
  show ?case
  proof (cases n)
    case 0
    then show ?thesis using Suc.prems by (simp add: calmly_refl)
  next
    case m: (Suc m)
    let ?p0 = "emit E_GetTickCount p"
    let ?p1 = "run_foreign env (E_Usleep CHECK_DEPENDENT_SA_PERIOD) ?p0"
    let ?p2 = "snd (CheckDependencyStatus env (dependSaM (heap ?p1 a)) ?p1)"
    have c: "calmly p ?p0" by (simp add: calmly_emit calmly_refl)
    have "calmly p ?p2"
      by (rule calmly_trans [OF _ calmly_Dependency]) (simp add: opens_foreign [OF Suc.prems(1)] c)
    moreover have "q = ?p0 \<or> calmly ?p2 q"
      using Suc.prems m by (auto simp: asks case_prod_beta Let_def split: if_splits dest: Suc.IH)
    ultimately show ?thesis using c calmly_trans by blast
  qed
qed

lemma booting_Depend:
  assumes o: "opens env lib" and "StartDependSaTask env fuel (Some a) p = Some q"
  shows "\<exists>as. booting as p q \<and> (as = [] \<or> as = [a])"
proof -
  let ?p0 = "emit E_GetTickCount p"
  let ?p1 = "snd (CheckDependencyStatus env (dependSaM (heap p a)) ?p0)"
  obtain start t n p2 where p2: "depend_wait env fuel start t a n ?p1 = Some p2"
    "q = (let (un, p3) = CheckDependencyStatus env (dependSaM (heap p2 a)) p2 in if un = [] then Start env a p3 else p3)"
    using assms(2) by (auto simp: StartDependSaTask_def asks Let_def case_prod_beta split: option.splits)
  let ?p3 = "snd (CheckDependencyStatus env (dependSaM (heap p2 a)) p2)"
  have "calmly p ?p1" by (rule calmly_trans [OF _ calmly_Dependency]) (simp add: calmly_emit calmly_refl)
  then have "calmly p ?p3" using calmly_depend_wait [OF o p2(1)] calmly_Dependency calmly_trans by blast
  then have c: "booting [] p ?p3" by (rule booting_calm)
  have "q = ?p3 \<or> q = Start env a ?p3" using p2(2) by (auto simp: case_prod_beta Let_def)
  then show ?thesis using c booting_trans [OF c booting_Start [OF o, of ?p3 a]] by (auto split: if_splits)
qed

lemma booting_Task:
  assumes "opens env lib" and "StartSystemAbilityTask env fuel (Some a) p = Some q"
  shows "\<exists>as. booting as p q \<and> (as = [] \<or> as = [a])
     \<and> (dependSaM (heap p a) = [] \<and> abilityStateM (heap p a) = NOT_LOADED \<longrightarrow> as = [a])"
proof (cases "dependSaM (heap p a) = []")
  case True
  then have "booting as p q = booting as p (Start env a p)" for as
    using assms(2) by (auto simp: StartSystemAbilityTask_def booting_fields split: if_splits)
  then show ?thesis using booting_Start [OF assms(1), of p a] by (auto split: if_splits)
next
  case False
  then obtain p1 where p1: "StartDependSaTask env fuel (Some a) p = Some p1" "booting as p q = booting as p p1" for as
    using assms(2) by (auto simp: StartSystemAbilityTask_def booting_fields split: option.splits if_splits)
  then show ?thesis using booting_Depend [OF assms(1) p1(1)] False by auto
qed

text \<open>A schedule that finishes a queue of \<open>n\<close> tasks, and one that finishes every queue of at most \<open>n\<close>.\<close>

fun drains :: "nat \<Rightarrow> nat list \<Rightarrow> bool" where
  "drains n [] = (n = 0)"
| "drains n (i # sched) = (n = 0 \<or> drains (if i < n then n - 1 else n) sched)"

definition patient :: "nat \<Rightarrow> nat list \<Rightarrow> bool" where
  "patient n sched \<longleftrightarrow> (\<forall>m \<le> n. drains m sched)"

lemma mset_take_drop: "i < length xs \<Longrightarrow> mset (take i xs @ drop (Suc i) xs) = mset xs - {#xs ! i#}"
  by (metis add_mset_add_single add_mset_remove_trivial id_take_nth_drop mset_append mset.simps(2) union_mset_add_mset_right)

lemma set_take_drop: "i < length xs \<Longrightarrow> set xs = insert (xs ! i) (set (take i xs @ drop (Suc i) xs))"
  by (subst (1) id_take_nth_drop [of i xs]) simp_all

text \<open>One task and then the remaining ones.\<close>

definition all_tasks_started :: "proc \<Rightarrow> proc \<Rightarrow> bool" where
  "all_tasks_started p q \<longleftrightarrow> (\<forall>a \<in> set (initPoolM p). dependSaM (heap p a) = [] \<and> abilityStateM (heap p a) = NOT_LOADED \<longrightarrow>
     a \<in> set (starts (trace q)))"

lemma booting_next_task:
  assumes i: "i < length (initPoolM p)" and pool: "initPoolM p2 = take i (initPoolM p) @ drop (Suc i) (initPoolM p)"
    and bs: "booting bs p p2" "bs = [] \<or> bs = [initPoolM p ! i]"
      "dependSaM (heap p (initPoolM p ! i)) = [] \<and> abilityStateM (heap p (initPoolM p ! i)) = NOT_LOADED \<longrightarrow> bs = [initPoolM p ! i]"
    and as: "booting as p2 q" "mset as \<subseteq># mset (initPoolM p2)" "all_tasks_started p2 q"
  shows "booting (bs @ as) p q \<and> mset (bs @ as) \<subseteq># mset (initPoolM p) \<and> all_tasks_started p q"
proof -
  let ?b = "initPoolM p ! i"
  have "a \<in> set (starts (trace q))"
    if "a \<in> set (initPoolM p)" "dependSaM (heap p a) = []" "abilityStateM (heap p a) = NOT_LOADED" for a
  proof (cases "a \<in> set (starts (trace p2))")
    case True
    then show ?thesis using booting_starts [OF as(1)] by simp
  next
    case False
    then have "dependSaM (heap p2 a) = []" "abilityStateM (heap p2 a) = NOT_LOADED" using booting_unstarted [OF bs(1)] that by auto
    moreover have "a \<noteq> ?b" using False bs(3) that booting_starts [OF bs(1)] by auto
    then have "a \<in> set (initPoolM p2)" using that(1) pool set_take_drop [OF i] by auto
    ultimately show ?thesis using as(3) unfolding all_tasks_started_def by blast
  qed
  moreover have "?b \<in># mset (initPoolM p)" "mset (initPoolM p2) = mset (initPoolM p) - {#?b#}"
    using i mset_take_drop [OF i] pool by simp_all
  then have "mset (bs @ as) \<subseteq># mset (initPoolM p)"
    using bs(2) as(2) by (auto simp: insert_subset_eq_iff intro: subset_mset.order_trans)
  ultimately show ?thesis using booting_trans [OF bs(1) as(1)] unfolding all_tasks_started_def by blast
qed

lemma booting_tasks:
  assumes o: "opens env lib"
  shows "run_tasks env fuel sched p = Some q \<Longrightarrow> drains (length (initPoolM p)) sched \<Longrightarrow>
     startTaskNumM p = int (length (initPoolM p)) \<Longrightarrow>
     \<exists>as. booting as p q \<and> mset as \<subseteq># mset (initPoolM p) \<and> initPoolM q = [] \<and> startTaskNumM q = 0 \<and> all_tasks_started p q"
proof (induction sched arbitrary: p)
  case Nil
  then show ?case by (intro exI [of _ "[]"]) (auto simp: booting_refl all_tasks_started_def)
next
  case (Cons i sched)
  consider "initPoolM p = []" | "initPoolM p \<noteq> []" "\<not> i < length (initPoolM p)" | "i < length (initPoolM p)" by force
  then show ?case
  proof cases
    case 1
    then show ?thesis using Cons.prems by (intro exI [of _ "[]"]) (auto simp: booting_refl all_tasks_started_def)
  next
    case 2
    then show ?thesis using Cons.prems Cons.IH [of p] by simp
  next
    case 3
    let ?p1 = "p\<lparr>initPoolM := take i (initPoolM p) @ drop (Suc i) (initPoolM p)\<rparr>"
    from 3 Cons.prems obtain p2 where p2: "StartSystemAbilityTask env fuel (Some (initPoolM p ! i)) ?p1 = Some p2"
        "run_tasks env fuel sched p2 = Some q" by (auto split: bind_splits if_splits)
    have c: "initPoolM p2 = initPoolM ?p1" "startTaskNumM p2 = startTaskNumM p - 1"
      using StartTask_pool [OF opens_pool_private [OF o] p2(1)] 3 Cons.prems(3) by auto
    have l: "length (initPoolM p2) = length (initPoolM p) - 1" using c(1) 3 by simp
    obtain as where as: "booting as p2 q" "mset as \<subseteq># mset (initPoolM p2)" "initPoolM q = []" "startTaskNumM q = 0" "all_tasks_started p2 q"
      using Cons.IH [OF p2(2)] Cons.prems(2,3) c(2) l 3 by fastforce
    obtain bs where bs: "booting bs p p2" "bs = [] \<or> bs = [initPoolM p ! i]"
        "dependSaM (heap p (initPoolM p ! i)) = [] \<and> abilityStateM (heap p (initPoolM p ! i)) = NOT_LOADED \<longrightarrow> bs = [initPoolM p ! i]"
      using booting_Task [OF o p2(1)] by (auto simp: booting_fields)
    from c(1) have "initPoolM p2 = take i (initPoolM p) @ drop (Suc i) (initPoolM p)" by simp
    from booting_next_task [OF 3 this bs as(1,2,5)] show ?thesis using as(3,4) by blast
  qed
qed

text \<open>Without dependencies no task waits.\<close>

lemma run_tasks_total:
  assumes "opens env lib"
  shows "\<forall>a \<in> set (initPoolM p). dependSaM (heap p a) = [] \<Longrightarrow> \<exists>q. run_tasks env fuel sched p = Some q"
proof (induction sched arbitrary: p)
  case (Cons i sched)
  show ?case
  proof (cases "i < length (initPoolM p)")
    case True
    let ?p1 = "p\<lparr>initPoolM := take i (initPoolM p) @ drop (Suc i) (initPoolM p)\<rparr>"
    have "dependSaM (heap ?p1 (initPoolM p ! i)) = []" using Cons.prems True by simp
    then obtain p2 where p2: "StartSystemAbilityTask env fuel (Some (initPoolM p ! i)) ?p1 = Some p2"
      by (simp add: StartSystemAbilityTask_def)
    have "initPoolM p2 = initPoolM ?p1" using StartTask_pool [OF opens_pool_private [OF assms] p2] by simp
    moreover obtain bs where "booting bs p p2" using booting_Task [OF assms p2] by (auto simp: booting_fields)
    ultimately have "\<forall>a \<in> set (initPoolM p2). dependSaM (heap p2 a) = []"
      using Cons.prems by (auto simp: booting_def dest: in_set_takeD in_set_dropD)
    then obtain q where "run_tasks env fuel sched p2 = Some q" using Cons.IH by blast
    then show ?thesis using True p2 by simp
  qed (use Cons in simp)
qed simp

section \<open>Registration\<close>

lemma find_profile: "distinct (map pf_saId pfs) \<Longrightarrow> pf \<in> set pfs \<Longrightarrow> find (\<lambda>x. pf_saId x = pf_saId pf) pfs = Some pf"
  by (induction pfs) (auto simp: image_iff)

text \<open>The answers of the profile parser come from the list \<open>pfs\<close>.\<close>

definition profiles_from :: "env \<Rightarrow> sa_profile list \<Rightarrow> bool" where
  "profiles_from env pfs \<longleftrightarrow> distinct (map pf_saId pfs) \<and> pfs \<noteq> []
     \<and> (\<forall>h i. ans_profile env (h @ [E_GetProfile i]) = find (\<lambda>pf. pf_saId pf = i) pfs)
     \<and> (\<forall>h k. E_OpenSo k \<in> set h \<longrightarrow> ans_profiles env (h @ [E_GetAllSaProfiles]) = pfs)"

lemma AddAbility_new:
  assumes "profiles_from env pfs" and "pf \<in> set pfs" and "saIdM (heap p a) = pf_saId pf"
    and "smap_find (localAbilityMapM p) (pf_saId pf) = None"
  shows "snd (AddAbility env (Some a) p) = (upd_sa a (apply_profile pf) (emit (E_GetProfile (pf_saId pf)) p))
     \<lparr>localAbilityMapM := smap_emplace (pf_saId pf) (Some a) (localAbilityMapM p)\<rparr>"
proof -
  have "ans_profile env (trace p @ [E_GetProfile (pf_saId pf)]) = Some pf"
    using assms(1) find_profile [OF _ assms(2)] by (simp add: profiles_from_def)
  then show ?thesis using assms(3,4) by (simp add: AddAbility_def query_def ask_def Let_def)
qed

text \<open>What registering the abilities of the profiles \<open>qs\<close> does.\<close>

definition registering :: "(int \<Rightarrow> nat) \<Rightarrow> sa_profile list \<Rightarrow> proc \<Rightarrow> proc \<Rightarrow> bool" where
  "registering obj qs p q \<longleftrightarrow> (\<exists>new. trace q = trace p @ new \<and> starts new = [])
     \<and> smap_ok (localAbilityMapM q) \<and> abilityPhaseMapM q = abilityPhaseMapM p
     \<and> (\<forall>i. smap_find (localAbilityMapM q) i = (if i \<in> pf_saId ` set qs then Some (Some (obj i)) else smap_find (localAbilityMapM p) i))
     \<and> (\<forall>b. saIdM (heap q b) = saIdM (heap p b) \<and> abilityStateM (heap q b) = abilityStateM (heap p b))
     \<and> (\<forall>b. b \<notin> (\<lambda>pf. obj (pf_saId pf)) ` set qs \<longrightarrow> dependSaM (heap q b) = dependSaM (heap p b))
     \<and> (\<forall>pf \<in> set qs. dependSaM (heap q (obj (pf_saId pf))) = pf_dependSa pf)"

lemma register_profiles:
  assumes w: "profiles_from env pfs"
  shows "set qs \<subseteq> set pfs \<Longrightarrow> distinct (map pf_saId qs) \<Longrightarrow> smap_ok (localAbilityMapM p) \<Longrightarrow>
     \<forall>pf \<in> set qs. saIdM (heap p (obj (pf_saId pf))) = pf_saId pf \<and> smap_find (localAbilityMapM p) (pf_saId pf) = None \<Longrightarrow>
     registering obj qs p (register_all env (map (\<lambda>pf. obj (pf_saId pf)) qs) p)"
proof (induction qs arbitrary: p)
  case Nil
  then show ?case by (simp add: register_all_def registering_def)
next
  case (Cons pf qs)
  let ?i = "pf_saId pf" and ?a = "obj (pf_saId pf)"
  let ?p1 = "(upd_sa ?a (apply_profile pf) (emit (E_GetProfile ?i) p))\<lparr>localAbilityMapM := smap_emplace ?i (Some ?a) (localAbilityMapM p)\<rparr>"
  let ?q = "register_all env (map (\<lambda>pf. obj (pf_saId pf)) qs) ?p1"
  have 1: "register_all env (map (\<lambda>pf. obj (pf_saId pf)) (pf # qs)) p = ?q"
    using AddAbility_new [OF w, of pf p ?a] Cons.prems by (simp add: register_all_def)
  have f1: "smap_find (localAbilityMapM ?p1) i = (if i = ?i then Some (Some ?a) else smap_find (localAbilityMapM p) i)" for i
    using Cons.prems by (simp add: smap_find_emplace)
  have "registering obj qs ?p1 ?q"
  proof (rule Cons.IH)
    show "smap_ok (localAbilityMapM ?p1)" using Cons.prems(3) by (simp add: smap_ok_emplace)
    show "\<forall>x \<in> set qs. saIdM (heap ?p1 (obj (pf_saId x))) = pf_saId x \<and> smap_find (localAbilityMapM ?p1) (pf_saId x) = None"
    proof
      fix x assume x: "x \<in> set qs"
      then have "pf_saId x \<noteq> ?i" using Cons.prems(2) by (metis distinct.simps(2) image_eqI list.set_map list.simps(9))
      moreover have "saIdM (heap p (obj (pf_saId x))) = pf_saId x" "smap_find (localAbilityMapM p) (pf_saId x) = None"
        using Cons.prems(4) x by simp_all
      ultimately show "saIdM (heap ?p1 (obj (pf_saId x))) = pf_saId x \<and> smap_find (localAbilityMapM ?p1) (pf_saId x) = None"
        using Cons.prems(3) by (auto simp: smap_find_emplace)
    qed
  qed (use Cons.prems in auto)
  moreover have "?a \<noteq> obj (pf_saId x)" if "x \<in> set qs" for x
    using Cons.prems(2,4) that by (metis distinct.simps(2) image_eqI list.set_intros list.set_map list.simps(9))
  then have "?a \<notin> (\<lambda>pf. obj (pf_saId pf)) ` set qs" by blast
  ultimately show ?case
    unfolding 1 registering_def f1 by (auto simp: f1)
qed

section \<open>Phases\<close>

text \<open>The abilities of phase \<open>k\<close>: those of the profiles of the phase whose library is \<open>opened\<close>.\<close>

definition phase_abilities :: "(int \<Rightarrow> nat) \<Rightarrow> (sa_profile \<Rightarrow> bool) \<Rightarrow> sa_profile list \<Rightarrow> nat \<Rightarrow> nat list" where
  "phase_abilities obj opened pfs k = map (\<lambda>pf. obj (pf_saId pf)) (filter (\<lambda>pf. pf_bootPhase pf = k \<and> opened pf) pfs)"

definition due :: "(sa_profile \<Rightarrow> bool) \<Rightarrow> nat \<Rightarrow> sa_profile \<Rightarrow> bool" where
  "due opened k pf \<longleftrightarrow> opened pf \<and> 1 \<le> pf_bootPhase pf \<and> pf_bootPhase pf \<le> k"

text \<open>The libraries of the phases up to \<open>k\<close> are opened, and their abilities are listed.\<close>

definition prepared :: "(int \<Rightarrow> nat) \<Rightarrow> (sa_profile \<Rightarrow> bool) \<Rightarrow> sa_profile list \<Rightarrow> nat \<Rightarrow> proc \<Rightarrow> bool" where
  "prepared obj opened pfs k p \<longleftrightarrow> smap_ok (localAbilityMapM p) \<and> smap_ok (abilityPhaseMapM p)
     \<and> (\<forall>pf \<in> set pfs. smap_find (localAbilityMapM p) (pf_saId pf) = (if due opened k pf then Some (Some (obj (pf_saId pf))) else None))
     \<and> (\<forall>j. phase_list j p = (if 1 \<le> j \<and> j \<le> k then map Some (phase_abilities obj opened pfs j) else []))
     \<and> (\<forall>pf \<in> set pfs. saIdM (heap p (obj (pf_saId pf))) = pf_saId pf
          \<and> (due opened k pf \<longrightarrow> dependSaM (heap p (obj (pf_saId pf))) = pf_dependSa pf)
          \<and> (abilityStateM (heap p (obj (pf_saId pf))) = NOT_LOADED \<or> obj (pf_saId pf) \<in> set (starts (trace p))))"

lemma booting_prepared: "booting as p q \<Longrightarrow> prepared obj opened pfs k p \<Longrightarrow> prepared obj opened pfs k q"
proof -
  assume b: "booting as p q" and p: "prepared obj opened pfs k p"
  have "abilityStateM (heap q a) = NOT_LOADED \<or> a \<in> set (starts (trace q))"
    if "abilityStateM (heap p a) = NOT_LOADED \<or> a \<in> set (starts (trace p))" for a
    using that b by (auto simp: booting_def) metis
  then show ?thesis using b p by (simp add: prepared_def booting_def phase_list_def)
qed

lemma prepared_inj:
  assumes "profiles_from env pfs" and "prepared obj opened pfs k p" and "pf \<in> set pfs" and "x \<in> set pfs"
  shows "obj (pf_saId pf) = obj (pf_saId x) \<Longrightarrow> pf = x"
proof -
  assume "obj (pf_saId pf) = obj (pf_saId x)"
  then have "pf_saId pf = pf_saId x" using assms(2-4) unfolding prepared_def by metis
  then show "pf = x" using assms(1,3,4) by (auto simp: profiles_from_def distinct_map inj_on_def)
qed

lemma init_phase_fold: "\<exists>m. fold (init_phase_profile ph) pfs p = p\<lparr>abilityPhaseMapM := m\<rparr>"
proof (induction pfs arbitrary: p)
  case Nil
  show ?case by (auto intro: exI [of _ "abilityPhaseMapM p"])
next
  case (Cons pf pfs)
  have "\<exists>m. init_phase_profile ph pf p = p\<lparr>abilityPhaseMapM := m\<rparr>"
    by (auto simp: init_phase_profile_def InitializeSaProfilesInnerLocked_def Let_def split: option.split
        intro: exI [of _ "abilityPhaseMapM p"])
  then obtain m where "init_phase_profile ph pf p = p\<lparr>abilityPhaseMapM := m\<rparr>" by blast
  then show ?case using Cons [of "p\<lparr>abilityPhaseMapM := m\<rparr>"] by auto
qed

lemma due_Suc: "due opened (Suc k) pf \<longleftrightarrow> due opened k pf \<or> (pf_bootPhase pf = Suc k \<and> opened pf)"
  by (auto simp: due_def)

definition same_work :: "proc \<Rightarrow> proc \<Rightarrow> bool" where
  "same_work p q \<longleftrightarrow> same_pool p q \<and> starts (trace q) = starts (trace p)"

lemma open_libraries:
  assumes w: "profiles_from env pfs" and o: "opens env (phase_abilities obj opened pfs)"
    and p: "prepared obj opened pfs k p" and q: "q = run_foreign env (E_OpenSo (Suc k)) p"
  defines "qs \<equiv> filter (\<lambda>pf. pf_bootPhase pf = Suc k \<and> opened pf) pfs"
  shows "registering obj qs (emit (E_OpenSo (Suc k)) p) q" "same_work p q" "E_OpenSo (Suc k) \<in> set (trace q)"
proof -
  let ?p = "emit (E_OpenSo (Suc k)) p"
  have eq: "q = register_all env (map (\<lambda>pf. obj (pf_saId pf)) qs) ?p"
    using opens_registers [OF o, of "trace p @ [E_OpenSo (Suc k)]" "Suc k"] unfolding q run_foreign_def
    by (simp add: phase_abilities_def qs_def)
  have d: "distinct (map pf_saId qs)"
    using w by (simp add: profiles_from_def qs_def distinct_map_filter)
  show r: "registering obj qs ?p q"
    unfolding eq using p d by (intro register_profiles [OF w]) (auto simp: qs_def prepared_def due_def)
  show "same_work p q"
    using r register_all_pool [of env "map (\<lambda>pf. obj (pf_saId pf)) qs" ?p]
    by (auto simp: registering_def same_work_def same_pool_def eq)
  show "E_OpenSo (Suc k) \<in> set (trace q)" using r by (auto simp: registering_def)
qed

text \<open>The profiles of the next phase once its libraries are open: their abilities are registered, and the profiles fill its list.\<close>

lemma registered_next:
  assumes w: "profiles_from env pfs" and p: "prepared obj opened pfs k p"
    and r: "registering obj (filter (\<lambda>pf. pf_bootPhase pf = Suc k \<and> opened pf) pfs) (emit ev p) p1" and pf: "pf \<in> set pfs"
  shows "smap_find (localAbilityMapM p1) (pf_saId pf) = (if due opened (Suc k) pf then Some (Some (obj (pf_saId pf))) else None)"
proof -
  have "pf_saId pf \<in> pf_saId ` set (filter (\<lambda>pf. pf_bootPhase pf = Suc k \<and> opened pf) pfs) \<longleftrightarrow> pf_bootPhase pf = Suc k \<and> opened pf"
    using w pf unfolding profiles_from_def by (auto simp: distinct_map inj_on_def)
  then show ?thesis using r p pf by (simp add: registering_def prepared_def due_Suc)
qed

lemma filled_next:
  assumes p: "prepared obj opened pfs k p" and k: "k < OTHER_START"
    and r: "registering obj (filter (\<lambda>pf. pf_bootPhase pf = Suc k \<and> opened pf) pfs) (emit ev p) p1"
    and find: "\<And>pf. pf \<in> set pfs \<Longrightarrow> smap_find (localAbilityMapM p1) (pf_saId pf) = (if due opened (Suc k) pf then Some (Some (obj (pf_saId pf))) else None)"
    and q: "q = fold (init_phase_profile (Suc k)) pfs (emit ev' p1)"
  shows "smap_ok (abilityPhaseMapM q)"
    and "phase_list j q = (if 1 \<le> j \<and> j \<le> Suc k then map Some (phase_abilities obj opened pfs j) else [])"
proof -
  let ?p2 = "emit ev' p1"
  have of1: "filter (of_phase (Suc k) ?p2) pfs = filter (\<lambda>pf. pf_bootPhase pf = Suc k \<and> opened pf) pfs"
    by (rule filter_cong) (auto simp: of_phase_def GetAbility_def find due_def)
  have lists: "phase_list j ?p2 = phase_list j p" for j using r by (simp add: registering_def phase_list_def)
  have "smap_ok (abilityPhaseMapM ?p2)" using r p by (simp add: registering_def prepared_def)
  then have "smap_ok (abilityPhaseMapM q)" "phase_list (Suc k) q = map Some (phase_abilities obj opened pfs (Suc k))"
      "\<forall>j. j \<noteq> Suc k \<longrightarrow> phase_list j q = phase_list j p"
    using init_phase_profiles [of "Suc k" ?p2 pfs] k p of1 find lists
    by (auto simp: q Let_def prepared_def phase_abilities_def GetAbility_def due_Suc comp_def)
  then show "smap_ok (abilityPhaseMapM q)" "phase_list j q = (if 1 \<le> j \<and> j \<le> Suc k then map Some (phase_abilities obj opened pfs j) else [])"
    using p by (auto simp: prepared_def le_Suc_eq)
qed

lemma depends_next:
  assumes w: "profiles_from env pfs" and p: "prepared obj opened pfs k p"
    and r: "registering obj (filter (\<lambda>pf. pf_bootPhase pf = Suc k \<and> opened pf) pfs) (emit ev p) p1" and pf: "pf \<in> set pfs" "due opened (Suc k) pf"
  shows "dependSaM (heap p1 (obj (pf_saId pf))) = pf_dependSa pf"
proof (cases "pf \<in> set (filter (\<lambda>pf. pf_bootPhase pf = Suc k \<and> opened pf) pfs)")
  case True
  then show ?thesis using r by (simp add: registering_def)
next
  case False
  let ?qs = "filter (\<lambda>pf. pf_bootPhase pf = Suc k \<and> opened pf) pfs"
  have "obj (pf_saId pf) \<noteq> obj (pf_saId x)" if x: "x \<in> set ?qs" for x
    using prepared_inj [OF w p pf(1), of x] x False by auto
  then have "obj (pf_saId pf) \<notin> (\<lambda>pf. obj (pf_saId pf)) ` set ?qs" by blast
  then have "dependSaM (heap p1 (obj (pf_saId pf))) = dependSaM (heap p (obj (pf_saId pf)))"
    using r unfolding registering_def by simp
  then show ?thesis using False pf p by (auto simp: due_Suc prepared_def)
qed

lemma prepare_next:
  assumes w: "profiles_from env pfs" and o: "opens env (phase_abilities obj opened pfs)"
    and p: "prepared obj opened pfs k p" and "k < OTHER_START"
  shows "\<exists>q. InitializeRunOnCreateSaProfiles env (Suc k) p = (True, q) \<and> prepared obj opened pfs (Suc k) q \<and> same_work p q"
proof -
  define p1 where "p1 = run_foreign env (E_OpenSo (Suc k)) p"
  define q where "q = fold (init_phase_profile (Suc k)) pfs (emit E_GetAllSaProfiles p1)"
  have r: "registering obj (filter (\<lambda>pf. pf_bootPhase pf = Suc k \<and> opened pf) pfs) (emit (E_OpenSo (Suc k)) p) p1"
    and sw: "same_work p p1" and "E_OpenSo (Suc k) \<in> set (trace p1)"
    using open_libraries [OF w o p p1_def] by auto
  then have "ans_profiles env (trace p1 @ [E_GetAllSaProfiles]) = pfs" "pfs \<noteq> []" using w by (auto simp: profiles_from_def)
  then have call: "InitializeRunOnCreateSaProfiles env (Suc k) p = (True, q)"
    using assms(4) by (simp add: InitializeRunOnCreateSaProfiles_def query_def ask_def Let_def q_def p1_def)
  obtain m where m: "q = (emit E_GetAllSaProfiles p1)\<lparr>abilityPhaseMapM := m\<rparr>" using init_phase_fold unfolding q_def by blast
  note find = registered_next [OF w p r]
  note filled = filled_next [OF p assms(4) r find q_def]
  have heap: "saIdM (heap q b) = saIdM (heap p b)" "abilityStateM (heap q b) = abilityStateM (heap p b)" for b
    using r by (simp_all add: m registering_def)
  have st: "starts (trace q) = starts (trace p)" using sw by (simp add: m same_work_def)
  have "same_work p q" using sw by (simp add: m same_work_def same_pool_def)
  moreover have "smap_ok (localAbilityMapM q)" using r by (simp add: m registering_def)
  then have "prepared obj opened pfs (Suc k) q"
    using p filled find depends_next [OF w p r] by (simp add: prepared_def heap st) (simp add: m)
  ultimately show ?thesis using call by blast
qed

text \<open>At the last phase there is nothing left to prepare.\<close>

lemma prepare_further:
  assumes "profiles_from env pfs" and "opens env (phase_abilities obj opened pfs)" and "prepared obj opened pfs k p" and "k \<le> OTHER_START"
  shows "\<exists>b q. InitializeRunOnCreateSaProfiles env (Suc k) p = (b, q) \<and> prepared obj opened pfs (min (Suc k) OTHER_START) q \<and> same_work p q"
proof (cases "k < OTHER_START")
  case True
  then show ?thesis using prepare_next [OF assms(1-3)] by (auto simp: min_def)
next
  case False
  then have "k = OTHER_START" using assms(4) by simp
  then show ?thesis
    using assms(3) by (intro exI [of _ False] exI [of _ p]) (simp add: InitializeRunOnCreateSaProfiles_def same_work_def same_pool_def)
qed

lemma StartPhaseTasks_frame: "\<exists>n ts. StartPhaseTasks xs p = p\<lparr>startTaskNumM := n, initPoolM := ts\<rparr>"
proof -
  let ?f = "\<lambda>systemAbility p. case systemAbility of None \<Rightarrow> p
     | Some a \<Rightarrow> p\<lparr>startTaskNumM := startTaskNumM p + 1, initPoolM := initPoolM p @ [a]\<rparr>"
  have "\<exists>n ts. fold ?f xs p = p\<lparr>startTaskNumM := n, initPoolM := ts\<rparr>"
  proof (induction xs arbitrary: p)
    case Nil
    show ?case by (intro exI [of _ "startTaskNumM p"] exI [of _ "initPoolM p"]) simp
  next
    case (Cons x xs)
    show ?case
      using Cons [of p] Cons [of "p\<lparr>startTaskNumM := startTaskNumM p + 1, initPoolM := initPoolM p @ [the x]\<rparr>"]
      by (cases x) auto
  qed
  moreover have "StartPhaseTasks xs p = fold ?f xs p" by (cases xs) (simp_all add: StartPhaseTasks_def)
  ultimately show ?thesis by simp
qed

lemma phase_pool:
  assumes "startTaskNumM p = 0" and "initPoolM p = []"
  shows "startTaskNumM (StartPhaseTasks (map Some as) p) = int (length as)" "initPoolM (StartPhaseTasks (map Some as) p) = as"
  using StartPhaseTasks_count [of "map Some as" p] assms by (simp_all add: filter_map comp_def)

text \<open>A phase, from its tasks being queued to the end of the wait for them.\<close>

definition phase_done :: "(int \<Rightarrow> nat) \<Rightarrow> (sa_profile \<Rightarrow> bool) \<Rightarrow> sa_profile list \<Rightarrow> nat \<Rightarrow> proc \<Rightarrow> proc \<Rightarrow> bool" where
  "phase_done obj opened pfs k p q \<longleftrightarrow> startTaskNumM q = 0 \<and> initPoolM q = []
     \<and> (\<exists>as. starts (trace q) = starts (trace p) @ as \<and> mset as \<subseteq># mset (phase_abilities obj opened pfs k))
     \<and> (\<forall>pf \<in> set pfs. pf_bootPhase pf = k \<and> opened pf \<and> pf_dependSa pf = [] \<longrightarrow> obj (pf_saId pf) \<in> set (starts (trace q)))"

definition all_patient :: "env \<Rightarrow> nat \<Rightarrow> bool" where
  "all_patient env n \<longleftrightarrow> (\<forall>h. patient n (ans_schedule env (h @ [E_WaitForTasks])))"

lemma start_phase_wait:
  assumes w: "profiles_from env pfs" and o: "opens env (phase_abilities obj opened pfs)"
    and p: "prepared obj opened pfs k p" "startTaskNumM p = 0" "initPoolM p = []" and k: "1 \<le> k" "k \<le> OTHER_START"
  shows "\<exists>p1. prepared obj opened pfs (min (Suc k) OTHER_START) p1 \<and> starts (trace p1) = starts (trace p)
     \<and> startTaskNumM p1 = int (length (phase_abilities obj opened pfs k)) \<and> initPoolM p1 = phase_abilities obj opened pfs k
     \<and> (start_phase env fuel DEFAULT_SAID k p = WaitForTasks env fuel p1
        \<or> phase_abilities obj opened pfs k = [] \<and> start_phase env fuel DEFAULT_SAID k p = Some p1)"
proof -
  let ?as = "phase_abilities obj opened pfs k"
  have l: "phase_list k p = map Some ?as" using p(1) k by (simp add: prepared_def)
  show ?thesis
  proof (cases "smap_find (abilityPhaseMapM p) k")
    case None
    then have "?as = []" using l by (simp add: phase_list_def)
    moreover obtain b q where "InitializeRunOnCreateSaProfiles env (Suc k) p = (b, q)"
        "prepared obj opened pfs (min (Suc k) OTHER_START) q" "same_work p q"
      using prepare_further [OF w o p(1) k(2)] by blast
    ultimately show ?thesis
      using None p(2,3) by (intro exI [of _ q]) (simp add: start_phase_def same_work_def same_pool_def)
  next
    case (Some xs)
    let ?p1 = "StartPhaseTasks (map Some ?as) p"
    have "booting [] p ?p1" using StartPhaseTasks_frame [of "map Some ?as" p] by (auto simp: booting_fields booting_refl)
    then have "prepared obj opened pfs k ?p1" "starts (trace ?p1) = starts (trace p)"
      using booting_prepared p(1) booting_starts by fastforce+
    moreover obtain b q where "InitializeRunOnCreateSaProfiles env (Suc k) ?p1 = (b, q)"
        "prepared obj opened pfs (min (Suc k) OTHER_START) q" "same_work ?p1 q"
      using prepare_further [OF w o calculation(1) k(2)] by blast
    ultimately show ?thesis
      using Some l phase_pool [OF p(2,3), of ?as]
      by (intro exI [of _ q]) (simp add: start_phase_def phase_list_def same_work_def same_pool_def)
  qed
qed

text \<open>The wait for the tasks of a phase, all of which are in the pool.\<close>

lemma phase_wait:
  assumes o: "opens env lib" and k: "1 \<le> k" and p1: "prepared obj opened pfs (min (Suc k) OTHER_START) p1" "k \<le> OTHER_START"
      "startTaskNumM p1 = int (length (phase_abilities obj opened pfs k))" "initPoolM p1 = phase_abilities obj opened pfs k"
    and pat: "all_patient env (length pfs)"
  shows "WaitForTasks env fuel p1 = Some q \<Longrightarrow>
       phase_done obj opened pfs k p1 q \<and> prepared obj opened pfs (min (Suc k) OTHER_START) q"
    and "\<forall>pf \<in> set pfs. pf_dependSa pf = [] \<Longrightarrow> \<exists>q. WaitForTasks env fuel p1 = Some q"
proof -
  let ?as = "phase_abilities obj opened pfs k" and ?sched = "ans_schedule env (trace p1 @ [E_WaitForTasks])" and ?p2 = "emit E_WaitForTasks p1"
  have "length ?as \<le> length pfs" by (simp add: phase_abilities_def)
  then have dr: "drains (length (initPoolM ?p2)) ?sched" using pat p1(4) by (simp add: all_patient_def patient_def)
  have p2: "prepared obj opened pfs (min (Suc k) OTHER_START) ?p2"
    using booting_prepared [OF booting_calm p1(1)] calmly_emit [OF calmly_refl] by simp
  have dep: "dependSaM (heap ?p2 (obj (pf_saId pf))) = pf_dependSa pf"
    if "pf \<in> set pfs" "pf_bootPhase pf = k" "opened pf" for pf
    using p2 that k p1(2) by (auto simp: prepared_def due_def)
  {
    assume "WaitForTasks env fuel p1 = Some q"
    then obtain r where r: "run_tasks env fuel ?sched ?p2 = Some r" "q = r\<lparr>startTaskNumM := 0\<rparr>"
      by (auto simp: WaitForTasks_def query_def ask_def)
    obtain as where as: "booting as ?p2 r" "mset as \<subseteq># mset ?as" "initPoolM r = []" "all_tasks_started ?p2 r"
      using booting_tasks [OF o r(1) dr] p1(3,4) by auto
    have q: "booting as ?p2 q" using as(1) by (simp add: r(2) booting_fields)
    have "obj (pf_saId pf) \<in> set (starts (trace q))"
      if pf: "pf \<in> set pfs" "pf_bootPhase pf = k" "opened pf" "pf_dependSa pf = []" for pf
    proof (cases "obj (pf_saId pf) \<in> set (starts (trace ?p2))")
      case True
      then show ?thesis using booting_starts [OF q] by simp
    next
      case False
      then have "abilityStateM (heap ?p2 (obj (pf_saId pf))) = NOT_LOADED" using p2 pf(1) unfolding prepared_def by blast
      moreover have "obj (pf_saId pf) \<in> set ?as" using pf by (auto simp: phase_abilities_def)
      ultimately show ?thesis using as(4) p1(4) pf dep r(2) by (simp add: all_tasks_started_def)
    qed
    then show "phase_done obj opened pfs k p1 q \<and> prepared obj opened pfs (min (Suc k) OTHER_START) q"
      using as(2,3) booting_starts [OF q] booting_prepared [OF q p2] by (auto simp: phase_done_def r(2))
  next
    assume "\<forall>pf \<in> set pfs. pf_dependSa pf = []"
    then have "\<forall>a \<in> set (initPoolM ?p2). dependSaM (heap ?p2 a) = []" using dep p1(4) by (fastforce simp: phase_abilities_def)
    then show "\<exists>q. WaitForTasks env fuel p1 = Some q"
      using run_tasks_total [OF o, of ?p2 fuel ?sched] by (auto simp: WaitForTasks_def query_def ask_def)
  }
qed

lemma phase_runs:
  assumes w: "profiles_from env pfs" and o: "opens env (phase_abilities obj opened pfs)" and pat: "all_patient env (length pfs)"
    and p: "prepared obj opened pfs k p" "startTaskNumM p = 0" "initPoolM p = []" and k: "1 \<le> k" "k \<le> OTHER_START"
  shows "start_phase env fuel DEFAULT_SAID k p = Some q \<Longrightarrow>
       phase_done obj opened pfs k p q \<and> prepared obj opened pfs (min (Suc k) OTHER_START) q"
    and "\<forall>pf \<in> set pfs. pf_dependSa pf = [] \<Longrightarrow> \<exists>q. start_phase env fuel DEFAULT_SAID k p = Some q"
proof -
  let ?as = "phase_abilities obj opened pfs k"
  obtain p1 where p1: "prepared obj opened pfs (min (Suc k) OTHER_START) p1" "starts (trace p1) = starts (trace p)"
      "startTaskNumM p1 = int (length ?as)" "initPoolM p1 = ?as"
      "start_phase env fuel DEFAULT_SAID k p = WaitForTasks env fuel p1
        \<or> ?as = [] \<and> start_phase env fuel DEFAULT_SAID k p = Some p1"
    using start_phase_wait [OF w o p k, of fuel] by blast
  note wait = phase_wait [OF o k(1) p1(1) k(2) p1(3,4) pat, where fuel = fuel]
  have same: "phase_done obj opened pfs k p1 s = phase_done obj opened pfs k p s" for s by (simp add: phase_done_def p1(2))
  have none: "phase_done obj opened pfs k p p1" if "?as = []"
    using p1 that by (fastforce simp: phase_done_def phase_abilities_def filter_empty_conv)
  show "phase_done obj opened pfs k p q \<and> prepared obj opened pfs (min (Suc k) OTHER_START) q"
    if "start_phase env fuel DEFAULT_SAID k p = Some q"
    using that p1(1,5) wait(1) [of q] none by (auto simp: same)
  show "\<exists>q. start_phase env fuel DEFAULT_SAID k p = Some q" if "\<forall>pf \<in> set pfs. pf_dependSa pf = []"
    using wait(2) [OF that] p1(5) by auto
qed

section \<open>The whole start\<close>

text \<open>The abilities \<open>started\<close> are those of the three phases, one phase after the other.\<close>

definition in_phase_order :: "(int \<Rightarrow> nat) \<Rightarrow> (sa_profile \<Rightarrow> bool) \<Rightarrow> sa_profile list \<Rightarrow> nat list \<Rightarrow> bool" where
  "in_phase_order obj opened pfs started \<longleftrightarrow> (\<exists>as1 as2 as3. started = as1 @ as2 @ as3
     \<and> mset as1 \<subseteq># mset (phase_abilities obj opened pfs 1)
     \<and> mset as2 \<subseteq># mset (phase_abilities obj opened pfs 2)
     \<and> mset as3 \<subseteq># mset (phase_abilities obj opened pfs 3))"

definition all_started :: "(int \<Rightarrow> nat) \<Rightarrow> (sa_profile \<Rightarrow> bool) \<Rightarrow> sa_profile list \<Rightarrow> nat list \<Rightarrow> bool" where
  "all_started obj opened pfs started \<longleftrightarrow>
     (\<forall>pf \<in> set pfs. due opened 3 pf \<and> pf_dependSa pf = [] \<longrightarrow> obj (pf_saId pf) \<in> set started)"

lemma phase_numbers: "[BOOT_START..<Suc OTHER_START] = [1, 2, 3]" "OTHER_START = 3"
  by (simp_all add: BOOT_START_def OTHER_START_def upt_rec)

lemma three_phases:
  assumes w: "profiles_from env pfs" and o: "opens env (phase_abilities obj opened pfs)" and pat: "all_patient env (length pfs)"
    and p: "prepared obj opened pfs 1 p" "startTaskNumM p = 0" "initPoolM p = []"
  shows "FindAndStartPhaseTasks env fuel DEFAULT_SAID p = Some q \<Longrightarrow>
       \<exists>as. starts (trace q) = starts (trace p) @ as \<and> in_phase_order obj opened pfs as \<and> all_started obj opened pfs (starts (trace q))"
    and "\<forall>pf \<in> set pfs. pf_dependSa pf = [] \<Longrightarrow> \<exists>q. FindAndStartPhaseTasks env fuel DEFAULT_SAID p = Some q"
proof -
  note run = phase_runs [OF w o pat, unfolded phase_numbers(2)]
  have step: "phase_done obj opened pfs k s t \<and> prepared obj opened pfs (min (Suc k) 3) t"
    if "prepared obj opened pfs k s" "startTaskNumM s = 0" "initPoolM s = []" "1 \<le> k" "k \<le> 3"
      "start_phase env fuel DEFAULT_SAID k s = Some t" for k s t
    using run(1) [OF that] .
  have idle: "startTaskNumM t = 0" "initPoolM t = []" if "phase_done obj opened pfs k s t" for k s t
    using that by (simp_all add: phase_done_def)
  {
    assume "FindAndStartPhaseTasks env fuel DEFAULT_SAID p = Some q"
    then obtain p1 p2 where ph: "start_phase env fuel DEFAULT_SAID 1 p = Some p1" "start_phase env fuel DEFAULT_SAID 2 p1 = Some p2"
        "start_phase env fuel DEFAULT_SAID 3 p2 = Some q"
      unfolding FindAndStartPhaseTasks_def phase_numbers(1) by (auto split: bind_splits)
    have d1: "phase_done obj opened pfs 1 p p1" "prepared obj opened pfs 2 p1" using step [OF p _ _ ph(1)] by (simp_all add: numeral_2_eq_2)
    have d2: "phase_done obj opened pfs 2 p1 p2" "prepared obj opened pfs 3 p2" using step [OF d1(2) idle [OF d1(1)] _ _ ph(2)] by simp_all
    have d3: "phase_done obj opened pfs 3 p2 q" using step [OF d2(2) idle [OF d2(1)] _ _ ph(3)] by simp
    obtain as1 as2 as3 where as: "starts (trace p1) = starts (trace p) @ as1" "mset as1 \<subseteq># mset (phase_abilities obj opened pfs 1)"
        "starts (trace p2) = starts (trace p1) @ as2" "mset as2 \<subseteq># mset (phase_abilities obj opened pfs 2)"
        "starts (trace q) = starts (trace p2) @ as3" "mset as3 \<subseteq># mset (phase_abilities obj opened pfs 3)"
      using d1(1) d2(1) d3 unfolding phase_done_def by blast
    have "all_started obj opened pfs (starts (trace q))"
      unfolding all_started_def
    proof (intro ballI impI)
      fix pf assume pf: "pf \<in> set pfs" "due opened 3 pf \<and> pf_dependSa pf = []"
      then have "pf_bootPhase pf = 1 \<or> pf_bootPhase pf = 2 \<or> pf_bootPhase pf = 3" by (auto simp: due_def)
      then show "obj (pf_saId pf) \<in> set (starts (trace q))"
        using pf d1(1) d2(1) d3 as(3,5) unfolding phase_done_def due_def by auto
    qed
    then show "\<exists>as. starts (trace q) = starts (trace p) @ as \<and> in_phase_order obj opened pfs as \<and> all_started obj opened pfs (starts (trace q))"
      using as by (intro exI [of _ "as1 @ as2 @ as3"]) (auto simp: in_phase_order_def)
  next
    assume nd: "\<forall>pf \<in> set pfs. pf_dependSa pf = []"
    obtain p1 where 1: "start_phase env fuel DEFAULT_SAID 1 p = Some p1" using run(2) [OF p] nd by auto
    have d1: "phase_done obj opened pfs 1 p p1" "prepared obj opened pfs 2 p1" using step [OF p _ _ 1] by (simp_all add: numeral_2_eq_2)
    obtain p2 where 2: "start_phase env fuel DEFAULT_SAID 2 p1 = Some p2" using run(2) [OF d1(2) idle [OF d1(1)]] nd by auto
    have d2: "phase_done obj opened pfs 2 p1 p2" "prepared obj opened pfs 3 p2" using step [OF d1(2) idle [OF d1(1)] _ _ 2] by simp_all
    obtain q where "start_phase env fuel DEFAULT_SAID 3 p2 = Some q" using run(2) [OF d2(2) idle [OF d2(1)]] nd by auto
    then show "\<exists>q. FindAndStartPhaseTasks env fuel DEFAULT_SAID p = Some q"
      using 1 2 unfolding FindAndStartPhaseTasks_def phase_numbers(1) by simp
  }
qed

text \<open>The environment of a default start: the services answer, and the time limits of the phases are kept.\<close>

definition boot_world :: "env \<Rightarrow> string \<Rightarrow> (int \<Rightarrow> nat) \<Rightarrow> (sa_profile \<Rightarrow> bool) \<Rightarrow> sa_profile list \<Rightarrow> bool" where
  "boot_world env path obj opened pfs \<longleftrightarrow>
     length path \<le> PATH_MAX env \<and> (\<forall>h. ans_path env (h @ [E_RealPath path]) \<noteq> None)
     \<and> (\<forall>h real. ans_bool env (h @ [E_ParseSaProfiles real])) \<and> (\<forall>h. ans_bool env (h @ [E_GetSystemAbilityManager]))
     \<and> (\<forall>h n. ans_int env (h @ [E_AddSystemProcess n]) = ERR_OK env)
     \<and> profiles_from env pfs \<and> opens env (phase_abilities obj opened pfs) \<and> all_patient env (length pfs)"

lemma booting_calm_prepared:
  assumes "calmly p q" and "prepared obj opened pfs k p"
  shows "prepared obj opened pfs k q" "same_work p q"
  using booting_prepared [OF booting_calm [OF assms(1)] assms(2)] booting_starts [OF booting_calm [OF assms(1)]] assms(1)
  by (simp_all add: same_work_def same_pool_def calmly_def)

lemma constructed_prepared:
  assumes "\<And>pf. pf \<in> set pfs \<Longrightarrow> \<exists>b. objs (obj (pf_saId pf)) = SystemAbility (pf_saId pf) b"
  shows "prepared obj opened pfs 0 (LocalAbilityManager objs)"
proof -
  have "saIdM (objs (obj (pf_saId pf))) = pf_saId pf \<and> abilityStateM (objs (obj (pf_saId pf))) = NOT_LOADED" if "pf \<in> set pfs" for pf
    using assms [OF that] by (auto simp: SystemAbility_def)
  then show ?thesis by (auto simp: prepared_def LocalAbilityManager_def due_def phase_list_def smap_find_def)
qed

lemma boot_reaches_phases:
  assumes w: "boot_world env path obj opened pfs" and p: "prepared obj opened pfs 0 p"
  shows "\<exists>p1. prepared obj opened pfs 1 p1 \<and> same_work p p1
     \<and> DoStartSAProcess env fuel path DEFAULT_SAID p = map_option (\<lambda>q. run_foreign env E_JoinWorkThread
         (StartTimedQuery env (run_foreign env E_PoolStop q))) (FindAndStartPhaseTasks env fuel DEFAULT_SAID p1)"
proof -
  have sm: "ans_bool env (h @ [E_GetSystemAbilityManager])" "ans_int env (h @ [E_AddSystemProcess n]) = ERR_OK env"
      "ans_bool env (h @ [E_ParseSaProfiles real])" for h n real
    using w by (simp_all add: boot_world_def)
  have pr: "profiles_from env pfs" "opens env (phase_abilities obj opened pfs)" using w by (simp_all add: boot_world_def)
  define p0 where "p0 = emit (E_RealPath path) ((emit E_GetTickCount p)\<lparr>startBeginM := ask (ans_int env) E_GetTickCount (trace p)\<rparr>)"
  have "ans_path env ((trace p @ [E_GetTickCount]) @ [E_RealPath path]) \<noteq> None" using w unfolding boot_world_def by blast
  then obtain real where real: "ask (ans_path env) (E_RealPath path) (trace p @ [E_GetTickCount]) = Some real" unfolding ask_def by blast
  have c0: "calmly p p0" unfolding p0_def by (simp add: calmly_intros calmly_refl)
  obtain p1 where p1: "InitSystemAbilityProfiles env real DEFAULT_SAID p0 = InitializeSaProfiles env DEFAULT_SAID p1" "calmly p0 p1"
    using init_profiles_calm [OF sm(3)] by blast
  have q1: "prepared obj opened pfs 0 p1" "same_work p p1"
    using booting_calm_prepared [OF calmly_trans [OF c0 p1(2)] p] by blast+
  obtain p2 where p2: "InitializeRunOnCreateSaProfiles env BOOT_START p1 = (True, p2)" "prepared obj opened pfs 1 p2" "same_work p1 p2"
    using prepare_next [OF pr q1(1)] by (auto simp: OTHER_START_def BOOT_START_def)
  have ready: "CheckSystemAbilityManagerReady env p2 = (True, emit E_GetSystemAbilityManager p2)"
    using sm(1) by (simp add: CheckSystemAbilityManagerReady_def asks)
  obtain p3 where p3: "Run env fuel DEFAULT_SAID (emit E_GetSystemAbilityManager p2) = map_option
      (\<lambda>q. (True, run_foreign env E_PoolStop q)) (FindAndStartPhaseTasks env fuel DEFAULT_SAID p3)" "calmly (emit E_GetSystemAbilityManager p2) p3"
    using run_calm [of env fuel DEFAULT_SAID] sm(1,2) by blast
  have "calmly p2 p3" by (rule calmly_trans [OF _ p3(2)]) (simp add: calmly_intros calmly_refl)
  then have "prepared obj opened pfs 1 p3" "same_work p2 p3" using booting_calm_prepared p2(2) by blast+
  moreover have "DoStartSAProcess env fuel path DEFAULT_SAID p = map_option (\<lambda>q. run_foreign env E_JoinWorkThread
         (StartTimedQuery env (run_foreign env E_PoolStop q))) (FindAndStartPhaseTasks env fuel DEFAULT_SAID p3)"
    using w real p1(1) p2(1) ready p3(1) unfolding p0_def
    by (simp add: DoStartSAProcess_def CheckAndGetProfilePath_def asks boot_world_def InitializeSaProfiles_def map_option_case split: option.split)
  ultimately show ?thesis using q1(2) p2(3) by (auto simp: same_work_def same_pool_def)
qed

lemma starts_after_phases:
  assumes "opens env lib"
  shows "starts (trace (run_foreign env E_JoinWorkThread (StartTimedQuery env (run_foreign env E_PoolStop q)))) = starts (trace q)"
proof -
  have "starts (trace (run_foreign env ev s)) = starts (trace s)" if "\<not> is_OnStart ev" "opened_phase ev = None" for ev s
    using booting_starts [OF booting_calm [OF opens_foreign [OF assms calmly_refl that]]] by simp
  moreover have "starts (trace (StartTimedQuery env s)) = starts (trace s)" for s
    using StartTimedQuery_trace [of env s] starts_none by auto
  ultimately show ?thesis by simp
qed

lemma distinct_submset: "mset xs \<subseteq># mset ys \<Longrightarrow> distinct ys \<Longrightarrow> distinct xs"
proof -
  assume s: "mset xs \<subseteq># mset ys" and d: "distinct ys"
  obtain zs where "mset zs = mset ys - mset xs" using ex_mset by blast
  then have "mset ys = mset (xs @ zs)" using s by simp
  then have "distinct ys = distinct (xs @ zs)" by (rule mset_eq_imp_distinct_iff)
  then show "distinct xs" using d by simp
qed

lemma in_phase_order_distinct:
  assumes "profiles_from env pfs" and "prepared obj opened pfs k p" and "in_phase_order obj opened pfs as"
  shows "distinct as"
proof -
  have inj: "inj_on (\<lambda>pf. obj (pf_saId pf)) (set pfs)" using prepared_inj [OF assms(1,2)] by (auto intro: inj_onI)
  have "distinct pfs" using assms(1) distinct_map by (auto simp: profiles_from_def)
  then have d: "distinct (phase_abilities obj opened pfs j)" for j
    using inj by (auto simp: phase_abilities_def distinct_map intro: inj_on_subset)
  have sub: "distinct xs \<and> set xs \<subseteq> set (phase_abilities obj opened pfs j)" if "mset xs \<subseteq># mset (phase_abilities obj opened pfs j)" for xs j
    using d [of j] that by (metis distinct_submset set_mset_mono set_mset_mset)
  have "set (phase_abilities obj opened pfs i) \<inter> set (phase_abilities obj opened pfs j) = {}" if "i \<noteq> j" for i j
    using that inj by (fastforce simp: phase_abilities_def inj_on_def)
  from this [of 1 2] this [of 1 3] this [of 2 3] show ?thesis
    using assms(3) sub unfolding in_phase_order_def by (elim exE conjE) (simp, blast)
qed

section \<open>Properties\<close>

text \<open>
  C4. The default start of a process. If the services answer, the opening of the libraries of a phase registers their abilities, the callbacks start
  nothing themselves and no wait for a phase runs into its time limit, then the abilities are started in the order of their boot phases,
  every ability at most once, those that have no dependencies exactly once, and no other. If no profile has
  dependencies, the start ends, whatever the bound on the waits for dependencies.
\<close>

theorem boot_starts_in_phases:
  assumes "boot_world env path obj opened pfs"
    and "\<And>pf. pf \<in> set pfs \<Longrightarrow> \<exists>b. objs (obj (pf_saId pf)) = SystemAbility (pf_saId pf) b"
  shows "(\<forall>q. DoStartSAProcess env fuel path DEFAULT_SAID (LocalAbilityManager objs) = Some q \<longrightarrow>
       in_phase_order obj opened pfs (starts (trace q)) \<and> distinct (starts (trace q)) \<and> all_started obj opened pfs (starts (trace q)))
     \<and> ((\<forall>pf \<in> set pfs. pf_dependSa pf = []) \<longrightarrow>
       (\<exists>q. DoStartSAProcess env fuel path DEFAULT_SAID (LocalAbilityManager objs) = Some q))"
proof -
  let ?p = "LocalAbilityManager objs"
  have pr: "profiles_from env pfs" "opens env (phase_abilities obj opened pfs)" "all_patient env (length pfs)"
    using assms(1) by (simp_all add: boot_world_def)
  have init: "prepared obj opened pfs 0 ?p" "startTaskNumM ?p = 0" "initPoolM ?p = []" "starts (trace ?p) = []"
    using constructed_prepared [OF assms(2)] by (simp_all add: LocalAbilityManager_def)
  obtain p1 where p1: "prepared obj opened pfs 1 p1" "same_work ?p p1"
      "DoStartSAProcess env fuel path DEFAULT_SAID ?p = map_option (\<lambda>q. run_foreign env E_JoinWorkThread
         (StartTimedQuery env (run_foreign env E_PoolStop q))) (FindAndStartPhaseTasks env fuel DEFAULT_SAID p1)"
    using boot_reaches_phases [OF assms(1) init(1)] by blast
  have z: "startTaskNumM p1 = 0" "initPoolM p1 = []" "starts (trace p1) = []" using p1(2) init(2-4) by (simp_all add: same_work_def same_pool_def)
  have "in_phase_order obj opened pfs (starts (trace q)) \<and> all_started obj opened pfs (starts (trace q))"
    if "DoStartSAProcess env fuel path DEFAULT_SAID ?p = Some q" for q
    using that p1(3) three_phases(1) [OF pr p1(1) z(1,2)] z(3) by (fastforce simp: starts_after_phases [OF pr(2)])
  moreover have "distinct as" if "in_phase_order obj opened pfs as" for as
    using that by (rule in_phase_order_distinct [OF pr(1) init(1)])
  ultimately show ?thesis using three_phases(2) [OF pr p1(1) z(1,2)] p1(3) by fastforce
qed

text \<open>A process of two abilities, 7 in the first phase and 9 in the second.\<close>

definition boot_profiles :: "sa_profile list" where
  "boot_profiles = [launch_profile\<lparr>pf_saId := 9, pf_runOnCreate := True\<rparr>, launch_profile\<lparr>pf_runOnCreate := True, pf_bootPhase := 1\<rparr>]"

definition boot_base :: env where
  "boot_base = launch_base\<lparr>ans_profiles := (\<lambda>_. boot_profiles), ans_schedule := (\<lambda>_. [0, 0]),
     ans_profile := (\<lambda>h. case last h of E_GetProfile i \<Rightarrow> find (\<lambda>pf. pf_saId pf = i) boot_profiles | _ \<Rightarrow> None)\<rparr>"

definition boot_env :: env where
  "boot_env = boot_base\<lparr>interfere := (\<lambda>h p. case opened_phase (last h) of
       Some ph \<Rightarrow> register_all boot_base (phase_abilities nat (\<lambda>_. True) boot_profiles ph) p
     | None \<Rightarrow> p)\<rparr>"

lemma boot_env_world: "boot_world boot_env ''/a.json'' nat (\<lambda>_. True) boot_profiles"
proof -
  have "AddAbility boot_env q p = AddAbility boot_base q p" for q p by (simp add: AddAbility_def boot_env_def cong: option.case_cong)
  then have "register_all boot_env as p = register_all boot_base as p" for as p by (simp add: register_all_def)
  then have "opens boot_env (phase_abilities nat (\<lambda>_. True) boot_profiles)"
    by (simp add: opens_def boot_env_def calmly_refl split: option.split)
  moreover have "distinct (map pf_saId boot_profiles)" "boot_profiles \<noteq> []" by (simp_all add: boot_profiles_def launch_profile_def)
  then have "profiles_from boot_env boot_profiles" by (simp add: profiles_from_def boot_env_def boot_base_def)
  moreover have "\<forall>m \<le> Suc (Suc 0). drains m [0, 0]" by (simp add: le_Suc_eq)
  then have "all_patient boot_env (length boot_profiles)"
    by (simp add: all_patient_def patient_def boot_env_def boot_base_def boot_profiles_def)
  moreover have "ans_path boot_env h = Some ''/a.json''" "ans_bool boot_env h" "ans_int boot_env h = ERR_OK boot_env" "PATH_MAX boot_env = 4096" for h
    by (simp_all add: boot_env_def boot_base_def launch_base_def number_env_def quiet_env_def)
  ultimately show ?thesis by (simp add: boot_world_def)
qed

theorem boot_starts_in_phases_witness:
  "\<exists>q. DoStartSAProcess boot_env 0 ''/a.json'' DEFAULT_SAID (LocalAbilityManager (\<lambda>a. SystemAbility (int a) True)) = Some q
     \<and> in_phase_order nat (\<lambda>_. True) boot_profiles (starts (trace q)) \<and> distinct (starts (trace q)) \<and> {7, 9} \<subseteq> set (starts (trace q))"
proof -
  have o: "\<exists>b. (\<lambda>a. SystemAbility (int a) True) (nat (pf_saId pf)) = SystemAbility (pf_saId pf) b" if "pf \<in> set boot_profiles" for pf
    using that by (auto simp: boot_profiles_def launch_profile_def)
  have d: "\<forall>pf \<in> set boot_profiles. pf_dependSa pf = []" by (simp add: boot_profiles_def launch_profile_def)
  have a: "{7, 9} \<subseteq> set h" if "all_started nat (\<lambda>_. True) boot_profiles h" for h
    using that by (simp add: all_started_def boot_profiles_def launch_profile_def due_def)
  show ?thesis
    using boot_starts_in_phases [OF boot_env_world, of "\<lambda>a. SystemAbility (int a) True" 0] o d a by blast
qed

end
