(* ===== verification/Lam_Exit.thy ===== *)
theory Lam_Exit
  imports Lam_Launch
begin

text \<open>
  The start of a process is all or nothing. It goes through the profile path, the profiles, the system ability manager and the
  registration of the process; if one of them fails, the process reports why and has started no ability. If none fails it is
  registered before the first ability is started, and reports no failure.

  The interactions that a part of the start adds to the trace are restricted to those that it may have; the part before the
  phases and the phases differ in what that is, and the locales \<open>boot_events\<close> and \<open>phase_events\<close> state it once for both.
\<close>

section \<open>Interactions\<close>

fun is_exit :: "event \<Rightarrow> bool" where
  "is_exit (E_ReportSaMainExit m) = True"
| "is_exit _ = False"

fun is_registration :: "event \<Rightarrow> bool" where
  "is_registration (E_AddSystemProcess n) = True"
| "is_registration _ = False"

definition preparing :: "event \<Rightarrow> bool" where
  "preparing ev \<longleftrightarrow> \<not> is_OnStart ev \<and> \<not> is_exit ev \<and> \<not> is_registration ev"

definition unfailing :: "event \<Rightarrow> bool" where
  "unfailing ev \<longleftrightarrow> \<not> is_exit ev"

definition adds :: "(event \<Rightarrow> bool) \<Rightarrow> proc \<Rightarrow> proc \<Rightarrow> bool" where
  "adds F p q \<longleftrightarrow> (\<exists>new. trace q = trace p @ new \<and> list_all F new)"

text \<open>Foreign code may do anything to the state, but what it adds to the trace is restricted.\<close>

definition foreign_adds :: "(event \<Rightarrow> bool) \<Rightarrow> env \<Rightarrow> bool" where
  "foreign_adds F env \<longleftrightarrow> (\<forall>h p. adds F p (interfere env h p))"

lemma adds_refl: "adds F p p"
  by (simp add: adds_def)

lemma adds_trans: "adds F p q \<Longrightarrow> adds F q s \<Longrightarrow> adds F p s"
  by (auto simp: adds_def)

lemma adds_emit: "adds F p q \<Longrightarrow> F ev \<Longrightarrow> adds F p (emit ev q)"
  by (auto simp: adds_def)

lemma adds_mono: "adds F p q \<Longrightarrow> (\<And>ev. F ev \<Longrightarrow> G ev) \<Longrightarrow> adds G p q"
  by (auto simp: adds_def list.pred_mono_strong)

lemma adds_same_trace: "trace s = trace q \<Longrightarrow> adds F p q \<Longrightarrow> adds F p s"
  by (simp add: adds_def)

lemma adds_foreign: "foreign_adds F env \<Longrightarrow> adds F p q \<Longrightarrow> F ev \<Longrightarrow> adds F p (run_foreign env ev q)"
  unfolding run_foreign_def foreign_adds_def by (blast intro: adds_trans adds_emit)

lemma adds_fold: "(\<And>x q. adds F p q \<Longrightarrow> adds F p (f x q)) \<Longrightarrow> adds F p q \<Longrightarrow> adds F p (fold f xs q)"
  by (induction xs arbitrary: q) simp_all

lemma adds_fields [simp]:
  "adds F p (q\<lparr>startBeginM := x\<rparr>) = adds F p q" "adds F p (q\<lparr>procNameM := n\<rparr>) = adds F p q"
  "adds F p (q\<lparr>localAbilityManagerM := b\<rparr>) = adds F p q" "adds F p (q\<lparr>abilityPhaseMapM := m\<rparr>) = adds F p q"
  "adds F p (q\<lparr>startTaskNumM := k\<rparr>) = adds F p q" "adds F p (q\<lparr>initPoolM := ts\<rparr>) = adds F p q"
  "adds F p (upd_sa a f q) = adds F p q"
  by (simp_all add: adds_def upd_sa_def)

lemmas adds_intros = adds_emit adds_foreign

section \<open>The parts of the start\<close>

locale boot_events =
  fixes F :: "event \<Rightarrow> bool"
  assumes harmless: "preparing ev \<Longrightarrow> F ev"
begin

lemma adds_wait_samgr: "foreign_adds F env \<Longrightarrow> adds F p q \<Longrightarrow> adds F p (snd (wait_samgr env n b q))"
  by (induction env n b q rule: wait_samgr.induct) (simp_all add: asks Let_def adds_intros harmless preparing_def)

lemma adds_samgr_ready: "foreign_adds F env \<Longrightarrow> adds F p q \<Longrightarrow> adds F p (snd (CheckSystemAbilityManagerReady env q))"
  by (simp add: CheckSystemAbilityManagerReady_def asks Let_def adds_wait_samgr adds_intros harmless preparing_def)

lemma adds_path: "adds F p q \<Longrightarrow> adds F p (snd (CheckAndGetProfilePath env path q))"
  by (simp add: CheckAndGetProfilePath_def asks adds_intros harmless preparing_def)

lemma adds_trust: "adds F p q \<Longrightarrow> adds F p (CheckTrustSa env path n pfs q)"
  by (simp add: CheckTrustSa_def Let_def adds_intros adds_fold harmless preparing_def)

lemma adds_inner: "adds F p q \<Longrightarrow> adds F p (snd (InitializeSaProfilesInnerLocked pf q))"
  by (simp add: InitializeSaProfilesInnerLocked_def Let_def split: option.split)

lemma adds_run_on_create: "foreign_adds F env \<Longrightarrow> adds F p q \<Longrightarrow> adds F p (snd (InitializeRunOnCreateSaProfiles env ph q))"
  by (simp add: InitializeRunOnCreateSaProfiles_def init_phase_profile_def asks Let_def adds_intros adds_fold adds_inner harmless preparing_def)

lemma adds_profiles: "foreign_adds F env \<Longrightarrow> adds F p q \<Longrightarrow> adds F p (snd (InitSystemAbilityProfiles env path i q))"
  by (simp add: InitSystemAbilityProfiles_def InitializeSaProfiles_def InitializeOnDemandSaProfile_def asks Let_def adds_intros
      adds_run_on_create adds_inner adds_trust harmless preparing_def split: option.split)

lemma adds_register_on_demand: "adds F p q \<Longrightarrow> adds F p (RegisterOnDemandSystemAbility env i q)"
  by (simp add: RegisterOnDemandSystemAbility_def asks Let_def adds_intros adds_fold harmless preparing_def)

lemma adds_extra: "adds F p q \<Longrightarrow> adds F p (snd (GetOnDemandReasonExtraData env r q))"
  by (simp add: GetOnDemandReasonExtraData_def asks Let_def adds_intros harmless preparing_def split: option.split)

lemma adds_dependencies: "adds F p q \<Longrightarrow> adds F p (snd (CheckDependencyStatus env deps q))"
proof -
  have "adds F p q \<Longrightarrow> adds F p (snd (check_each env deps q))" for q
    by (induction env deps q rule: check_each.induct) (simp_all add: asks Let_def case_prod_beta adds_intros harmless preparing_def)
  then show "adds F p q \<Longrightarrow> adds F p (snd (CheckDependencyStatus env deps q))"
    by (simp add: CheckDependencyStatus_def asks Let_def adds_intros harmless preparing_def)
qed

lemma adds_depend_wait:
  "depend_wait env fuel start t a n q = Some s \<Longrightarrow> foreign_adds F env \<Longrightarrow> adds F p q \<Longrightarrow> adds F p s"
proof (induction fuel arbitrary: n q)
  case 0
  then show ?case by (cases n) simp_all
next
  case (Suc fuel)
  have step: "adds F p (snd (CheckDependencyStatus env deps (run_foreign env (E_Usleep u) (emit E_GetTickCount q))))" for deps u
    using Suc.prems(2,3) by (simp add: adds_intros adds_dependencies harmless preparing_def)
  show ?case
    using Suc.prems Suc.IH [OF _ Suc.prems(2) step]
    by (cases n) (auto simp: asks Let_def case_prod_beta adds_intros harmless preparing_def split: if_splits)
qed

lemma adds_timed_query: "adds F p q \<Longrightarrow> adds F p (StartTimedQuery env q)"
proof -
  have "trace (fold init_unused_entry pfs q) = trace q" for pfs q
    by (induction pfs arbitrary: q) (simp_all add: init_unused_entry_def LimitUnusedTimeout_eq)
  then show "adds F p q \<Longrightarrow> adds F p (StartTimedQuery env q)"
    by (auto simp: StartTimedQuery_def StartOnDemandTimer_def InitUnusedCfg_def Let_def asks adds_def harmless preparing_def)
qed

end

text \<open>The phases also start abilities.\<close>

locale phase_events = boot_events +
  assumes starting: "F (E_OnStart a r)"
begin

lemma adds_Start: "foreign_adds F env \<Longrightarrow> adds F p q \<Longrightarrow> adds F p (Start env a q)"
  by (simp add: Start_def GetStartReason_def Let_def case_prod_beta adds_intros adds_extra starting adds_same_trace)

lemma adds_depend_task:
  "StartDependSaTask env fuel ab q = Some s \<Longrightarrow> foreign_adds F env \<Longrightarrow> adds F p q \<Longrightarrow> adds F p s"
proof -
  assume r: "foreign_adds F env" "adds F p q" and s: "StartDependSaTask env fuel ab q = Some s"
  have before: "adds F p (snd (CheckDependencyStatus env deps (emit E_GetTickCount q)))" for deps
    using r(2) by (simp add: adds_intros adds_dependencies harmless preparing_def)
  show "adds F p s"
    using s r adds_depend_wait [OF _ r(1) before]
    by (auto simp: StartDependSaTask_def asks Let_def case_prod_beta adds_dependencies adds_Start split: option.splits if_splits)
qed

lemma adds_task:
  "StartSystemAbilityTask env fuel ab q = Some s \<Longrightarrow> foreign_adds F env \<Longrightarrow> adds F p q \<Longrightarrow> adds F p s"
  by (auto simp: StartSystemAbilityTask_def adds_Start dest: adds_depend_task split: option.splits if_splits)

lemma adds_run_tasks: "run_tasks env fuel sch q = Some s \<Longrightarrow> foreign_adds F env \<Longrightarrow> adds F p q \<Longrightarrow> adds F p s"
  by (induction env fuel sch q rule: run_tasks.induct) (auto split: if_splits bind_splits dest: adds_task [where p = p])

lemma adds_wait_tasks: "WaitForTasks env fuel q = Some s \<Longrightarrow> foreign_adds F env \<Longrightarrow> adds F p q \<Longrightarrow> adds F p s"
  by (auto simp: WaitForTasks_def asks adds_intros harmless preparing_def dest: adds_run_tasks [where p = p])

lemma adds_queue: "adds F p q \<Longrightarrow> adds F p (StartPhaseTasks xs q)"
  by (auto simp: StartPhaseTasks_def intro!: adds_fold split: option.split)

lemma adds_phases: "run_phases env fuel i phs q = Some s \<Longrightarrow> foreign_adds F env \<Longrightarrow> adds F p q \<Longrightarrow> adds F p s"
proof (induction env fuel i phs q rule: run_phases.induct)
  case (2 env fuel i ph phs q)
  then obtain q1 where q1: "start_phase env fuel i ph q = Some q1" "run_phases env fuel i phs q1 = Some s"
    by (auto split: bind_splits)
  have "adds F p q1"
    using q1(1) "2.prems" by (auto simp: start_phase_def Let_def case_prod_beta adds_queue adds_run_on_create
        intro: adds_wait_tasks split: if_splits option.splits)
  then show ?case using "2.IH" [OF q1] q1(2) "2.prems" by blast
qed simp

end

interpretation bp: boot_events preparing
  by unfold_locales

interpretation pu: phase_events unfailing
  by unfold_locales (simp_all add: preparing_def unfailing_def)

section \<open>The outcome of a start\<close>

text \<open>A start that failed: what it added to the trace \<open>h\<close> ends with the report, contains no start of an ability, and no registration of the process was accepted.\<close>

definition failed_boot :: "env \<Rightarrow> event list \<Rightarrow> event list \<Rightarrow> bool" where
  "failed_boot env h new \<longleftrightarrow> (\<exists>evs m. new = evs @ [E_ReportSaMainExit m] \<and> list_all (\<lambda>ev. \<not> is_OnStart ev \<and> \<not> is_exit ev) evs
     \<and> (\<forall>as n bs. evs = as @ E_AddSystemProcess n # bs \<longrightarrow> ans_int env (h @ as @ [E_AddSystemProcess n]) \<noteq> ERR_OK env))"

text \<open>A start that succeeded: the process was registered before any ability was started, no failure is reported, and the process serves requests.\<close>

definition registered_boot :: "env \<Rightarrow> event list \<Rightarrow> event list \<Rightarrow> bool" where
  "registered_boot env h new \<longleftrightarrow> (\<exists>as n bs. new = as @ E_AddSystemProcess n # bs \<and> list_all preparing as
     \<and> ans_int env (h @ as @ [E_AddSystemProcess n]) = ERR_OK env \<and> list_all unfailing bs \<and> E_JoinWorkThread \<in> set bs)"

lemma failed_early:
  assumes "adds preparing p q"
  shows "\<exists>new. trace (emit (E_ReportSaMainExit m) q) = trace p @ new \<and> failed_boot env (trace p) new"
proof -
  obtain evs where evs: "trace q = trace p @ evs" "list_all preparing evs" using assms by (auto simp: adds_def)
  then have "failed_boot env (trace p) (evs @ [E_ReportSaMainExit m])"
    by (auto simp: failed_boot_def preparing_def list_all_iff)
  then show ?thesis using evs(1) by simp
qed

lemma registration_cases:
  assumes "AddLocalAbilityManager env p = (ret, q)"
  shows "\<not> ret \<and> trace q = trace p @ [E_GetSystemAbilityManager]
     \<or> trace q = trace p @ [E_GetSystemAbilityManager, E_AddSystemProcess (procNameM p)] \<and> ret = (ans_int env (trace q) = ERR_OK env)"
  using assms by (auto simp: AddLocalAbilityManager_def asks Let_def split: if_splits)

lemma failed_registration:
  assumes "adds preparing p p1" and r: "AddLocalAbilityManager env p1 = (False, q)"
  shows "\<exists>new. trace (emit (E_ReportSaMainExit m) q) = trace p @ new \<and> failed_boot env (trace p) new"
  using registration_cases [OF r]
proof (elim disjE conjE)
  assume "trace q = trace p1 @ [E_GetSystemAbilityManager]"
  then have "adds preparing p q"
    using adds_emit [OF assms(1), of E_GetSystemAbilityManager] by (simp add: preparing_def adds_def)
  then show ?thesis by (rule failed_early)
next
  assume t: "trace q = trace p1 @ [E_GetSystemAbilityManager, E_AddSystemProcess (procNameM p1)]"
    and no: "False = (ans_int env (trace q) = ERR_OK env)"
  obtain evs where evs: "trace p1 = trace p @ evs" "list_all preparing evs" using assms(1) by (auto simp: adds_def)
  let ?ev = "E_AddSystemProcess (procNameM p1)" and ?evs = "evs @ [E_GetSystemAbilityManager]"
  have prep: "list_all preparing ?evs" using evs(2) by (simp add: preparing_def)
  have refused: "ans_int env (trace p @ as @ [E_AddSystemProcess n]) \<noteq> ERR_OK env" if "?evs @ [?ev] = as @ E_AddSystemProcess n # bs" for as n bs
  proof -
    have "E_AddSystemProcess n \<notin> set ?evs" using prep by (auto simp: preparing_def list_all_iff)
    moreover have "E_AddSystemProcess n \<in> set ?evs" if "bs \<noteq> []"
      using \<open>?evs @ [?ev] = as @ E_AddSystemProcess n # bs\<close> that
      by (cases bs rule: rev_cases) (simp, metis append_Cons append_assoc butlast_snoc in_set_conv_decomp)
    ultimately have "bs = []" by blast
    then show ?thesis using that no t evs(1) by auto
  qed
  have "failed_boot env (trace p) ((?evs @ [?ev]) @ [E_ReportSaMainExit m])"
    unfolding failed_boot_def using prep
    by (intro exI [of _ "?evs @ [?ev]"] exI [of _ m] conjI allI impI refl refused) (auto simp: preparing_def list_all_iff)
  then show ?thesis using t evs(1) by simp
qed

lemma Run_outcome:
  assumes "foreign_adds preparing env" and "Run env fuel i p = Some (ret, q)"
  shows "\<exists>p1. AddLocalAbilityManager env p = (ret, p1) \<and> (if ret then adds unfailing p1 q else q = p1)"
proof -
  have f: "foreign_adds unfailing env"
    using assms(1) unfolding foreign_adds_def by (meson adds_mono preparing_def unfailing_def)
  obtain b p1 where a: "AddLocalAbilityManager env p = (b, p1)" by force
  let ?p2 = "RegisterOnDemandSystemAbility env i (emit (E_PoolSetMaxTaskNum MAX_TASK_NUMBER)
    (emit (E_PoolStart (ans_int env (trace p1 @ [E_HardwareConcurrency]))) (emit E_HardwareConcurrency p1)))"
  have "adds unfailing p1 ?p2" by (intro pu.adds_register_on_demand adds_emit adds_refl) (simp_all add: unfailing_def)
  then have "adds unfailing p1 (run_foreign env E_PoolStop s)" if "FindAndStartPhaseTasks env fuel i ?p2 = Some s" for s
    using pu.adds_phases [OF that [unfolded FindAndStartPhaseTasks_def] f] f by (simp add: adds_foreign unfailing_def)
  then show ?thesis using assms(2) a by (auto simp: Run_def asks Let_def split: if_splits)
qed

lemma registered_started:
  assumes "foreign_adds preparing env" and "adds preparing p p1" and r: "AddLocalAbilityManager env p1 = (True, p2)" and q: "adds unfailing p2 q"
  shows "\<exists>new. trace (run_foreign env E_JoinWorkThread (StartTimedQuery env q)) = trace p @ new \<and> registered_boot env (trace p) new"
proof -
  let ?s = "StartTimedQuery env q"
  obtain evs where evs: "trace p1 = trace p @ evs" "list_all preparing evs" using assms(2) by (auto simp: adds_def)
  obtain bs where bs: "trace ?s = trace p2 @ bs" "list_all unfailing bs"
    using pu.adds_timed_query [OF q, of env] by (auto simp: adds_def)
  obtain cs where cs: "trace (run_foreign env E_JoinWorkThread ?s) = trace (emit E_JoinWorkThread ?s) @ cs" "list_all preparing cs"
    using assms(1) unfolding foreign_adds_def adds_def run_foreign_def by blast
  have t: "trace p2 = trace p1 @ [E_GetSystemAbilityManager, E_AddSystemProcess (procNameM p1)]" "ans_int env (trace p2) = ERR_OK env"
    using registration_cases [OF r] by auto
  have "list_all unfailing cs" using cs(2) by (auto simp: list_all_iff preparing_def unfailing_def)
  then have "registered_boot env (trace p) ((evs @ [E_GetSystemAbilityManager]) @ E_AddSystemProcess (procNameM p1) # (bs @ E_JoinWorkThread # cs))"
    unfolding registered_boot_def using evs bs t
    by (intro exI [of _ "evs @ [E_GetSystemAbilityManager]"] exI [of _ "procNameM p1"] exI [of _ "bs @ E_JoinWorkThread # cs"])
       (simp add: preparing_def unfailing_def)
  then show ?thesis using cs(1) bs(1) t(1) evs(1) by simp
qed

text \<open>A start that returns has failed before the process was registered, or is the outcome of \<open>Run\<close>.\<close>

lemma DoStart_cases:
  assumes f: "foreign_adds preparing env" and d: "DoStartSAProcess env fuel path i p = Some q"
  obtains (early) m s where "adds preparing p s" "q = emit (E_ReportSaMainExit m) s"
  | (run) ret s t where "adds preparing p s" "Run env fuel i s = Some (ret, t)"
      "q = (if ret then run_foreign env E_JoinWorkThread (StartTimedQuery env t) else emit (E_ReportSaMainExit ''SA Run failed'') t)"
proof -
  define p0 where "p0 = (emit E_GetTickCount p)\<lparr>startBeginM := ans_int env (trace p @ [E_GetTickCount])\<rparr>"
  obtain real p1 where p1: "CheckAndGetProfilePath env path p0 = (real, p1)" by force
  obtain b2 p2 where p2: "InitSystemAbilityProfiles env (the real) i p1 = (b2, p2)" by force
  obtain b3 p3 where p3: "CheckSystemAbilityManagerReady env p2 = (b3, p3)" by force
  have "adds preparing p p0" by (simp add: p0_def adds_emit adds_refl preparing_def)
  then have a1: "adds preparing p p1" using bp.adds_path [of p p0 env path] p1 by simp
  then have a2: "adds preparing p p2" using bp.adds_profiles [OF f, of p p1 "the real" i] p2 by simp
  then have a3: "adds preparing p p3" using bp.adds_samgr_ready [OF f, of p p2] p3 by simp
  show thesis
  proof (cases "real \<noteq> None \<and> b2 \<and> b3")
    case True
    then obtain r where r: "Run env fuel i p3 = Some r"
      using d p2 p3 by (auto simp: DoStartSAProcess_def asks p0_def [symmetric] p1 split: option.splits)
    show thesis
      by (rule run [OF a3, of "fst r" "snd r"]) (use d True r p2 p3 in \<open>auto simp: DoStartSAProcess_def asks p0_def [symmetric] p1 case_prod_beta\<close>)
  next
    case False
    then show thesis
      using d p2 p3 early [OF a1] early [OF a2] early [OF a3]
      by (cases real; cases b2) (auto simp: DoStartSAProcess_def asks p0_def [symmetric] p1)
  qed
qed

section \<open>Properties\<close>

text \<open>
  C5. The start of a process is all or nothing. If foreign code starts no ability, registers no process and reports no exit, a start that returns
  has either failed, and then its last interaction is the one report of the reason, no ability was started and no registration of
  the process was accepted; or the process was registered before any ability was started, no exit is reported and the process goes
  on to serve requests.
\<close>

theorem start_all_or_nothing:
  assumes "foreign_adds preparing env" and "DoStartSAProcess env fuel path i p = Some q"
  shows "\<exists>new. trace q = trace p @ new \<and> (failed_boot env (trace p) new \<or> registered_boot env (trace p) new)"
  using assms
proof (cases rule: DoStart_cases)
  case (early m s)
  then show ?thesis using failed_early [OF early(1), where env = env] by blast
next
  case (run ret s t)
  obtain p4 where p4: "AddLocalAbilityManager env s = (ret, p4)" "if ret then adds unfailing p4 t else t = p4"
    using Run_outcome [OF assms(1) run(2)] by blast
  show ?thesis
    using p4 run(3) failed_registration [OF run(1)] registered_started [OF assms(1) run(1)] by (cases ret) force+
qed

lemma launch_env_adds: "foreign_adds preparing launch_env"
proof -
  have "adds preparing p (snd (AddAbility launch_base (Some 0) p))" for p
    by (auto simp: AddAbility_def query_def Let_def adds_def preparing_def split: option.split)
  then show ?thesis by (simp add: foreign_adds_def launch_env_def adds_refl)
qed

theorem start_all_or_nothing_witness:
  "\<exists>q. DoStartSAProcess launch_env 0 ''/a.json'' 7 (LocalAbilityManager (\<lambda>_. SystemAbility 7 False)) = Some q
     \<and> registered_boot launch_env [] (trace q)"
proof -
  let ?p = "LocalAbilityManager (\<lambda>_. SystemAbility 7 False)"
  have p: "waiting 7 0 [] [] ?p" "unregistered 7 ?p" "trace ?p = []"
    by (simp_all add: waiting_def unregistered_def LocalAbilityManager_def SystemAbility_def)
  have i: "7 \<noteq> DEFAULT_SAID" by (simp add: DEFAULT_SAID_def)
  obtain q r where q: "DoStartSAProcess launch_env 0 ''/a.json'' 7 ?p = Some q" "E_OnStart 0 r \<in> set (trace q)"
    using DoStart_starts [OF launch_env_world i p(1,2)] unfolding started_with_def by blast
  have "\<not> failed_boot launch_env [] (trace q)" using q(2) by (fastforce simp: failed_boot_def list_all_iff)
  then show ?thesis using start_all_or_nothing [OF launch_env_adds q(1)] q(1) by (simp add: p(3))
qed

end
