(* ===== verification/Lam_Pool.thy ===== *)
theory Lam_Pool
  imports Lam_Boot "HOL-Library.Multiset"
begin

text \<open>
  The threads of a boot phase. In \<open>Lam_Boot\<close> the tasks of a phase run while the main thread waits for them, one after the other.
  Here the main thread and the workers of the pool interleave: the main thread counts and queues a task under \<open>startPhaseLock_\<close>
  (\<open>StartPhaseTasks\<close>), then waits on the condition variable (\<open>WaitForTasks\<close>); a worker takes a task, runs its body, and counts it
  off under the same lock (the end of \<open>StartSystemAbilityTask\<close>). The critical section of a worker does not block and is one step; that of the
  main thread contains \<open>AddTask\<close>, which blocks while the pool is full.

  The pool belongs to the utility library. Whether \<open>AddTask\<close> blocks is a parameter, a function of the numbers of queued and running tasks;
  what is relied on is that it blocks exactly when a limit of queued tasks is reached. The order in which tasks are taken is arbitrary.
  A spurious wake-up only evaluates the condition again and is left out.
\<close>

section \<open>The state\<close>

datatype main_pc = Queueing "ptr list" | InAddTask nat "ptr list" | Waiting | PhaseOver

datatype worker = Free | Running nat | Finishing nat

record pool_state =
  mainP :: main_pc
  countP :: int
  tasksP :: "nat list"
  workersP :: "worker list"
  notifiedP :: bool
  finishedP :: "nat list"

datatype choice = MainMoves | Timeout | Take nat nat | Body nat | End nat

fun held :: "worker \<Rightarrow> nat list" where
  "held Free = []"
| "held (Running a) = [a]"
| "held (Finishing a) = [a]"

definition in_hand :: "pool_state \<Rightarrow> nat list" where
  "in_hand s = concat (map held (workersP s))"

fun locked :: "main_pc \<Rightarrow> bool" where
  "locked (InAddTask a xs) = True"
| "locked _ = False"

section \<open>The steps\<close>

text \<open>The main thread: one round of \<open>StartPhaseTasks\<close> is two steps, since \<open>AddTask\<close> may block in between.\<close>

fun main_step :: "(nat \<Rightarrow> nat \<Rightarrow> bool) \<Rightarrow> pool_state \<Rightarrow> pool_state option" where
  "main_step blocks s =
     (case mainP s of
        Queueing (Some a # xs) \<Rightarrow> Some (s\<lparr>mainP := InAddTask a xs, countP := countP s + 1\<rparr>)
      | Queueing (None # xs) \<Rightarrow> Some (s\<lparr>mainP := Queueing xs\<rparr>)
      | InAddTask a xs \<Rightarrow>
          if blocks (length (tasksP s)) (length (in_hand s)) then None
          else Some (s\<lparr>mainP := Queueing xs, tasksP := tasksP s @ [a]\<rparr>)
      | Queueing [] \<Rightarrow>
          if countP s = 0 then Some (s\<lparr>mainP := PhaseOver, countP := 0\<rparr>)
          else Some (s\<lparr>mainP := Waiting, notifiedP := False\<rparr>)
      | Waiting \<Rightarrow>
          if \<not> notifiedP s then None
          else if countP s = 0 then Some (s\<lparr>mainP := PhaseOver, countP := 0, notifiedP := False\<rparr>)
          else Some (s\<lparr>notifiedP := False\<rparr>)
      | PhaseOver \<Rightarrow> None)"

definition timeout_step :: "pool_state \<Rightarrow> pool_state option" where
  "timeout_step s = (if mainP s = Waiting then Some (s\<lparr>mainP := PhaseOver, countP := 0, notifiedP := False\<rparr>) else None)"

text \<open>A worker takes the task at position \<open>i\<close>, runs its body, and counts it off, which wakes the main thread if that waits.\<close>

definition take_step :: "nat \<Rightarrow> nat \<Rightarrow> pool_state \<Rightarrow> pool_state option" where
  "take_step w i s =
     (if w < length (workersP s) \<and> workersP s ! w = Free \<and> i < length (tasksP s)
      then Some (s\<lparr>workersP := (workersP s)[w := Running (tasksP s ! i)], tasksP := take i (tasksP s) @ drop (Suc i) (tasksP s)\<rparr>)
      else None)"

definition body_step :: "nat \<Rightarrow> pool_state \<Rightarrow> pool_state option" where
  "body_step w s =
     (if w < length (workersP s)
      then case workersP s ! w of Running a \<Rightarrow> Some (s\<lparr>workersP := (workersP s)[w := Finishing a]\<rparr>) | _ \<Rightarrow> None
      else None)"

definition end_step :: "nat \<Rightarrow> pool_state \<Rightarrow> pool_state option" where
  "end_step w s =
     (if w < length (workersP s) \<and> \<not> locked (mainP s)
      then case workersP s ! w of
             Finishing a \<Rightarrow> Some (s\<lparr>workersP := (workersP s)[w := Free], finishedP := finishedP s @ [a],
                countP := (if countP s > 0 then countP s - 1 else countP s), notifiedP := (mainP s = Waiting)\<rparr>)
           | _ \<Rightarrow> None
      else None)"

fun pool_next :: "(nat \<Rightarrow> nat \<Rightarrow> bool) \<Rightarrow> choice \<Rightarrow> pool_state \<Rightarrow> pool_state option" where
  "pool_next blocks MainMoves s = main_step blocks s"
| "pool_next blocks Timeout s = timeout_step s"
| "pool_next blocks (Take w i) s = take_step w i s"
| "pool_next blocks (Body w) s = body_step w s"
| "pool_next blocks (End w) s = end_step w s"

fun pool_run :: "(nat \<Rightarrow> nat \<Rightarrow> bool) \<Rightarrow> choice list \<Rightarrow> pool_state \<Rightarrow> pool_state option" where
  "pool_run blocks [] s = Some s"
| "pool_run blocks (c # cs) s = Option.bind (pool_next blocks c s) (pool_run blocks cs)"

text \<open>The beginning of a phase, with \<open>threads\<close> workers and nothing left over.\<close>

definition phase_begin :: "nat \<Rightarrow> ptr list \<Rightarrow> pool_state" where
  "phase_begin threads xs = \<lparr>mainP = Queueing xs, countP = 0, tasksP = [], workersP = replicate threads Free, notifiedP = False, finishedP = []\<rparr>"

definition abilities_of :: "ptr list \<Rightarrow> nat list" where
  "abilities_of xs = List.map_filter (\<lambda>x. x) xs"

lemma abilities_of_simps [simp]:
  "abilities_of [] = []" "abilities_of (None # xs) = abilities_of xs" "abilities_of (Some a # xs) = a # abilities_of xs"
  by (simp_all add: abilities_of_def map_filter_simps)

section \<open>The invariant\<close>

fun current :: "main_pc \<Rightarrow> nat list" where
  "current (InAddTask a xs) = [a]"
| "current _ = []"

fun remaining :: "main_pc \<Rightarrow> nat list" where
  "remaining (Queueing xs) = abilities_of xs"
| "remaining (InAddTask a xs) = abilities_of xs"
| "remaining _ = []"

text \<open>
  Every ability is in one place, the count is the number of those that are counted and not yet counted off, and the main thread is not
  asleep when there is nothing to wait for.
\<close>

definition pool_ok :: "nat \<Rightarrow> ptr list \<Rightarrow> pool_state \<Rightarrow> bool" where
  "pool_ok threads xs s \<longleftrightarrow> length (workersP s) = threads
     \<and> mset (abilities_of xs) = mset (finishedP s) + mset (tasksP s) + mset (in_hand s) + mset (current (mainP s)) + mset (remaining (mainP s))
     \<and> countP s = int (length (tasksP s) + length (in_hand s) + length (current (mainP s)))
     \<and> (mainP s = Waiting \<and> \<not> notifiedP s \<longrightarrow> countP s > 0) \<and> (mainP s = PhaseOver \<longrightarrow> countP s = 0)"

lemma in_hand_update:
  assumes "w < length ws"
  shows "mset (concat (map held (ws[w := x]))) + mset (held (ws ! w)) = mset (concat (map held ws)) + mset (held x)"
  using assms by (induction ws arbitrary: w) (auto split: nat.split simp: nth_Cons)

lemma in_hand_step:
  assumes "w < length (workersP s)" and "held (workersP s ! w) = old"
  shows "mset (in_hand (s\<lparr>workersP := (workersP s)[w := x]\<rparr>)) + mset old = mset (in_hand s) + mset (held x)"
  using in_hand_update [OF assms(1), of x] assms(2) by (simp add: in_hand_def)

lemma in_hand_fields [simp]:
  "in_hand (s\<lparr>mainP := m\<rparr>) = in_hand s" "in_hand (s\<lparr>countP := n\<rparr>) = in_hand s" "in_hand (s\<lparr>tasksP := ts\<rparr>) = in_hand s"
  "in_hand (s\<lparr>notifiedP := b\<rparr>) = in_hand s" "in_hand (s\<lparr>finishedP := fs\<rparr>) = in_hand s"
  by (simp_all add: in_hand_def)

lemma mset_pick: "i < length xs \<Longrightarrow> mset xs = add_mset (xs ! i) (mset (take i xs @ drop (Suc i) xs))"
  by (metis add_mset_add_single append_take_drop_id id_take_nth_drop mset.simps(2) mset_append union_mset_add_mset_right)

lemma pool_ok_begin: "pool_ok threads xs (phase_begin threads xs)"
  by (simp add: pool_ok_def phase_begin_def in_hand_def map_replicate_const [symmetric] concat_replicate_trivial)

lemma pool_ok_main: "main_step blocks s = Some s' \<Longrightarrow> pool_ok threads xs s \<Longrightarrow> pool_ok threads xs s'"
  by (auto simp: pool_ok_def split: main_pc.splits list.splits option.splits if_splits)

text \<open>A task that moves from the queue to a worker or stays with its worker.\<close>

lemma pool_ok_move:
  assumes ok: "pool_ok threads xs s" and moved: "mset (tasksP s') + mset (in_hand s') = mset (tasksP s) + mset (in_hand s)"
    and same: "length (workersP s') = length (workersP s)" "mainP s' = mainP s" "finishedP s' = finishedP s" "countP s' = countP s"
      "notifiedP s' = notifiedP s"
  shows "pool_ok threads xs s'"
proof -
  have "length (tasksP s') + length (in_hand s') = length (tasksP s) + length (in_hand s)"
    using arg_cong [OF moved, of size] by simp
  moreover have "mset fs + mset (tasksP s') + mset (in_hand s') = mset fs + mset (tasksP s) + mset (in_hand s)" for fs
    using moved by (simp add: add.assoc)
  ultimately show ?thesis using ok unfolding pool_ok_def same by metis
qed

lemma pool_ok_take:
  assumes "take_step w i s = Some s'" and ok: "pool_ok threads xs s"
  shows "pool_ok threads xs s'"
proof -
  let ?ts = "take i (tasksP s) @ drop (Suc i) (tasksP s)"
  have w: "w < length (workersP s)" "held (workersP s ! w) = []" "i < length (tasksP s)"
    and s': "s' = s\<lparr>workersP := (workersP s)[w := Running (tasksP s ! i)], tasksP := ?ts\<rparr>"
    using assms(1) by (auto simp: take_step_def split: if_splits)
  have h: "mset (in_hand s') = add_mset (tasksP s ! i) (mset (in_hand s))"
    using in_hand_step [OF w(1,2), of "Running (tasksP s ! i)"] by (simp add: s')
  have "mset (tasksP s') + mset (in_hand s') = mset (tasksP s) + mset (in_hand s)"
    unfolding h mset_pick [OF w(3)] by (simp add: s')
  then show ?thesis by (rule pool_ok_move [OF ok]) (simp_all add: s')
qed

lemma pool_ok_body:
  assumes "body_step w s = Some s'" and ok: "pool_ok threads xs s"
  shows "pool_ok threads xs s'"
proof -
  obtain a where w: "w < length (workersP s)" "held (workersP s ! w) = [a]" and s': "s' = s\<lparr>workersP := (workersP s)[w := Finishing a]\<rparr>"
    using assms(1) by (auto simp: body_step_def split: if_splits worker.splits)
  have "mset (in_hand s') = mset (in_hand s)" using in_hand_step [OF w, of "Finishing a"] by (simp add: s')
  then show ?thesis by (intro pool_ok_move [OF ok]) (simp_all add: s')
qed

lemma current_unlocked: "\<not> locked m \<Longrightarrow> current m = []"
  by (cases m) simp_all

lemma pool_ok_end:
  assumes "end_step w s = Some s'" and ok: "pool_ok threads xs s"
  shows "pool_ok threads xs s'"
proof -
  obtain a where w: "w < length (workersP s)" "held (workersP s ! w) = [a]" and free: "current (mainP s) = []"
    and s': "s' = s\<lparr>workersP := (workersP s)[w := Free], finishedP := finishedP s @ [a],
        countP := (if countP s > 0 then countP s - 1 else countP s), notifiedP := (mainP s = Waiting)\<rparr>"
    using assms(1) by (auto simp: end_step_def current_unlocked split: if_splits worker.splits)
  have h: "mset (in_hand s) = add_mset a (mset (in_hand s'))" using in_hand_step [OF w, of Free] by (simp add: s')
  then have l: "length (in_hand s) = Suc (length (in_hand s'))" by (metis size_mset size_add_mset)
  have c: "countP s = int (length (tasksP s) + length (in_hand s))" using ok free by (simp add: pool_ok_def)
  have "mset (abilities_of xs) = mset (finishedP s') + mset (tasksP s') + mset (in_hand s') + mset (current (mainP s')) + mset (remaining (mainP s'))"
    using ok unfolding pool_ok_def h by (simp add: s' free)
  moreover have "countP s' = int (length (tasksP s') + length (in_hand s') + length (current (mainP s')))"
    using c l free by (simp add: s')
  moreover have "mainP s \<noteq> PhaseOver" using ok c l by (auto simp: pool_ok_def)
  ultimately show ?thesis using ok by (simp add: pool_ok_def s')
qed

lemma pool_ok_next:
  assumes "pool_next blocks c s = Some s'" and "pool_ok threads xs s" and "c \<noteq> Timeout"
  shows "pool_ok threads xs s'"
  using assms by (cases c) (auto intro: pool_ok_main pool_ok_take pool_ok_body pool_ok_end simp del: main_step.simps)

text \<open>A time-out ends the phase for the main thread, so that until then the invariant holds in every run.\<close>

lemma phase_over_stays: "pool_next blocks c s = Some s' \<Longrightarrow> mainP s = PhaseOver \<Longrightarrow> mainP s' = PhaseOver"
  by (cases c) (auto simp: timeout_step_def take_step_def body_step_def end_step_def split: if_splits worker.splits)

lemma pool_run_ConsE:
  assumes "pool_run blocks (c # cs) s = Some s'"
  obtains s1 where "pool_next blocks c s = Some s1" "pool_run blocks cs s1 = Some s'"
  using assms by (auto split: bind_splits)

lemma pool_run_ok:
  "pool_run blocks cs s = Some s' \<Longrightarrow> mainP s \<noteq> PhaseOver \<longrightarrow> pool_ok threads xs s \<Longrightarrow> mainP s' \<noteq> PhaseOver \<Longrightarrow> pool_ok threads xs s'"
proof (induction cs arbitrary: s)
  case (Cons c cs)
  from Cons.prems(1) obtain s1 where s1: "pool_next blocks c s = Some s1" "pool_run blocks cs s1 = Some s'" by (rule pool_run_ConsE)
  have "pool_ok threads xs s1" if "mainP s1 \<noteq> PhaseOver"
    using pool_ok_next [OF s1(1)] phase_over_stays [OF s1(1)] s1(1) Cons.prems(2) that
    by (cases "c = Timeout") (auto simp: timeout_step_def split: if_splits)
  then show ?case using Cons.IH [OF s1(2)] Cons.prems(3) by blast
qed simp

lemma pool_run_ok_timely:
  "pool_run blocks cs s = Some s' \<Longrightarrow> Timeout \<notin> set cs \<Longrightarrow> pool_ok threads xs s \<Longrightarrow> pool_ok threads xs s'"
proof (induction cs arbitrary: s)
  case (Cons c cs)
  from Cons.prems(1) obtain s1 where "pool_next blocks c s = Some s1" "pool_run blocks cs s1 = Some s'" by (rule pool_run_ConsE)
  then show ?case using Cons pool_ok_next by fastforce
qed simp

section \<open>Every run is finite\<close>

fun main_work :: "main_pc \<Rightarrow> nat" where
  "main_work (Queueing xs) = 2 + length xs + 5 * length (abilities_of xs)"
| "main_work (InAddTask a xs) = 7 + length xs + 5 * length (abilities_of xs)"
| "main_work Waiting = 1"
| "main_work PhaseOver = 0"

fun worker_work :: "worker \<Rightarrow> nat" where
  "worker_work Free = 0"
| "worker_work (Running a) = 3"
| "worker_work (Finishing a) = 2"

definition work :: "pool_state \<Rightarrow> nat" where
  "work s = main_work (mainP s) + (if notifiedP s then 1 else 0) + 4 * length (tasksP s) + sum_list (map worker_work (workersP s))"

lemma worker_work_update:
  "w < length ws \<Longrightarrow> sum_list (map worker_work (ws[w := x])) + worker_work (ws ! w) = sum_list (map worker_work ws) + worker_work x"
  by (induction ws arbitrary: w) (auto split: nat.split simp: nth_Cons)

lemma work_decreases: "pool_next blocks c s = Some s' \<Longrightarrow> work s' < work s"
proof (cases c)
  case (Take w i)
  assume "pool_next blocks c s = Some s'"
  then show ?thesis using worker_work_update [of w "workersP s" "Running (tasksP s ! i)"]
    by (auto simp: Take take_step_def work_def split: if_splits)
next
  case (Body w)
  assume "pool_next blocks c s = Some s'"
  then obtain a where "w < length (workersP s)" "workersP s ! w = Running a" "s' = s\<lparr>workersP := (workersP s)[w := Finishing a]\<rparr>"
    by (auto simp: Body body_step_def split: if_splits worker.splits)
  then show ?thesis using worker_work_update [of w "workersP s" "Finishing a"] by (simp add: work_def)
next
  case (End w)
  assume "pool_next blocks c s = Some s'"
  then show ?thesis using worker_work_update [of w "workersP s" Free]
    by (auto simp: End end_step_def work_def split: if_splits worker.splits)
qed (auto simp: work_def timeout_step_def split: main_pc.splits list.splits option.splits if_splits)

lemma pool_run_work: "pool_run blocks cs s = Some s' \<Longrightarrow> length cs + work s' \<le> work s"
proof (induction cs arbitrary: s)
  case (Cons c cs)
  from Cons.prems(1) obtain s1 where "pool_next blocks c s = Some s1" "pool_run blocks cs s1 = Some s'" by (rule pool_run_ConsE)
  then show ?case using Cons.IH [of s1] work_decreases [of blocks c s s1] by simp
qed simp

section \<open>A phase that is not too large does not get stuck\<close>

text \<open>What is relied on of the pool: \<open>AddTask\<close> blocks exactly while \<open>cap\<close> tasks are queued.\<close>

definition pool_limit :: "(nat \<Rightarrow> nat \<Rightarrow> bool) \<Rightarrow> nat \<Rightarrow> bool" where
  "pool_limit blocks cap \<longleftrightarrow> (\<forall>queued running. blocks queued running \<longleftrightarrow> cap \<le> queued)"

lemma all_finishing: "(\<And>x. x \<in> set ws \<Longrightarrow> \<exists>a. x = Finishing a) \<Longrightarrow> length (concat (map held ws)) = length ws"
proof (induction ws)
  case (Cons x ws)
  from Cons.prems [of x] obtain a where "x = Finishing a" by auto
  then show ?case using Cons by simp
qed simp

lemma no_worker_moves:
  assumes "\<And>c. c \<noteq> Timeout \<Longrightarrow> pool_next blocks c s = None" and "x \<in> set (workersP s)"
  shows "x = Free \<and> tasksP s = [] \<or> (\<exists>a. x = Finishing a) \<and> locked (mainP s)"
proof -
  obtain w where w: "w < length (workersP s)" "workersP s ! w = x" using assms(2) by (auto simp: in_set_conv_nth)
  show ?thesis
    using assms(1) [of "Take w 0"] assms(1) [of "Body w"] assms(1) [of "End w"] w
    by (cases x) (simp_all add: take_step_def body_step_def end_step_def split: if_splits)
qed

lemma stuck_phase_is_large:
  assumes ok: "pool_ok threads xs s" and main: "mainP s \<noteq> PhaseOver" and lim: "pool_limit blocks cap" "0 < cap" and "0 < threads"
    and stuck: "\<And>c. c \<noteq> Timeout \<Longrightarrow> pool_next blocks c s = None"
  shows "locked (mainP s) \<and> threads + cap < length (abilities_of xs)"
proof -
  have len: "length (workersP s) = threads" and count: "countP s = int (length (tasksP s) + length (in_hand s) + length (current (mainP s)))"
    and all: "mset (abilities_of xs) = mset (finishedP s) + mset (tasksP s) + mset (in_hand s) + mset (current (mainP s)) + mset (remaining (mainP s))"
    using ok by (simp_all add: pool_ok_def)
  have places: "length (abilities_of xs) = length (finishedP s) + length (tasksP s) + length (in_hand s) + length (current (mainP s)) + length (remaining (mainP s))"
    using arg_cong [OF all, of size] by simp
  obtain x where x: "x \<in> set (workersP s)" using len \<open>0 < threads\<close> by (cases "workersP s") auto
  have step: "main_step blocks s = None" using stuck [of MainMoves] by simp
  consider a ys where "mainP s = InAddTask a ys" | "mainP s = Waiting" "\<not> notifiedP s"
    using step main by (auto split: main_pc.splits list.splits option.splits if_splits)
  then show ?thesis
  proof cases
    case 1
    then have "cap \<le> length (tasksP s)" using step lim(1) by (auto simp: pool_limit_def split: if_splits)
    moreover from this have "\<exists>a. x = Finishing a" if "x \<in> set (workersP s)" for x
      using no_worker_moves [OF stuck that] lim(2) by auto
    then have "length (in_hand s) = threads" unfolding in_hand_def using all_finishing len by metis
    ultimately show ?thesis using places 1 by simp
  next
    case 2
    then have free: "y = Free \<and> tasksP s = []" if "y \<in> set (workersP s)" for y using no_worker_moves [OF stuck that] by auto
    then have "in_hand s = []" unfolding in_hand_def by (metis concat_eq_Nil_conv held.simps(1) imageE list.set_map)
    then have "countP s = 0" using count free [OF x] 2 by simp
    then show ?thesis using ok 2 by (simp add: pool_ok_def)
  qed
qed

section \<open>A phase that is too large can get stuck\<close>

lemma pool_run_append: "pool_run blocks (cs @ ds) s = Option.bind (pool_run blocks cs s) (pool_run blocks ds)"
proof (induction cs arbitrary: s)
  case (Cons c cs)
  then show ?case by (cases "pool_next blocks c s") simp_all
qed simp

lemma queue_next_ability:
  "mainP s = Queueing ys \<Longrightarrow> abilities_of ys = a # as \<Longrightarrow>
     \<exists>cs zs. pool_run blocks cs s = Some (s\<lparr>mainP := InAddTask a zs, countP := countP s + 1\<rparr>) \<and> abilities_of zs = as"
proof (induction ys arbitrary: s)
  case (Cons y ys)
  show ?case
  proof (cases y)
    case None
    let ?s = "s\<lparr>mainP := Queueing ys\<rparr>"
    obtain cs zs where "pool_run blocks cs ?s = Some (s\<lparr>mainP := InAddTask a zs, countP := countP s + 1\<rparr>)" "abilities_of zs = as"
      using Cons.IH [of ?s] Cons.prems(2) None by auto
    moreover have "pool_run blocks (MainMoves # cs) s = pool_run blocks cs ?s" using Cons.prems(1) None by simp
    ultimately show ?thesis by metis
  next
    case (Some b)
    then have "pool_run blocks [MainMoves] s = Some (s\<lparr>mainP := InAddTask a ys, countP := countP s + 1\<rparr>)" using Cons.prems by simp
    then show ?thesis using Cons.prems(2) Some by (metis abilities_of_simps(3) list.inject)
  qed
qed simp

text \<open>\<open>n\<close> abilities are not yet counted, \<open>j\<close> are queued, and \<open>k\<close> workers have run a body and not yet counted it off.\<close>

definition filled :: "nat \<Rightarrow> nat \<Rightarrow> nat \<Rightarrow> nat \<Rightarrow> pool_state \<Rightarrow> bool" where
  "filled m k j n s \<longleftrightarrow> (\<exists>ys bs. mainP s = Queueing ys \<and> length (abilities_of ys) = n \<and> length (tasksP s) = j
     \<and> workersP s = map Finishing bs @ replicate m Free \<and> length bs = k)"

lemma fill_queue:
  assumes "filled m k j (Suc n) s" and "pool_limit blocks cap" and "j < cap"
  shows "\<exists>cs s'. pool_run blocks cs s = Some s' \<and> filled m k (Suc j) n s'"
proof -
  obtain ys bs where s: "mainP s = Queueing ys" "length (abilities_of ys) = Suc n" "length (tasksP s) = j"
      "workersP s = map Finishing bs @ replicate m Free" "length bs = k" using assms(1) by (auto simp: filled_def)
  then obtain a as where as: "abilities_of ys = a # as" "length as = n" by (cases "abilities_of ys") auto
  obtain cs zs where cs: "pool_run blocks cs s = Some (s\<lparr>mainP := InAddTask a zs, countP := countP s + 1\<rparr>)" "abilities_of zs = as"
    using queue_next_ability [OF s(1) as(1)] by blast
  have "pool_run blocks (cs @ [MainMoves]) s = Some (s\<lparr>mainP := Queueing zs, countP := countP s + 1, tasksP := tasksP s @ [a]\<rparr>)"
    using cs(1) assms(2,3) s(3) by (simp add: pool_run_append pool_limit_def)
  then show ?thesis using s(3-5) cs(2) as(2) by (intro exI conjI) (auto simp: filled_def)
qed

lemma fill_worker:
  assumes "filled (Suc m) k 0 (Suc n) s" and "pool_limit blocks cap" and "0 < cap"
  shows "\<exists>cs s'. pool_run blocks cs s = Some s' \<and> filled m (Suc k) 0 n s'"
proof -
  obtain cs s1 where s1: "pool_run blocks cs s = Some s1" "filled (Suc m) k (Suc 0) n s1"
    using fill_queue [OF assms] by blast
  then obtain ys bs where f: "mainP s1 = Queueing ys" "length (abilities_of ys) = n" "length (tasksP s1) = Suc 0"
      "workersP s1 = map Finishing bs @ Free # replicate m Free" "length bs = k" by (auto simp: filled_def)
  then obtain a where a: "tasksP s1 = [a]" by (cases "tasksP s1") auto
  let ?ws = "\<lambda>x. map Finishing bs @ x # replicate m Free"
  have t: "take_step k 0 s1 = Some (s1\<lparr>workersP := ?ws (Running a), tasksP := []\<rparr>)"
    using f(4,5) a by (simp add: take_step_def nth_append list_update_append)
  have b: "body_step k (s1\<lparr>workersP := ?ws (Running a), tasksP := []\<rparr>) = Some (s1\<lparr>workersP := ?ws (Finishing a), tasksP := []\<rparr>)"
    using f(5) by (simp add: body_step_def nth_append list_update_append)
  have "pool_run blocks (cs @ [Take k 0, Body k]) s = Some (s1\<lparr>workersP := ?ws (Finishing a), tasksP := []\<rparr>)"
    using s1(1) t b by (simp add: pool_run_append)
  moreover have "filled m (Suc k) 0 n (s1\<lparr>workersP := ?ws (Finishing a), tasksP := []\<rparr>)"
    using f(1,2,5) by (auto simp: filled_def intro!: exI [of _ "bs @ [a]"])
  ultimately show ?thesis by blast
qed

lemma fill_workers:
  assumes "pool_limit blocks cap" and "0 < cap"
  shows "filled m k 0 (m + n) s \<Longrightarrow> \<exists>cs s'. pool_run blocks cs s = Some s' \<and> filled 0 (k + m) 0 n s'"
proof (induction m arbitrary: k s)
  case 0
  then show ?case by (intro exI [of _ "[]"]) simp
next
  case (Suc m)
  then obtain cs s1 where "pool_run blocks cs s = Some s1" "filled m (Suc k) 0 (m + n) s1"
    using fill_worker [OF _ assms, of m k "m + n" s] by auto
  moreover then obtain ds s2 where "pool_run blocks ds s1 = Some s2" "filled 0 (Suc k + m) 0 n s2" using Suc.IH by blast
  ultimately show ?case by (intro exI [of _ "cs @ ds"] exI [of _ s2]) (simp add: pool_run_append)
qed

lemma fill_queue_up:
  assumes "pool_limit blocks cap"
  shows "filled m k j (i + n) s \<Longrightarrow> j + i \<le> cap \<Longrightarrow> \<exists>cs s'. pool_run blocks cs s = Some s' \<and> filled m k (j + i) n s'"
proof (induction i arbitrary: j s)
  case 0
  then show ?case by (intro exI [of _ "[]"]) simp
next
  case (Suc i)
  then obtain cs s1 where "pool_run blocks cs s = Some s1" "filled m k (Suc j) (i + n) s1"
    using fill_queue [OF _ assms, of m k j "i + n" s] by auto
  moreover then obtain ds s2 where "pool_run blocks ds s1 = Some s2" "filled m k (Suc j + i) n s2" using Suc.IH Suc.prems(2) by fastforce
  ultimately show ?case by (intro exI [of _ "cs @ ds"] exI [of _ s2]) (simp add: pool_run_append)
qed

lemma abilities_of_length: "length (abilities_of xs) \<le> length xs"
  by (simp add: abilities_of_def map_filter_def)

lemma work_begin: "work (phase_begin threads xs) \<le> 6 * length xs + 2"
  using abilities_of_length [of xs] by (simp add: work_def phase_begin_def sum_list_replicate)

lemma large_phase_gets_stuck:
  assumes lim: "pool_limit blocks cap" "0 < cap" and n: "length (abilities_of xs) = threads + (cap + Suc n)"
  shows "\<exists>cs s. pool_run blocks cs (phase_begin threads xs) = Some s \<and> locked (mainP s) \<and> (\<forall>c. pool_next blocks c s = None)"
proof -
  have "filled threads 0 0 (threads + (cap + Suc n)) (phase_begin threads xs)" using n by (simp add: filled_def phase_begin_def)
  from fill_workers [OF lim this] obtain cs1 s1 where s1: "pool_run blocks cs1 (phase_begin threads xs) = Some s1" "filled 0 threads 0 (cap + Suc n) s1"
    by auto
  from fill_queue_up [OF lim(1) s1(2)] obtain cs2 s2 where s2: "pool_run blocks cs2 s1 = Some s2" "filled 0 threads cap (Suc n) s2" by auto
  then obtain ys bs where f: "mainP s2 = Queueing ys" "length (abilities_of ys) = Suc n" "length (tasksP s2) = cap" "workersP s2 = map Finishing bs"
    by (auto simp: filled_def)
  then obtain a as where as: "abilities_of ys = a # as" by (cases "abilities_of ys") auto
  obtain cs3 zs where s3: "pool_run blocks cs3 s2 = Some (s2\<lparr>mainP := InAddTask a zs, countP := countP s2 + 1\<rparr>)"
    using queue_next_ability [OF f(1) as] by blast
  let ?s = "s2\<lparr>mainP := InAddTask a zs, countP := countP s2 + 1\<rparr>"
  have "pool_next blocks c ?s = None" for c
    using f(3,4) lim(1)
    by (cases c) (auto simp: timeout_step_def take_step_def body_step_def end_step_def pool_limit_def split: worker.split)
  moreover have "pool_run blocks (cs1 @ cs2 @ cs3) (phase_begin threads xs) = Some ?s" using s1(1) s2(1) s3 by (simp add: pool_run_append)
  ultimately show ?thesis by (intro exI [of _ "cs1 @ cs2 @ cs3"] exI [of _ ?s]) simp
qed

section \<open>The sequential model\<close>

text \<open>
  If the queue holds all tasks of a phase, the main thread can queue them before any worker moves; count and queue are then those of
  \<open>StartPhaseTasks\<close>, from which the tasks of the sequential model run.
\<close>

lemma queue_all:
  assumes lim: "pool_limit blocks cap"
  shows "mainP s = Queueing ys \<Longrightarrow> length (tasksP s) + length (abilities_of ys) \<le> cap \<Longrightarrow> \<exists>cs. pool_run blocks cs s =
     Some (s\<lparr>mainP := Queueing [], countP := countP s + int (length (abilities_of ys)), tasksP := tasksP s @ abilities_of ys\<rparr>)"
proof (induction ys arbitrary: s)
  case Nil
  then have "s\<lparr>mainP := Queueing []\<rparr> = s" by (metis pool_state.surjective pool_state.update_convs(1) pool_state.select_convs(1))
  then show ?case by (intro exI [of _ "[]"]) simp
next
  case (Cons y ys)
  show ?case
  proof (cases y)
    case None
    obtain cs where "pool_run blocks cs (s\<lparr>mainP := Queueing ys\<rparr>) = Some (s\<lparr>mainP := Queueing [],
        countP := countP s + int (length (abilities_of ys)), tasksP := tasksP s @ abilities_of ys\<rparr>)"
      using Cons.IH [of "s\<lparr>mainP := Queueing ys\<rparr>"] Cons.prems(2) None by auto
    then show ?thesis using Cons.prems(1) None by (intro exI [of _ "MainMoves # cs"]) simp
  next
    case (Some a)
    let ?s = "s\<lparr>countP := countP s + 1, mainP := Queueing ys, tasksP := tasksP s @ [a]\<rparr>"
    obtain cs where "pool_run blocks cs ?s = Some (s\<lparr>mainP := Queueing [],
        countP := countP s + 1 + int (length (abilities_of ys)), tasksP := tasksP s @ a # abilities_of ys\<rparr>)"
      using Cons.IH [of ?s] Cons.prems(2) Some by auto
    moreover have "\<not> blocks (length (tasksP s)) b" for b using lim Cons.prems(2) Some by (simp add: pool_limit_def)
    then have "pool_run blocks (MainMoves # MainMoves # cs) s = pool_run blocks cs ?s" using Cons.prems(1) Some by simp
    ultimately show ?thesis using Some by (metis abilities_of_simps(3) add.assoc length_Cons of_nat_Suc)
  qed
qed

lemma queues_like_StartPhaseTasks:
  assumes "pool_limit blocks cap" and "length (abilities_of xs) \<le> cap" and p: "startTaskNumM p = 0" "initPoolM p = []"
  shows "\<exists>cs. pool_run blocks cs (phase_begin threads xs) = Some ((phase_begin threads xs)
     \<lparr>mainP := Queueing [], countP := startTaskNumM (StartPhaseTasks xs p), tasksP := initPoolM (StartPhaseTasks xs p)\<rparr>)"
proof -
  have "abilities_of xs = map the (filter (\<lambda>x. x \<noteq> None) xs)" by (simp add: abilities_of_def map_filter_def)
  then have "startTaskNumM (StartPhaseTasks xs p) = int (length (abilities_of xs))" "initPoolM (StartPhaseTasks xs p) = abilities_of xs"
    using StartPhaseTasks_count [of xs p] p by simp_all
  then show ?thesis using queue_all [OF assms(1), of "phase_begin threads xs" xs] assms(2) by (simp add: phase_begin_def)
qed

section \<open>Properties\<close>

text \<open>
  C6. When a boot phase can hang. \<open>AddTask\<close> is called with \<open>startPhaseLock_\<close> held and blocks while \<open>MAX_TASK_NUMBER\<close> tasks are queued, and a worker needs
  the same lock to count its task off before it can take another one. So some interleaving of the main thread and the workers ends
  in a state in which none of them can ever move, and in which not even the time limit of the wait applies, exactly if the phase has more
  abilities than workers and queue together can hold.
\<close>

theorem phase_stuck_iff:
  assumes "pool_limit blocks (nat MAX_TASK_NUMBER)" and "0 < threads"
  shows "(\<exists>cs s. pool_run blocks cs (phase_begin threads xs) = Some s \<and> mainP s \<noteq> PhaseOver \<and> (\<forall>c. pool_next blocks c s = None))
     \<longleftrightarrow> threads + nat MAX_TASK_NUMBER < length (abilities_of xs)"
proof
  have cap: "0 < nat MAX_TASK_NUMBER" by (simp add: MAX_TASK_NUMBER_def)
  {
    assume "\<exists>cs s. pool_run blocks cs (phase_begin threads xs) = Some s \<and> mainP s \<noteq> PhaseOver \<and> (\<forall>c. pool_next blocks c s = None)"
    then obtain cs s where s: "pool_run blocks cs (phase_begin threads xs) = Some s" "mainP s \<noteq> PhaseOver" "\<And>c. pool_next blocks c s = None"
      by blast
    have "pool_ok threads xs s" using pool_run_ok [OF s(1) _ s(2)] pool_ok_begin by blast
    then show "threads + nat MAX_TASK_NUMBER < length (abilities_of xs)" using stuck_phase_is_large [OF _ s(2) assms(1) cap assms(2) s(3)] by blast
  next
    assume "threads + nat MAX_TASK_NUMBER < length (abilities_of xs)"
    then have "length (abilities_of xs) = threads + (nat MAX_TASK_NUMBER + Suc (length (abilities_of xs) - threads - nat MAX_TASK_NUMBER - 1))" by simp
    from large_phase_gets_stuck [OF assms(1) cap this]
    show "\<exists>cs s. pool_run blocks cs (phase_begin threads xs) = Some s \<and> mainP s \<noteq> PhaseOver \<and> (\<forall>c. pool_next blocks c s = None)"
      using locked.simps(4) by fastforce
  }
qed

text \<open>A pool that takes up to twenty tasks.\<close>

definition twenty :: "nat \<Rightarrow> nat \<Rightarrow> bool" where
  "twenty queued running \<longleftrightarrow> 20 \<le> queued"

lemma twenty_limit: "pool_limit twenty (nat MAX_TASK_NUMBER)"
  by (simp add: pool_limit_def twenty_def MAX_TASK_NUMBER_def)

theorem phase_stuck_iff_witness:
  "\<exists>cs s. pool_run twenty cs (phase_begin 4 (map Some [0..<25])) = Some s \<and> mainP s \<noteq> PhaseOver \<and> (\<forall>c. pool_next twenty c s = None)"
proof -
  have "abilities_of (map Some as) = as" for as by (induction as) simp_all
  then show ?thesis using phase_stuck_iff [OF twenty_limit, of 4 "map Some [0..<25]"] by (simp add: MAX_TASK_NUMBER_def)
qed

text \<open>
  C7. Otherwise the phase completes, however the threads interleave: without a time-out every run has a bounded number of steps, some
  thread can move until the main thread has gone on, in particular no wake-up is lost, and when it goes on every ability of the phase has been
  handled exactly once and no task of the phase is left.
\<close>

theorem phase_completes:
  assumes "pool_limit blocks (nat MAX_TASK_NUMBER)" and "0 < threads" and "length (abilities_of xs) \<le> threads + nat MAX_TASK_NUMBER"
    and "pool_run blocks cs (phase_begin threads xs) = Some s" and "Timeout \<notin> set cs"
  shows "length cs \<le> 6 * length xs + 2
     \<and> (if mainP s = PhaseOver then mset (finishedP s) = mset (abilities_of xs) \<and> tasksP s = [] \<and> in_hand s = []
        else \<exists>c. c \<noteq> Timeout \<and> pool_next blocks c s \<noteq> None)"
proof -
  have ok: "pool_ok threads xs s" by (rule pool_run_ok_timely [OF assms(4,5) pool_ok_begin])
  have "length cs \<le> 6 * length xs + 2" using pool_run_work [OF assms(4)] work_begin [of threads xs] by simp
  moreover have "\<exists>c. c \<noteq> Timeout \<and> pool_next blocks c s \<noteq> None" if "mainP s \<noteq> PhaseOver"
  proof (rule ccontr)
    assume "\<not> ?thesis"
    then have "threads + nat MAX_TASK_NUMBER < length (abilities_of xs)"
      using stuck_phase_is_large [OF ok that assms(1) _ assms(2)] by (fastforce simp: MAX_TASK_NUMBER_def)
    then show False using assms(3) by simp
  qed
  moreover have "mset (finishedP s) = mset (abilities_of xs) \<and> tasksP s = [] \<and> in_hand s = []" if "mainP s = PhaseOver"
  proof -
    have "int (length (tasksP s) + length (in_hand s)) = 0" using ok that unfolding pool_ok_def by (metis add.right_neutral current.simps(4) list.size(3))
    then have "tasksP s = []" "in_hand s = []" unfolding of_nat_eq_0_iff by auto
    then show ?thesis using ok that by (simp add: pool_ok_def)
  qed
  ultimately show ?thesis by simp
qed

theorem phase_completes_witness:
  "\<exists>s. pool_run twenty [MainMoves, MainMoves, Take 0 0, MainMoves, MainMoves, MainMoves, Body 0, Take 1 0, End 0, Body 1, MainMoves, End 1, MainMoves] (phase_begin 2 [Some 4, Some 5]) = Some s
     \<and> mset (finishedP s) = {#4, 5#} \<and> tasksP s = []"
proof -
  let ?cs = "[MainMoves, MainMoves, Take 0 0, MainMoves, MainMoves, MainMoves, Body 0, Take 1 0, End 0, Body 1, MainMoves, End 1, MainMoves]"
  let ?s = "\<lparr>mainP = PhaseOver, countP = 0, tasksP = [], workersP = [Free, Free], notifiedP = False, finishedP = [4, 5]\<rparr>"
  have r: "pool_run twenty ?cs (phase_begin 2 [Some 4, Some 5]) = Some ?s" by code_simp
  show ?thesis using phase_completes [OF twenty_limit _ _ r] r by (auto simp: MAX_TASK_NUMBER_def)
qed

end
