(* ===== verification/Lam_Requests.thy ===== *)
theory Lam_Requests
  imports Lam_Stub
begin

text \<open>
  Remote requests from end to end: what start and stop requests that arrive at the stub do to an ability once the threads that
  they detach run. The requests are parcels read in the order they were written, from callers that hold the permission to manage
  abilities.
\<close>

section \<open>Pending start requests\<close>

text \<open>The state after start requests for one ability, each of which was checked for permission first.\<close>

definition start_all :: "env \<Rightarrow> int \<Rightarrow> string list \<Rightarrow> proc \<Rightarrow> proc" where
  "start_all env i = fold (\<lambda>s p. snd (StartAbility env i s (emit (E_VerifyAccessToken PERMISSION_MANAGE) p)))"

lemma start_all_fields:
  fixes env i ss p
  defines "q \<equiv> start_all env i ss p"
  shows "heap q = heap p" "trace q = trace p @ replicate (length ss) (E_VerifyAccessToken PERMISSION_MANAGE)"
    "localAbilityMapM q = localAbilityMapM p"
    "detached q = detached p @ replicate (length ss) (StartTask i)"
    "ss \<noteq> [] \<Longrightarrow> smap_find (saIdToStartReasonM q) i = Some (StringToJsonObj env (last ss))"
  unfolding q_def start_all_def
  by (induction ss rule: rev_induct) (simp_all add: StartAbility_def SetStartReason_def Let_def replicate_append_same)

lemma thread_of_requests:
  "j < length ss \<Longrightarrow> detached q = ts @ replicate (length ss) (StartTask i) \<Longrightarrow>
     run_detached env (length ts + j) q =
       StartOndemandSystemAbility env i (q\<lparr>detached := ts @ replicate (length ss - 1) (StartTask i)\<rparr>)"
  by (simp add: run_detached_def nth_append Suc_diff_le min_def flip: replicate_add)

text \<open>The first of the threads to run starts the ability with the reason of the last request.\<close>

lemma start_all_thread:
  assumes reg: "GetAbility i p = Some a" "registry_ok p" and st: "abilityStateM (heap p a) = NOT_LOADED"
    and lib: "\<And>h. ans_bool env (h @ [E_LoadSaLib i])" "\<And>h q. interfere env (h @ [E_LoadSaLib i]) q = q"
    and j: "j < length ss"
  shows "\<exists>r q n. run_detached env (length (detached p) + j) (start_all env i ss p) =
        upd_sa a (\<lambda>sa. sa\<lparr>isRunningM := True\<rparr>) (run_foreign env (E_OnStart a r) q)
     \<and> heap q = heap p
     \<and> r\<lparr>extraDataM := OnDemandReasonExtraData_default\<rparr> = JsonToOnDemandReason n (StringToJsonObj env (last ss))"
proof -
  let ?q = "start_all env i ss p"
  let ?q1 = "emit (E_LoadSaLib i) (?q\<lparr>detached := detached p @ replicate (length ss - 1) (StartTask i)\<rparr>)"
  note fq = start_all_fields [where env = env and i = i and ss = ss and p = p]
  have "ss \<noteq> []" using j by auto
  have found: "smap_find (localAbilityMapM p) i = Some (Some a)"
    using reg by (auto simp: GetAbility_def split: option.splits)
  have l: "ans_bool env (h @ vs @ [E_LoadSaLib i])" "interfere env (h @ vs @ [E_LoadSaLib i]) s = s" for h vs s
    using lib [of "h @ vs"] by simp_all
  have "run_detached env (length (detached p) + j) ?q = Start env a ?q1"
    using found
    by (simp add: thread_of_requests [OF j fq(4)] StartOndemandSystemAbility_def call_def ask_def run_foreign_def
        fq l RETRY_TIMES_FOR_ONDEMAND_def numeral_eq_Suc OnStartAbility_def GetAbility_def)
  moreover have "saIdM (heap ?q1 a) = i" "abilityStateM (heap ?q1 a) = NOT_LOADED"
    using registry_GetAbility [OF reg(2,1)] st by (simp_all add: fq)
  moreover have "smap_find (saIdToStartReasonM ?q1) i = Some (StringToJsonObj env (last ss))"
    using \<open>ss \<noteq> []\<close> by (simp add: fq)
  ultimately show ?thesis
    using Start_outcome [where env = env and p = ?q1 and a = a] by (auto simp: fq)
qed

text \<open>The parcel of a request.\<close>

definition carries :: "stub_consts \<Rightarrow> ('p \<Rightarrow> parcel_word list) \<Rightarrow> 'p \<Rightarrow> request \<Rightarrow> bool" where
  "carries C view d r \<longleftrightarrow> view d = W_Token (LOCAL_ABILITY_MANAGER_INTERFACE_TOKEN C) # request_words r"

lemma requests_start_all:
  assumes "distinct_codes C" and "parcel_reads P view" and "CheckInputSysAbilityId env i"
    and "\<And>h. ans_int env (h @ [E_VerifyAccessToken PERMISSION_MANAGE]) = PERMISSION_GRANTED env"
  shows "list_all2 (\<lambda>d s. carries C view d (ReqStart i s) \<and> s \<noteq> []) ds ss \<Longrightarrow>
     fold (\<lambda>d p. snd (snd (OnRemoteRequest env C P (START_ABILITY_TRANSACTION C) d reply p))) ds p = start_all env i ss p"
proof (induction arbitrary: p rule: list_all2_induct)
  case (Cons d ds s ss)
  have "request_ok env (ReqStart i s)" using Cons assms(3) by simp
  from OnRemoteRequest_serves [OF assms(1,2) this, of d p reply] Cons assms(4)
  show ?case by (auto simp: carries_def start_all_def PERMISSION_MANAGE_def)
qed (simp add: start_all_def)

section \<open>Properties\<close>

text \<open>
  C22. The reason of a remote start request reaches the ability. After start requests for one registered and unloaded ability whose library is
  already loaded, each with an event string, the first of the threads they detached to run, whichever it is, calls \<open>OnStart\<close> of the ability
  with the reason that the event string of the last request denotes, up to the extra data fetched for it: the reasons of earlier
  pending requests are lost.
\<close>

theorem remote_start_reason:
  assumes "distinct_codes C" and "parcel_reads P view" and "CheckInputSysAbilityId env i"
    and "\<And>h. ans_int env (h @ [E_VerifyAccessToken PERMISSION_MANAGE]) = PERMISSION_GRANTED env"
    and "list_all2 (\<lambda>d s. carries C view d (ReqStart i s) \<and> s \<noteq> []) ds ss"
    and "GetAbility i p = Some a" and "registry_ok p" and "abilityStateM (heap p a) = NOT_LOADED"
    and "\<And>h. ans_bool env (h @ [E_LoadSaLib i])" and "\<And>h q. interfere env (h @ [E_LoadSaLib i]) q = q"
    and "j < length ss"
  shows "\<exists>r q n. run_detached env (length (detached p) + j)
        (fold (\<lambda>d p. snd (snd (OnRemoteRequest env C P (START_ABILITY_TRANSACTION C) d reply p))) ds p) =
        upd_sa a (\<lambda>sa. sa\<lparr>isRunningM := True\<rparr>) (run_foreign env (E_OnStart a r) q)
     \<and> heap q = heap p
     \<and> r\<lparr>extraDataM := OnDemandReasonExtraData_default\<rparr> = JsonToOnDemandReason n (StringToJsonObj env (last ss))"
  unfolding requests_start_all [OF assms(1-5)] by (rule start_all_thread [OF assms(6-11)])

theorem remote_start_reason_witness:
  "\<exists>r q n. run_detached quiet_env 1 (fold (\<lambda>d p. snd (snd (OnRemoteRequest quiet_env demo_consts list_parcel_ops
          (START_ABILITY_TRANSACTION demo_consts) d [] p))) [[W_Token [76], W_Int 7, W_Str ''a''], [W_Token [76], W_Int 7, W_Str ''b'']]
        ((LocalAbilityManager (\<lambda>_. SystemAbility 7 False))\<lparr>localAbilityMapM := [(7, Some 0)]\<rparr>)) =
      upd_sa 0 (\<lambda>sa. sa\<lparr>isRunningM := True\<rparr>) (run_foreign quiet_env (E_OnStart 0 r) q)
    \<and> r\<lparr>extraDataM := OnDemandReasonExtraData_default\<rparr> = JsonToOnDemandReason n (StringToJsonObj quiet_env ''b'')"
proof -
  let ?p = "(LocalAbilityManager (\<lambda>_. SystemAbility 7 False))\<lparr>localAbilityMapM := [(7, Some 0)]\<rparr>"
  have 1: "GetAbility 7 ?p = Some 0" "abilityStateM (heap ?p 0) = NOT_LOADED" "detached ?p = []"
    by (simp_all add: GetAbility_def smap_find_def LocalAbilityManager_def SystemAbility_def)
  have 2: "registry_ok ?p"
    by (simp add: registry_ok_def smap_ok_def smap_find_def LocalAbilityManager_def SystemAbility_def timeout_ok_def
        MIN_DEPENDENCY_TIMEOUT_def MAX_DEPENDENCY_TIMEOUT_def DEFAULT_DEPENDENCY_TIMEOUT_def)
  have 3: "list_all2 (\<lambda>d s. carries demo_consts (\<lambda>ws. ws) d (ReqStart 7 s) \<and> s \<noteq> [])
      [[W_Token [76], W_Int 7, W_Str ''a''], [W_Token [76], W_Int 7, W_Str ''b'']] [''a'', ''b'']"
    by (simp add: carries_def demo_consts_def)
  show ?thesis
    using remote_start_reason [OF demo_codes_distinct list_parcel_reads _ _ 3 1(1) 2 1(2), of quiet_env 1 "[]"] 1(3)
    by (auto simp: quiet_env_def CheckInputSysAbilityId_def)
qed

text \<open>
  C23. A remote stop request stops the ability: it returns at once with success and leaves the work to one new thread. When that thread has run, a
  loaded ability has been told \<open>OnStop\<close> with the reason that the event string denotes, is unloaded and not running, and has been
  removed from the system ability manager if that is reachable; for an identifier that is not registered, or an ability that is not loaded, the thread does nothing.
\<close>

theorem remote_stop_unloads:
  assumes "distinct_codes C" and "parcel_reads P view" and "carries C view d (ReqStop i s)" and "s \<noteq> []"
    and "CheckInputSysAbilityId env i" and "registry_ok p"
    and "ans_int env (trace p @ [E_VerifyAccessToken PERMISSION_MANAGE]) = PERMISSION_GRANTED env"
  shows "\<exists>reply' p1 p2. OnRemoteRequest env C P (STOP_ABILITY_TRANSACTION C) d reply p = (ERR_NONE env, reply', p1)
     \<and> heap p1 = heap p \<and> detached p1 = detached p @ [StopTask i]
     \<and> run_detached env (length (detached p)) p1 = p2
     \<and> (case GetAbility i p of
          None \<Rightarrow> p2 = p1\<lparr>detached := detached p\<rparr>
        | Some a \<Rightarrow>
            abilityStateM (heap p2 a) = NOT_LOADED
            \<and> (if abilityStateM (heap p a) = NOT_LOADED then p2 = p1\<lparr>detached := detached p\<rparr>
               else \<exists>r q n. p2 = after_OnStop env a (run_foreign env (E_OnStop a r) q) \<and> heap q = heap p
                 \<and> r\<lparr>extraDataM := OnDemandReasonExtraData_default\<rparr> = JsonToOnDemandReason n (StringToJsonObj env s)))"
proof -
  let ?p1 = "snd (StopAbility env i s (emit (E_VerifyAccessToken PERMISSION_MANAGE) p))"
  let ?p2 = "?p1\<lparr>detached := detached p\<rparr>"
  have ok: "request_ok env (ReqStop i s)" using assms(4,5) by simp
  obtain reply' where req: "OnRemoteRequest env C P (STOP_ABILITY_TRANSACTION C) d reply p = (ERR_NONE env, reply', ?p1)"
    using OnRemoteRequest_serves [OF assms(1,2) ok, of d p reply] assms(3,7) by (auto simp: carries_def PERMISSION_MANAGE_def)
  have p1: "heap ?p1 = heap p" "detached ?p1 = detached p @ [StopTask i]" "localAbilityMapM ?p1 = localAbilityMapM p"
      "smap_find (saIdToStopReasonM ?p1) i = Some (StringToJsonObj env s)"
    by (simp_all add: StopAbility_def SetStopReason_def Let_def)
  have run: "run_detached env (length (detached p)) ?p1 = StopOndemandSystemAbility env i ?p2"
    by (simp add: run_detached_def p1(2))
  have get: "GetAbility i ?p2 = GetAbility i p" by (simp add: GetAbility_def p1(3))
  have "\<exists>r q n. Stop env a ?p2 = after_OnStop env a (run_foreign env (E_OnStop a r) q) \<and> heap q = heap p
      \<and> r\<lparr>extraDataM := OnDemandReasonExtraData_default\<rparr> = JsonToOnDemandReason n (StringToJsonObj env s)"
    if "GetAbility i p = Some a" "abilityStateM (heap p a) \<noteq> NOT_LOADED" for a
    using Stop_outcome [of ?p2 a env] registry_GetAbility [OF assms(6) that(1)] that(2) p1 by auto
  then have "case GetAbility i p of
          None \<Rightarrow> StopOndemandSystemAbility env i ?p2 = ?p2
        | Some a \<Rightarrow>
            abilityStateM (heap (StopOndemandSystemAbility env i ?p2) a) = NOT_LOADED
            \<and> (if abilityStateM (heap p a) = NOT_LOADED then StopOndemandSystemAbility env i ?p2 = ?p2
               else \<exists>r q n. StopOndemandSystemAbility env i ?p2 = after_OnStop env a (run_foreign env (E_OnStop a r) q) \<and> heap q = heap p
                 \<and> r\<lparr>extraDataM := OnDemandReasonExtraData_default\<rparr> = JsonToOnDemandReason n (StringToJsonObj env s))"
    using get p1(1) by (auto simp: StopOndemandSystemAbility_def OnStopAbility_def Stop_state Stop_guard split: option.split)
  then show ?thesis using req p1(1,2) run by (intro exI [of _ reply'] exI [of _ ?p1] exI [of _ "StopOndemandSystemAbility env i ?p2"]) simp
qed

theorem remote_stop_unloads_witness:
  "abilityStateM (heap (run_detached quiet_env 0 (snd (snd (OnRemoteRequest quiet_env demo_consts list_parcel_ops
      (STOP_ABILITY_TRANSACTION demo_consts) [W_Token [76], W_Int 7, W_Str ''e''] []
      ((LocalAbilityManager (\<lambda>_. (SystemAbility 7 False)\<lparr>abilityStateM := ACTIVE\<rparr>))\<lparr>localAbilityMapM := [(7, Some 0)]\<rparr>))))) 0)
   = NOT_LOADED"
proof -
  let ?p = "(LocalAbilityManager (\<lambda>_. (SystemAbility 7 False)\<lparr>abilityStateM := ACTIVE\<rparr>))\<lparr>localAbilityMapM := [(7, Some 0)]\<rparr>"
  have 1: "GetAbility 7 ?p = Some 0" "detached ?p = []"
    by (simp_all add: GetAbility_def smap_find_def LocalAbilityManager_def)
  have 2: "registry_ok ?p"
    by (simp add: registry_ok_def smap_ok_def smap_find_def LocalAbilityManager_def SystemAbility_def timeout_ok_def
        MIN_DEPENDENCY_TIMEOUT_def MAX_DEPENDENCY_TIMEOUT_def DEFAULT_DEPENDENCY_TIMEOUT_def)
  have 3: "carries demo_consts (\<lambda>ws. ws) [W_Token [76], W_Int 7, W_Str ''e''] (ReqStop 7 ''e'')"
    by (simp add: carries_def demo_consts_def)
  have 4: "CheckInputSysAbilityId quiet_env 7" "ans_int quiet_env h = PERMISSION_GRANTED quiet_env" for h
    by (simp_all add: CheckInputSysAbilityId_def quiet_env_def)
  show ?thesis
    using remote_stop_unloads [OF demo_codes_distinct list_parcel_reads 3 _ 4(1) 2 4(2), of "[]"] 1 by auto
qed

end
