(* ===== verification/Rust_Wrapper.thy ===== *)
theory Rust_Wrapper
  imports Lam_Abilities
begin

text \<open>
  The C++ side of the Rust bindings (\<open>interfaces/innerkits/safwk/rust/src/cxx/system_ability_wrapper.cpp\<close>): the conversion of reasons
  and extra data between the two languages, and the class \<open>SystemAbilityWrapper\<close>, which forwards the callbacks of an
  ability to Rust.

  A Rust string is the list of its bytes, all of it, while the C++ side passes strings as pointers to characters up to the next NUL. Making
  a Rust string throws when the bytes are not UTF-8. The check, the conversion from UTF-16, and the reading and writing of parcelable
  objects belong to other libraries and are arguments. The bytes behind the buffer of a Rust string are
  not part of it: \<open>behind\<close> gives, for the \<open>i\<close>-th string of the list, what can be read there.
\<close>

section \<open>Strings\<close>

definition NUL :: char where
  "NUL = CHR 0x00"

text \<open>A C++ string converted through \<open>data()\<close>, which ends in a NUL.\<close>

definition c_string :: "string \<Rightarrow> string" where
  "c_string s = takeWhile (\<lambda>c. c \<noteq> NUL) s"

definition rust_string :: "(string \<Rightarrow> bool) \<Rightarrow> string \<Rightarrow> ub + string" where
  "rust_string utf8 s = (if utf8 s then Inr s else Inl UncaughtException)"

text \<open>
  A Rust string used through \<open>data()\<close>, for which the \<open>cxx\<close> library documents that there is no NUL at its end, where a \<open>std::string\<close>
  is made of the pointer: the language reads characters up to the first NUL, so on into the memory behind the string, and if no
  NUL can be read there the behaviour is undefined.
\<close>

definition raw_string :: "string \<Rightarrow> string \<Rightarrow> ub + string" where
  "raw_string s tail = (if NUL \<in> set (s @ tail) then Inr (c_string (s @ tail)) else Inl BadIterator)"

section \<open>Reasons\<close>

record rust_extra_data =
  r_data :: string
  r_code :: int
  r_want :: "string list"

record rust_reason =
  r_name :: string
  r_value :: string
  r_reason_id :: int
  r_extra_data :: rust_extra_data
  r_extra_data_id :: int

fun push_want :: "(string \<Rightarrow> bool) \<Rightarrow> (string, string) smap \<Rightarrow> string list \<Rightarrow> ub + string list" where
  "push_want utf8 [] want = Inr want"
| "push_want utf8 ((k, v) # rest) want =
     ub_bind (rust_string utf8 (c_string k)) (\<lambda>k'. ub_bind (rust_string utf8 (c_string v)) (\<lambda>v'.
       push_want utf8 rest (want @ [k', v'])))"

definition DeserializeOnDemandReasonExtraData ::
    "(string \<Rightarrow> bool) \<Rightarrow> ('p \<Rightarrow> ub + extra_data option \<times> 'p) \<Rightarrow> 'p \<Rightarrow> ub + rust_extra_data \<times> 'p" where
  "DeserializeOnDemandReasonExtraData utf8 ReadParcelable parcel =
     ub_bind (ReadParcelable parcel) (\<lambda>(reason, parcel).
      case reason of
        None \<Rightarrow> Inr (\<lparr>r_data = [], r_code = 0, r_want = []\<rparr>, parcel)
      | Some reason \<Rightarrow>
          ub_bind (push_want utf8 (GetWant reason) []) (\<lambda>want.
          ub_bind (rust_string utf8 (GetData reason)) (\<lambda>dat.
            Inr (\<lparr>r_data = dat, r_code = GetCode reason, r_want = want\<rparr>, parcel))))"

text \<open>The loop over the pairs of the list; \<open>insert\<close> keeps the first value of a key, and a string without a partner is skipped.\<close>

fun want_map :: "(nat \<Rightarrow> string) \<Rightarrow> nat \<Rightarrow> string list \<Rightarrow> (string, string) smap \<Rightarrow> ub + (string, string) smap" where
  "want_map behind i (k # v # rest) wantMap =
     ub_bind (raw_string k (behind i)) (\<lambda>k'. ub_bind (raw_string v (behind (i + 1))) (\<lambda>v'.
       want_map behind (i + 2) rest (smap_emplace k' v' wantMap)))"
| "want_map behind i _ wantMap = Inr wantMap"

definition SerializeOnDemandReasonExtraData ::
    "(nat \<Rightarrow> string) \<Rightarrow> (extra_data \<Rightarrow> 'p \<Rightarrow> ub + bool \<times> 'p) \<Rightarrow> rust_extra_data \<Rightarrow> 'p \<Rightarrow> ub + bool \<times> 'p" where
  "SerializeOnDemandReasonExtraData behind WriteParcelable extraData parcel =
     ub_bind (want_map behind 0 (r_want extraData) []) (\<lambda>wantMap.
       WriteParcelable (OnDemandReasonExtraData (r_code extraData) (r_data extraData) wantMap) parcel)"

definition BuildReasonWrapper :: "(string \<Rightarrow> bool) \<Rightarrow> reason \<Rightarrow> ub + rust_reason" where
  "BuildReasonWrapper utf8 reason =
     ub_bind (push_want utf8 (GetWant (GetExtraData reason)) []) (\<lambda>want.
     ub_bind (rust_string utf8 (c_string (GetName reason))) (\<lambda>name.
     ub_bind (rust_string utf8 (c_string (GetValue reason))) (\<lambda>val.
     ub_bind (rust_string utf8 (c_string (GetData (GetExtraData reason)))) (\<lambda>dat.
       Inr \<lparr>r_name = name, r_value = val, r_reason_id = GetId reason,
            r_extra_data = \<lparr>r_data = dat, r_code = GetCode (GetExtraData reason), r_want = want\<rparr>,
            r_extra_data_id = GetExtraDataId reason\<rparr>))))"

section \<open>The wrapper class\<close>

text \<open>The calls of the Rust object that the callbacks become; the wrapper overrides every callback but \<open>OnSvcCmd\<close>, for which there is none.\<close>

datatype rust_call =
    R_OnDump
  | R_OnStart
  | R_OnStartWithReason rust_reason
  | R_OnIdle rust_reason
  | R_OnActive rust_reason
  | R_OnStop
  | R_OnStopWithReason rust_reason
  | R_OnAddSystemAbility int string
  | R_OnRemoveSystemAbility int string
  | R_OnDeviceLevelChanged int int string
  | R_OnExtension string

definition with_reason :: "(string \<Rightarrow> bool) \<Rightarrow> (rust_reason \<Rightarrow> rust_call) \<Rightarrow> reason \<Rightarrow> ub + rust_call option" where
  "with_reason utf8 f reason = ub_bind (BuildReasonWrapper utf8 reason) (\<lambda>r. Inr (Some (f r)))"

definition with_string :: "(string \<Rightarrow> bool) \<Rightarrow> (string \<Rightarrow> rust_call) \<Rightarrow> string \<Rightarrow> ub + rust_call option" where
  "with_string utf8 f s = ub_bind (rust_string utf8 s) (\<lambda>s. Inr (Some (f s)))"

fun SystemAbilityWrapper_forward :: "(string \<Rightarrow> bool) \<Rightarrow> sa_callback \<Rightarrow> ub + rust_call option" where
  "SystemAbilityWrapper_forward utf8 OnDump = Inr (Some R_OnDump)"
| "SystemAbilityWrapper_forward utf8 OnStart = Inr (Some R_OnStart)"
| "SystemAbilityWrapper_forward utf8 (OnStartReason startReason) = with_reason utf8 R_OnStartWithReason startReason"
| "SystemAbilityWrapper_forward utf8 (OnIdle idleReason) = with_reason utf8 R_OnIdle idleReason"
| "SystemAbilityWrapper_forward utf8 (OnActive activeReason) = with_reason utf8 R_OnActive activeReason"
| "SystemAbilityWrapper_forward utf8 OnStop = Inr (Some R_OnStop)"
| "SystemAbilityWrapper_forward utf8 (OnStopReason stopReason) = with_reason utf8 R_OnStopWithReason stopReason"
| "SystemAbilityWrapper_forward utf8 (OnAddSA systemAbilityId deviceId) =
     with_string utf8 (R_OnAddSystemAbility systemAbilityId) deviceId"
| "SystemAbilityWrapper_forward utf8 (OnRemoveSA systemAbilityId deviceId) =
     with_string utf8 (R_OnRemoveSystemAbility systemAbilityId) deviceId"
| "SystemAbilityWrapper_forward utf8 (OnDeviceLevelChanged type level action) =
     with_string utf8 (R_OnDeviceLevelChanged type level) action"
| "SystemAbilityWrapper_forward utf8 (OnExtension extension) = with_string utf8 R_OnExtension extension"
| "SystemAbilityWrapper_forward utf8 (OnSvcCmd fd args) = Inr None"

text \<open>
  The objects own a boxed Rust value each: the constructor takes the raw pointer out of the box, so that the box does not free it, and the
  destructor puts it back into a box, which frees it. A destructor is the list of the values it frees.
\<close>

record rust_wrapper =
  baseM :: system_ability
  abilityM :: nat

definition SystemAbilityWrapper :: "nat \<Rightarrow> int \<Rightarrow> bool \<Rightarrow> rust_wrapper" where
  "SystemAbilityWrapper ability systemAbilityId runOnCreate = \<lparr>baseM = SystemAbility systemAbilityId runOnCreate, abilityM = ability\<rparr>"

definition SystemAbilityWrapper_delete :: "rust_wrapper \<Rightarrow> nat list" where
  "SystemAbilityWrapper_delete this = [abilityM this]"

definition BuildSystemAbility :: "nat \<Rightarrow> int \<Rightarrow> bool \<Rightarrow> rust_wrapper" where
  "BuildSystemAbility ability systemAbilityId runOnCreate = SystemAbilityWrapper ability systemAbilityId runOnCreate"

record remote_service_stub =
  innerM :: nat

definition RemoteServiceStub :: "nat \<Rightarrow> remote_service_stub" where
  "RemoteServiceStub ability = \<lparr>innerM = ability\<rparr>"

definition RemoteServiceStub_delete :: "remote_service_stub \<Rightarrow> nat list" where
  "RemoteServiceStub_delete this = [innerM this]"

definition StopAbilityWrapper :: "env \<Rightarrow> int \<Rightarrow> proc \<Rightarrow> proc" where
  "StopAbilityWrapper env systemAbilityId p = StopAbility_samgr env systemAbilityId p"

definition CancelIdleWrapper :: "env \<Rightarrow> nat \<Rightarrow> proc \<Rightarrow> bool \<times> proc" where
  "CancelIdleWrapper env this p = CancelIdle env this p"

text \<open>\<open>stub\<close> is the object made for the Rust stub, or null.\<close>

definition PublishWrapper :: "env \<Rightarrow> nat \<Rightarrow> nat option \<Rightarrow> proc \<Rightarrow> bool \<times> proc" where
  "PublishWrapper env this stub p = (if stub = None then (False, p) else Publish env this stub p)"

definition RegisterAbility :: "env \<Rightarrow> ptr \<Rightarrow> proc \<Rightarrow> bool \<times> proc" where
  "RegisterAbility env system_ability p = MakeAndRegisterAbility env system_ability p"

text \<open>\<open>RemoteServiceStub::Dump\<close>: the arguments as Rust strings.\<close>

fun dump_args :: "(u16string \<Rightarrow> string option) \<Rightarrow> u16string list \<Rightarrow> string list \<Rightarrow> ub + string list" where
  "dump_args utf16 [] rust_v = Inr rust_v"
| "dump_args utf16 (arg # args) rust_v =
     (case utf16 (takeWhile (\<lambda>c. c \<noteq> 0) arg) of
        None \<Rightarrow> Inl UncaughtException
      | Some s \<Rightarrow> dump_args utf16 args (rust_v @ [s]))"

text \<open>The calls of the Rust stub; \<open>dump\<close> and \<open>on_remote_request\<close> are its methods.\<close>

definition RemoteServiceStub_Dump :: "(u16string \<Rightarrow> string option) \<Rightarrow> (int \<Rightarrow> string list \<Rightarrow> int) \<Rightarrow> int \<Rightarrow> u16string list \<Rightarrow> ub + int" where
  "RemoteServiceStub_Dump utf16 dump fd args = ub_bind (dump_args utf16 args []) (\<lambda>rust_v. Inr (dump fd rust_v))"

definition RemoteServiceStub_OnRemoteRequest ::
    "(32 word \<Rightarrow> 'd \<Rightarrow> 'r \<Rightarrow> int \<times> 'd \<times> 'r) \<Rightarrow> 32 word \<Rightarrow> 'd \<Rightarrow> 'r \<Rightarrow> int \<times> 'd \<times> 'r" where
  "RemoteServiceStub_OnRemoteRequest on_remote_request code dat reply = on_remote_request code dat reply"

section \<open>Lemmas\<close>

text \<open>The strings that survive the conversions unchanged.\<close>

definition plain :: "(string \<Rightarrow> bool) \<Rightarrow> string \<Rightarrow> bool" where
  "plain utf8 s \<longleftrightarrow> NUL \<notin> set s \<and> utf8 s"

definition flatten :: "(string, string) smap \<Rightarrow> string list" where
  "flatten w = concat (map (\<lambda>(k, v). [k, v]) w)"

lemma flatten_simps [simp]: "flatten [] = []" "flatten ((k, v) # w) = k # v # flatten w"
  by (simp_all add: flatten_def)

lemma c_string_append: "NUL \<notin> set s \<Longrightarrow> c_string (s @ t) = s @ c_string t"
  by (induction s) (auto simp: c_string_def)

lemma c_string_plain: "NUL \<notin> set s \<Longrightarrow> c_string s = s"
  using c_string_append [of s "[]"] by (simp add: c_string_def)

lemma c_string_NUL [simp]: "c_string (NUL # t) = []"
  by (simp add: c_string_def)

lemma rust_string_plain: "plain utf8 s \<Longrightarrow> rust_string utf8 (c_string s) = Inr s" "plain utf8 s \<Longrightarrow> rust_string utf8 s = Inr s"
  by (simp_all add: plain_def rust_string_def c_string_plain)

lemma push_want_plain:
  "\<forall>s \<in> set (flatten w). plain utf8 s \<Longrightarrow> push_want utf8 w want = Inr (want @ flatten w)"
  by (induction w arbitrary: want) (auto simp: rust_string_plain)

text \<open>
  What the want list says to the C++ side: its \<open>i\<close>-th pair is made of the strings \<open>2 i\<close> and \<open>2 i + 1\<close>, each read on to
  the first NUL; a last string without a partner is not used.
\<close>

definition overread :: "(nat \<Rightarrow> string) \<Rightarrow> string list \<Rightarrow> (string \<times> string) list" where
  "overread behind xs = map (\<lambda>i. (c_string (xs ! (2 * i) @ behind (2 * i)), c_string (xs ! (2 * i + 1) @ behind (2 * i + 1))))
     [0..<length xs div 2]"

definition reads_end :: "(nat \<Rightarrow> string) \<Rightarrow> string list \<Rightarrow> bool" where
  "reads_end behind xs \<longleftrightarrow> (\<forall>i < 2 * (length xs div 2). NUL \<in> set (xs ! i @ behind i))"

lemma upto_Suc: "[0..<Suc n] = 0 # map Suc [0..<n]"
  by (simp add: map_Suc_upt upt_conv_Cons)

lemma overread_pair:
  "overread behind (k # v # xs) = (c_string (k @ behind 0), c_string (v @ behind 1)) # overread (\<lambda>i. behind (i + 2)) xs"
  "overread behind [] = []" "overread behind [k] = []"
  by (simp_all add: overread_def upto_Suc del: upt_Suc)

lemma reads_end_pair:
  "reads_end behind (k # v # xs) \<longleftrightarrow> NUL \<in> set (k @ behind 0) \<and> NUL \<in> set (v @ behind 1) \<and> reads_end (\<lambda>i. behind (i + 2)) xs"
  "reads_end behind []" "reads_end behind [k]"
proof -
  have "(\<forall>i < Suc (Suc n). P i) \<longleftrightarrow> P 0 \<and> P 1 \<and> (\<forall>i < n. P (Suc (Suc i)))" for n and P :: "nat \<Rightarrow> bool"
    by (auto simp: less_Suc_eq_0_disj)
  then show "reads_end behind (k # v # xs) \<longleftrightarrow> NUL \<in> set (k @ behind 0) \<and> NUL \<in> set (v @ behind 1) \<and> reads_end (\<lambda>i. behind (i + 2)) xs"
    by (simp add: reads_end_def)
qed (simp_all add: reads_end_def)

lemma want_map_reads:
  "smap_ok acc \<Longrightarrow> if reads_end (\<lambda>j. behind (j + i)) xs
     then \<exists>w. want_map behind i xs acc = Inr w \<and> smap_ok w \<and> map_of w = map_of (overread (\<lambda>j. behind (j + i)) xs) ++ map_of acc
     else want_map behind i xs acc = Inl BadIterator"
proof (induction behind i xs acc rule: want_map.induct)
  case (1 behind i k v xs acc)
  let ?k = "c_string (k @ behind i)" and ?v = "c_string (v @ behind (i + 1))"
  have e: "map_of (smap_emplace ?k ?v acc) = [?k \<mapsto> ?v] ++ map_of acc"
    using "1.prems" by (auto simp: smap_find_emplace [unfolded smap_find_def] map_add_def intro!: ext split: option.split)
  have o: "overread (\<lambda>j. behind (j + i)) (k # v # xs) = (?k, ?v) # overread (\<lambda>j. behind (j + (i + 2))) xs"
    by (simp add: overread_pair ac_simps)
  have r: "reads_end (\<lambda>j. behind (j + i)) (k # v # xs) \<longleftrightarrow>
      NUL \<in> set (k @ behind i) \<and> NUL \<in> set (v @ behind (i + 1)) \<and> reads_end (\<lambda>j. behind (j + (i + 2))) xs"
    by (simp add: reads_end_pair ac_simps)
  show ?case
  proof (cases "NUL \<in> set (k @ behind i) \<and> NUL \<in> set (v @ behind (i + 1))")
    case True
    then have "want_map behind i (k # v # xs) acc = want_map behind (i + 2) xs (smap_emplace ?k ?v acc)"
      by (simp add: raw_string_def)
    moreover have "map_of (overread (\<lambda>j. behind (j + i)) (k # v # xs)) ++ map_of acc =
        map_of (overread (\<lambda>j. behind (j + (i + 2))) xs) ++ map_of (smap_emplace ?k ?v acc)"
      unfolding o e by (simp add: map_add_assoc)
    ultimately show ?thesis
      unfolding r using "1.IH" [of ?k ?v, OF smap_ok_emplace [OF "1.prems"]] True by (simp cong: if_cong)
  next
    case False
    then show ?thesis unfolding r by (auto simp: raw_string_def)
  qed
qed (simp_all add: overread_pair reads_end_pair)

lemma want_map_exact:
  "if reads_end behind xs
   then \<exists>w. want_map behind 0 xs [] = Inr w \<and> smap_ok w \<and> map_of w = map_of (overread behind xs)
   else want_map behind 0 xs [] = Inl BadIterator"
  using want_map_reads [of "[]" behind 0 xs] by (simp add: smap_ok_def cong: if_cong)

text \<open>Ordered maps with the same entries are equal.\<close>

lemma smap_eqI:
  assumes "smap_ok w" and "smap_ok w'" and "map_of w = map_of w'"
  shows "w = w'"
proof -
  have d: "distinct (map fst w)" "distinct (map fst w')" using assms(1,2) sm.entries_distinct by blast+
  then have "set w = set w'" using assms(3) map_of_inject_set by blast
  moreover have "sorted (map fst w)" "sorted (map fst w')"
    using assms(1,2) by (simp_all add: smap_ok_def strict_sorted_imp_sorted)
  ultimately show ?thesis using map_sorted_distinct_set_unique [of fst w w'] d
    by (metis (no_types, lifting) Un_absorb distinct_map)
qed

text \<open>The number of characters in a list of pairs.\<close>

definition pair_size :: "string \<times> string \<Rightarrow> nat" where
  "pair_size kv = length (fst kv) + length (snd kv)"

lemma overread_flatten:
  "\<forall>s \<in> set (flatten m). NUL \<notin> set s \<Longrightarrow>
     overread behind (flatten m) = map (\<lambda>i. (fst (m ! i) @ c_string (behind (2 * i)), snd (m ! i) @ c_string (behind (2 * i + 1)))) [0..<length m]"
proof (induction m arbitrary: behind)
  case (Cons kv m)
  then show ?case by (cases kv) (simp add: overread_pair upto_Suc c_string_append del: upt_Suc)
qed (simp add: overread_pair)

lemma none_added: "(a::nat) = a + b \<Longrightarrow> b = 0"
  by simp

lemma flatten_length: "length (flatten m) = 2 * length m"
  by (induction m) auto

text \<open>
  Written unchanged: reading on can only make the strings longer, so a map is kept exactly if nothing is read on.
\<close>

lemma overread_same_length:
  assumes nul: "\<forall>s \<in> set (flatten m). NUL \<notin> set s" and "smap_ok m" and eq: "map_of m = map_of (overread behind (flatten m))"
  shows "\<forall>i < 2 * length m. c_string (behind i) = []"
proof -
  let ?o = "overread behind (flatten m)"
  have d: "distinct (map fst m)" using assms(2) sm.entries_distinct by blast
  have len: "length ?o = length m" by (simp add: overread_def flatten_length)
  have "fst ` set m = fst ` set ?o" using eq by (metis dom_map_of_conv_image_fst)
  then have "set (map fst ?o) = set (map fst m)" by simp
  then have d': "distinct (map fst ?o)" using d len by (metis card_distinct distinct_card length_map)
  then have "set m = set ?o" using d eq map_of_inject_set by blast
  then have "sum_list (map pair_size m) = sum_list (map pair_size ?o)"
    using d d' by (simp add: distinct_map sum_list_distinct_conv_sum_set)
  moreover have "map pair_size ?o = map (\<lambda>i. pair_size (m ! i) + (length (c_string (behind (2 * i))) + length (c_string (behind (2 * i + 1))))) [0..<length m]"
    by (simp add: overread_flatten [OF nul] pair_size_def)
  moreover have "map pair_size m = map (\<lambda>i. pair_size (m ! i)) [0..<length m]"
    by (rule nth_equalityI) simp_all
  ultimately have "sum_list (map (\<lambda>i. pair_size (m ! i)) [0..<length m]) = sum_list (map (\<lambda>i. pair_size (m ! i)) [0..<length m])
      + sum_list (map (\<lambda>i. length (c_string (behind (2 * i))) + length (c_string (behind (2 * i + 1)))) [0..<length m])"
    by (simp only: sum_list_addf)
  then have "sum_list (map (\<lambda>i. length (c_string (behind (2 * i))) + length (c_string (behind (2 * i + 1)))) [0..<length m]) = 0"
    by (rule none_added)
  then have z: "\<forall>i < length m. c_string (behind (2 * i)) = [] \<and> c_string (behind (2 * i + 1)) = []" by simp
  show ?thesis
  proof (intro allI impI)
    fix i assume "i < 2 * length m"
    then have "i div 2 < length m" "i = 2 * (i div 2) \<or> i = 2 * (i div 2) + 1" by auto
    then show "c_string (behind i) = []" using z by metis
  qed
qed

lemma want_unchanged_iff:
  assumes nul: "\<forall>s \<in> set (flatten m). NUL \<notin> set s" and m: "smap_ok m" and w: "smap_ok w"
    and eq: "map_of w = map_of (overread behind (flatten m))" and e: "reads_end behind (flatten m)"
  shows "w = m \<longleftrightarrow> (\<forall>i < 2 * length m. \<exists>t. behind i = NUL # t)"
proof
  assume "w = m"
  have "NUL \<in> set (behind i)" if "i < 2 * length m" for i
    using e that nul by (auto simp: reads_end_def flatten_length)
  moreover have "c_string (behind i) = []" if "i < 2 * length m" for i
    using overread_same_length [OF nul m] eq \<open>w = m\<close> that by simp
  ultimately have "\<exists>t. behind i = NUL # t" if "i < 2 * length m" for i
    using that by (cases "behind i") (force simp: c_string_def split: if_splits)+
  then show "\<forall>i < 2 * length m. \<exists>t. behind i = NUL # t" by blast
next
  assume b: "\<forall>i < 2 * length m. \<exists>t. behind i = NUL # t"
  have "c_string (behind i) = []" if "i < 2 * length m" for i using b that by auto
  then have "overread behind (flatten m) = map (\<lambda>i. (fst (m ! i), snd (m ! i))) [0..<length m]"
    by (simp add: overread_flatten [OF nul])
  then have "overread behind (flatten m) = m" by (simp add: map_nth)
  then show "w = m" using smap_eqI [OF w m] eq by simp
qed

text \<open>The strings of what was written have no NUL, so they come back whole or, if one of them is not UTF-8, not at all.\<close>

lemma overread_no_NUL:
  assumes "smap_ok w" and "map_of w = map_of (overread behind xs)"
  shows "\<forall>s \<in> set (flatten w). NUL \<notin> set s"
proof -
  have c: "NUL \<notin> set (c_string s)" for s by (auto simp: c_string_def dest: set_takeWhileD)
  have "NUL \<notin> set k \<and> NUL \<notin> set v" if "(k, v) \<in> set w" for k v
  proof -
    have "map_of (overread behind xs) k = Some v"
      using that assms sm.entries_distinct by (metis map_of_is_SomeI)
    then show ?thesis using c by (auto simp: overread_def dest!: map_of_SomeD)
  qed
  then show ?thesis by (auto simp: flatten_def)
qed

lemma push_want_exact:
  "\<forall>s \<in> set (flatten w). NUL \<notin> set s \<Longrightarrow>
     push_want utf8 w want = (if \<forall>s \<in> set (flatten w). utf8 s then Inr (want @ flatten w) else Inl UncaughtException)"
  by (induction w arbitrary: want) (auto simp: rust_string_def c_string_plain)

lemma Deserialize_exact:
  assumes "ReadParcelable q = Inr (Some (OnDemandReasonExtraData c d w), r)" and "utf8 d" and "\<forall>s \<in> set (flatten w). NUL \<notin> set s"
  shows "DeserializeOnDemandReasonExtraData utf8 ReadParcelable q =
     (if \<forall>s \<in> set (flatten w). utf8 s then Inr (\<lparr>r_data = d, r_code = c, r_want = flatten w\<rparr>, r) else Inl UncaughtException)"
  using assms by (simp add: DeserializeOnDemandReasonExtraData_def OnDemandReasonExtraData_def push_want_exact rust_string_def)

text \<open>A reason as Rust sees it.\<close>

definition rust_view :: "reason \<Rightarrow> rust_reason" where
  "rust_view r = \<lparr>r_name = GetName r, r_value = GetValue r, r_reason_id = GetId r,
     r_extra_data = \<lparr>r_data = GetData (GetExtraData r), r_code = GetCode (GetExtraData r), r_want = flatten (GetWant (GetExtraData r))\<rparr>,
     r_extra_data_id = GetExtraDataId r\<rparr>"

definition plain_reason :: "(string \<Rightarrow> bool) \<Rightarrow> reason \<Rightarrow> bool" where
  "plain_reason utf8 r \<longleftrightarrow>
     (\<forall>s \<in> set (GetName r # GetValue r # GetData (GetExtraData r) # flatten (GetWant (GetExtraData r))). plain utf8 s)"

lemma BuildReasonWrapper_plain: "plain_reason utf8 r \<Longrightarrow> BuildReasonWrapper utf8 r = Inr (rust_view r)"
  using push_want_plain [of "wantM (extraDataM r)" utf8 "[]"]
  by (simp add: plain_reason_def BuildReasonWrapper_def rust_string_plain rust_view_def)

section \<open>Properties\<close>

text \<open>
  C34. What \<open>SerializeOnDemandReasonExtraData\<close> writes for a want list of any length. Every string of a pair is read on past its end to
  the next NUL in memory; if there is none behind one of them the behaviour is undefined. Otherwise the map that is written holds
  exactly the pairs of neighbours, read on like this, with the first value of a repeated key, and a last string without a partner is
  dropped. So a want map given as its list of keys and values, without NUL characters, is written unchanged if and only if the
  byte behind the buffer of every one of its strings happens to be NUL.
\<close>

theorem rust_want_overread:
  "(if \<forall>i < 2 * (length (r_want d) div 2). NUL \<in> set (r_want d ! i @ behind i)
     then \<exists>w. smap_ok w \<and> map_of w = map_of (overread behind (r_want d)) \<and>
            SerializeOnDemandReasonExtraData behind WriteParcelable d p =
              WriteParcelable (OnDemandReasonExtraData (r_code d) (r_data d) w) p
     else SerializeOnDemandReasonExtraData behind WriteParcelable d p = Inl BadIterator)
   \<and> (\<forall>m. r_want d = flatten m \<longrightarrow> smap_ok m \<longrightarrow> (\<forall>s \<in> set (flatten m). NUL \<notin> set s) \<longrightarrow>
        (SerializeOnDemandReasonExtraData behind (\<lambda>e p. Inr (True, p @ [e])) d [] =
           Inr (True, [OnDemandReasonExtraData (r_code d) (r_data d) m])
         \<longleftrightarrow> (\<forall>i < 2 * length m. \<exists>t. behind i = NUL # t)))"
proof -
  have unchanged: "SerializeOnDemandReasonExtraData behind (\<lambda>e p. Inr (True, p @ [e])) d [] =
        Inr (True, [OnDemandReasonExtraData (r_code d) (r_data d) m]) \<longleftrightarrow> (\<forall>i < 2 * length m. \<exists>t. behind i = NUL # t)"
    if m: "r_want d = flatten m" "smap_ok m" "\<forall>s \<in> set (flatten m). NUL \<notin> set s" for m
  proof (cases "reads_end behind (flatten m)")
    case True
    then obtain w where w: "want_map behind 0 (flatten m) [] = Inr w" "smap_ok w" "map_of w = map_of (overread behind (flatten m))"
      using want_map_exact [of behind "flatten m"] by auto
    then show ?thesis
      using want_unchanged_iff [OF m(3,2) w(2,3) True] m(1)
      by (simp add: SerializeOnDemandReasonExtraData_def OnDemandReasonExtraData_def)
  next
    case False
    then have "want_map behind 0 (flatten m) [] = Inl BadIterator" using want_map_exact [of behind "flatten m"] by simp
    moreover obtain i where "i < 2 * length m" "NUL \<notin> set (behind i)" using False by (auto simp: reads_end_def flatten_length)
    then have "\<not> (\<forall>i < 2 * length m. \<exists>t. behind i = NUL # t)" by auto
    ultimately show ?thesis using m(1) by (simp add: SerializeOnDemandReasonExtraData_def)
  qed
  have "if reads_end behind (r_want d)
     then \<exists>w. smap_ok w \<and> map_of w = map_of (overread behind (r_want d)) \<and>
            SerializeOnDemandReasonExtraData behind WriteParcelable d p =
              WriteParcelable (OnDemandReasonExtraData (r_code d) (r_data d) w) p
     else SerializeOnDemandReasonExtraData behind WriteParcelable d p = Inl BadIterator"
    using want_map_exact [of behind "r_want d"] by (cases "reads_end behind (r_want d)") (auto simp: SerializeOnDemandReasonExtraData_def)
  then show ?thesis using unchanged by (simp add: reads_end_def)
qed

theorem rust_want_overread_witness:
  "SerializeOnDemandReasonExtraData (\<lambda>i. if i = 3 then [CHR ''x'', NUL] else [NUL]) (\<lambda>e p. Inr (True, p @ [e]))
       \<lparr>r_data = [], r_code = 1, r_want = flatten [(''a'', ''b''), (''k'', ''v'')]\<rparr> []
     \<noteq> Inr (True, [OnDemandReasonExtraData 1 [] [(''a'', ''b''), (''k'', ''v'')]])"
proof -
  let ?m = "[(''a'', ''b''), (''k'', ''v'')]" and ?behind = "\<lambda>i::nat. if i = 3 then [CHR ''x'', NUL] else [NUL]"
  let ?d = "\<lparr>r_data = [], r_code = 1, r_want = flatten ?m\<rparr>"
  have ok: "smap_ok ?m" "\<forall>s \<in> set (flatten ?m). NUL \<notin> set s" by (simp_all add: smap_ok_def NUL_def)
  have "\<not> (\<forall>i < 2 * length ?m. \<exists>t. ?behind i = NUL # t)"
  proof
    assume "\<forall>i < 2 * length ?m. \<exists>t. ?behind i = NUL # t"
    then have "\<exists>t. ?behind 3 = NUL # t" by (metis numeral_3_eq_3 length_Cons list.size(3) lessI mult_2 add_Suc_right add_Suc add.left_neutral)
    then show False by (simp add: NUL_def)
  qed
  moreover have "r_want ?d = flatten ?m" by simp
  ultimately show ?thesis
    using rust_want_overread [of ?d ?behind "\<lambda>e p. Inr (True, p @ [e])" "[]"] ok by (metis rust_extra_data.select_convs(1,2))
qed

end
