(* ===== verification/Rust_Library.thy ===== *)
theory Rust_Library
  imports Rust_Wrapper Lam_Listeners
begin

text \<open>
  The Rust half of the bindings (\<open>interfaces/innerkits/safwk/rust/src\<close>: \<open>wrapper.rs\<close>, \<open>ability.rs\<close>, \<open>exts.rs\<close>): the serialisation of
  reasons into the parcels of the \<open>ipc\<close> crate, the want list as a hash map, the trait \<open>Ability\<close> with its default methods and the
  dispatch of the callbacks to it, and the handle that an ability gets of its C++ object.

  The methods of a parcel belong to the \<open>ipc\<close> crate and are arguments: its own, those of the C++ parcel inside (\<open>cxx_parcel\<close>), and the
  two that write and read an object, which are given the method of the object that marshals or unmarshals it; for the extra data
  these are \<open>Marshalling\<close> and \<open>Unmarshalling\<close>. The JSON library is an argument as it is there. A function that returns an \<open>IpcResult\<close> gives an
  \<open>IpcStatusCode\<close> or a value, and the parcel, which it takes by mutable reference; a panic is the undefined outcome \<open>UncaughtException\<close>, since it
  ends the process as an exception does.
\<close>

section \<open>Parcels\<close>

datatype IpcStatusCode = Failed | OtherStatus nat

type_synonym 'a IpcResult = "IpcStatusCode + 'a"

record 'p msg_parcel =
  write_str :: "string \<Rightarrow> 'p \<Rightarrow> unit IpcResult \<times> 'p"
  write_i32 :: "int \<Rightarrow> 'p \<Rightarrow> unit IpcResult \<times> 'p"
  write_i64 :: "int \<Rightarrow> 'p \<Rightarrow> unit IpcResult \<times> 'p"
  read_str :: "'p \<Rightarrow> string IpcResult \<times> 'p"
  read_i32 :: "'p \<Rightarrow> int IpcResult \<times> 'p"
  read_i64 :: "'p \<Rightarrow> int IpcResult \<times> 'p"
  pin_mut :: "'p \<Rightarrow> bool"
  cxx_parcel :: "'p parcel_rw"
  write_parcelable :: "('p \<Rightarrow> ub + bool \<times> 'p) \<Rightarrow> 'p \<Rightarrow> ub + bool \<times> 'p"
  read_parcelable :: "('p \<Rightarrow> ub + extra_data option \<times> 'p) \<Rightarrow> 'p \<Rightarrow> ub + extra_data option \<times> 'p"

text \<open>The operator \<open>?\<close>: an error is returned at once, with the parcel as it is then.\<close>

type_synonym ('p, 'a) parcel_fun = "'p \<Rightarrow> ub + 'a IpcResult \<times> 'p"

definition question :: "('p, 'a) parcel_fun \<Rightarrow> ('a \<Rightarrow> ('p, 'b) parcel_fun) \<Rightarrow> ('p, 'b) parcel_fun" where
  "question m f p = ub_bind (m p) (\<lambda>(res, p). case res of Inl e \<Rightarrow> Inr (Inl e, p) | Inr v \<Rightarrow> f v p)"

definition simple :: "('p \<Rightarrow> 'a IpcResult \<times> 'p) \<Rightarrow> ('p, 'a) parcel_fun" where
  "simple f p = Inr (f p)"

section \<open>Serialisation\<close>

definition serialize_reason_id :: "'p msg_parcel \<Rightarrow> int \<Rightarrow> ('p, unit) parcel_fun" where
  "serialize_reason_id P repr = simple (write_i32 P repr)"

definition deserialize_reason_id :: "'p msg_parcel \<Rightarrow> ('p, int) parcel_fun" where
  "deserialize_reason_id P =
     question (simple (read_i32 P)) (\<lambda>n p. Inr
       (if n = 0 then Inr (reason_id_value INTERFACE_CALL)
        else if n = 1 then Inr (reason_id_value DEVICE_ONLINE)
        else if n = 2 then Inr (reason_id_value SETTING_SWITCH)
        else if n = 3 then Inr (reason_id_value PARAM)
        else if n = 4 then Inr (reason_id_value COMMON_EVENT)
        else if n = 5 then Inr (reason_id_value TIMED_EVENT)
        else Inl Failed, p))"

definition serialize_extra :: "(nat \<Rightarrow> string) \<Rightarrow> (json \<Rightarrow> string option) \<Rightarrow> 'p msg_parcel \<Rightarrow> rust_extra_data \<Rightarrow> ('p, unit) parcel_fun" where
  "serialize_extra behind dump P d parcel =
     (if \<not> pin_mut P parcel then Inl UncaughtException
      else ub_bind (SerializeOnDemandReasonExtraData behind (\<lambda>e. write_parcelable P (Marshalling (cxx_parcel P) dump e)) d parcel)
             (\<lambda>(ok, parcel). Inr (if ok then Inr () else Inl Failed, parcel)))"

definition deserialize_extra :: "(string \<Rightarrow> bool) \<Rightarrow> (string \<Rightarrow> json) \<Rightarrow> 'p msg_parcel \<Rightarrow> ('p, rust_extra_data) parcel_fun" where
  "deserialize_extra utf8 parse P parcel =
     (if \<not> pin_mut P parcel then Inl UncaughtException
      else ub_bind (DeserializeOnDemandReasonExtraData utf8 (read_parcelable P (Unmarshalling (cxx_parcel P) parse)) parcel)
             (\<lambda>(d, parcel). Inr (Inr d, parcel)))"

definition serialize_reason :: "(nat \<Rightarrow> string) \<Rightarrow> (json \<Rightarrow> string option) \<Rightarrow> 'p msg_parcel \<Rightarrow> rust_reason \<Rightarrow> ('p, unit) parcel_fun" where
  "serialize_reason behind dump P r =
     question (simple (write_str P (r_name r))) (\<lambda>_.
     question (simple (write_str P (r_value r))) (\<lambda>_.
     question (serialize_reason_id P (r_reason_id r)) (\<lambda>_.
     question (serialize_extra behind dump P (r_extra_data r)) (\<lambda>_.
       simple (write_i64 P (r_extra_data_id r))))))"

definition deserialize_reason :: "(string \<Rightarrow> bool) \<Rightarrow> (string \<Rightarrow> json) \<Rightarrow> 'p msg_parcel \<Rightarrow> ('p, rust_reason) parcel_fun" where
  "deserialize_reason utf8 parse P =
     question (simple (read_str P)) (\<lambda>name.
     question (simple (read_str P)) (\<lambda>val.
     question (deserialize_reason_id P) (\<lambda>reason_id.
     question (deserialize_extra utf8 parse P) (\<lambda>extra_data.
     question (simple (read_i64 P)) (\<lambda>extra_data_id.
       simple (\<lambda>p. (Inr \<lparr>r_name = name, r_value = val, r_reason_id = reason_id, r_extra_data = extra_data,
         r_extra_data_id = extra_data_id\<rparr>, p)))))))"

text \<open>\<open>OnDemandReasonExtraData::want\<close>: the loop takes a key and, if there is one, its value from the iterator.\<close>

fun want_loop :: "string list \<Rightarrow> (string \<rightharpoonup> string) \<Rightarrow> (string \<rightharpoonup> string)" where
  "want_loop [] res = res"
| "want_loop [k] res = res"
| "want_loop (k # v # want) res = want_loop want (res(k \<mapsto> v))"

definition want :: "rust_extra_data \<Rightarrow> (string \<rightharpoonup> string)" where
  "want self = want_loop (r_want self) Map.empty"

section \<open>The trait\<close>

datatype ability_method = M_on_start | M_on_stop | M_on_dump | M_on_idle | M_on_active | M_on_start_with_reason
  | M_on_stop_with_reason | M_on_system_ability_load_event | M_on_system_ability_remove_event | M_on_device_level_changed
  | M_on_extension

datatype ability_call =
    on_start
  | on_stop
  | on_dump
  | on_idle rust_reason
  | on_active rust_reason
  | on_start_with_reason rust_reason
  | on_stop_with_reason rust_reason
  | on_system_ability_load_event int string
  | on_system_ability_remove_event int string
  | on_device_level_changed int int string
  | on_extension string

fun method_of :: "ability_call \<Rightarrow> ability_method" where
  "method_of on_start = M_on_start"
| "method_of on_stop = M_on_stop"
| "method_of on_dump = M_on_dump"
| "method_of (on_idle r) = M_on_idle"
| "method_of (on_active r) = M_on_active"
| "method_of (on_start_with_reason r) = M_on_start_with_reason"
| "method_of (on_stop_with_reason r) = M_on_stop_with_reason"
| "method_of (on_system_ability_load_event i d) = M_on_system_ability_load_event"
| "method_of (on_system_ability_remove_event i d) = M_on_system_ability_remove_event"
| "method_of (on_device_level_changed t l a) = M_on_device_level_changed"
| "method_of (on_extension e) = M_on_extension"

text \<open>The methods of \<open>AbilityWrapper\<close>.\<close>

fun AbilityWrapper :: "rust_call \<Rightarrow> ability_call" where
  "AbilityWrapper R_OnDump = on_dump"
| "AbilityWrapper R_OnStart = on_start"
| "AbilityWrapper (R_OnStartWithReason reason) = on_start_with_reason reason"
| "AbilityWrapper (R_OnIdle reason) = on_idle reason"
| "AbilityWrapper (R_OnActive reason) = on_active reason"
| "AbilityWrapper R_OnStop = on_stop"
| "AbilityWrapper (R_OnStopWithReason reason) = on_stop_with_reason reason"
| "AbilityWrapper (R_OnAddSystemAbility said device_id) = on_system_ability_load_event said device_id"
| "AbilityWrapper (R_OnRemoveSystemAbility said device_id) = on_system_ability_remove_event said device_id"
| "AbilityWrapper (R_OnDeviceLevelChanged change_type level action) = on_device_level_changed change_type level action"
| "AbilityWrapper (R_OnExtension extension) = on_extension extension"

text \<open>
  The default method bodies: what they call in turn. The methods that return a number return 0 by default. An ability implements
  some of the methods; a call is then the method of the ability that runs, if any, and the number it returns.
\<close>

fun Ability_default :: "ability_call \<Rightarrow> ability_call option" where
  "Ability_default (on_start_with_reason reason) = Some on_start"
| "Ability_default (on_stop_with_reason reason) = Some on_stop"
| "Ability_default _ = None"

definition Ability_call :: "(ability_method \<Rightarrow> bool) \<Rightarrow> (ability_call \<Rightarrow> int) \<Rightarrow> ability_call \<Rightarrow> ability_call option \<times> int" where
  "Ability_call implements body c =
     (if implements (method_of c) then (Some c, body c)
      else case Ability_default c of
             None \<Rightarrow> (None, 0)
           | Some c' \<Rightarrow> if implements (method_of c') then (Some c', 0) else (None, 0))"

text \<open>A callback of the framework, from the C++ object to the method of the Rust ability.\<close>

definition deliver :: "(string \<Rightarrow> bool) \<Rightarrow> (ability_method \<Rightarrow> bool) \<Rightarrow> (ability_call \<Rightarrow> int) \<Rightarrow> sa_callback \<Rightarrow> ub + ability_call option \<times> int" where
  "deliver utf8 implements body cb =
     ub_bind (SystemAbilityWrapper_forward utf8 cb) (\<lambda>forwarded. Inr
       (case forwarded of
          None \<Rightarrow> (None, snd (base_callback cb))
        | Some rc \<Rightarrow> Ability_call implements body (AbilityWrapper rc)))"

text \<open>\<open>AbilityStub\<close> passes requests on to the stub of the \<open>ipc\<close> crate; the descriptor of a dump becomes a file that the stub owns.\<close>

definition AbilityStub_on_remote_request ::
    "(32 word \<Rightarrow> 'd \<Rightarrow> 'r \<Rightarrow> int \<times> 'd \<times> 'r) \<Rightarrow> 32 word \<Rightarrow> 'd \<Rightarrow> 'r \<Rightarrow> int \<times> 'd \<times> 'r" where
  "AbilityStub_on_remote_request inner code dat reply = inner code dat reply"

definition AbilityStub_dump :: "(int \<Rightarrow> 'file) \<Rightarrow> ('file \<Rightarrow> string list \<Rightarrow> int) \<Rightarrow> int \<Rightarrow> string list \<Rightarrow> int" where
  "AbilityStub_dump from_raw_fd inner fd args = (let file = from_raw_fd fd in inner file args)"

section \<open>The handle\<close>

text \<open>A \<open>Handler\<close> is the address of the C++ object; the stub that is published is boxed, and the object made for it is never null.\<close>

definition Handler_publish :: "env \<Rightarrow> nat \<Rightarrow> nat \<Rightarrow> proc \<Rightarrow> bool \<times> proc" where
  "Handler_publish env inner ability p = PublishWrapper env inner (Some ability) p"

definition Handler_cancel_idle :: "env \<Rightarrow> nat \<Rightarrow> proc \<Rightarrow> bool \<times> proc" where
  "Handler_cancel_idle env inner p = CancelIdleWrapper env inner p"

definition Handler_add_system_ability_listen :: "env \<Rightarrow> nat \<Rightarrow> int \<Rightarrow> proc \<Rightarrow> bool \<times> proc" where
  "Handler_add_system_ability_listen env inner system_ability_id p = AddSystemAbilityListener_self env inner system_ability_id p"

definition Handler_remove_system_ability_listen :: "env \<Rightarrow> nat \<Rightarrow> int \<Rightarrow> proc \<Rightarrow> bool \<times> proc" where
  "Handler_remove_system_ability_listen env inner system_ability_id p = RemoveSystemAbilityListener_self env inner system_ability_id p"

definition build_system_ability :: "nat \<Rightarrow> int \<Rightarrow> bool \<Rightarrow> rust_wrapper option" where
  "build_system_ability ability said run_on_create =
     (let wrapper = Some (BuildSystemAbility ability said run_on_create) in if wrapper = None then None else wrapper)"

text \<open>The result of the registration is dropped.\<close>

definition SystemAbility_register :: "env \<Rightarrow> ptr \<Rightarrow> proc \<Rightarrow> proc" where
  "SystemAbility_register env inner p = snd (RegisterAbility env inner p)"

section \<open>Lemmas\<close>

lemma question_simps [simp]:
  "m p = Inl u \<Longrightarrow> question m f p = Inl u"
  "m p = Inr (Inl e, q) \<Longrightarrow> question m f p = Inr (Inl e, q)"
  "m p = Inr (Inr v, q) \<Longrightarrow> question m f p = f v q"
  by (simp_all add: question_def)

lemma question_Inr:
  "question m f p = Inr (Inr v, q) \<longleftrightarrow> (\<exists>x p'. m p = Inr (Inr x, p') \<and> f x p' = Inr (Inr v, q))"
  by (cases "m p") (auto simp: question_def split: sum.splits prod.splits)

lemma want_loop_flatten: "want_loop (flatten w) m = m ++ map_of (rev w)"
proof (induction w arbitrary: m)
  case (Cons kv w)
  then show ?case by (cases kv) (auto simp: map_add_def intro!: ext split: option.split)
qed simp

lemma want_flatten: "smap_ok w \<Longrightarrow> want_loop (flatten w) Map.empty = map_of w"
proof -
  assume "smap_ok w"
  then have d: "distinct (map fst w)" "distinct (map fst (rev w))" using sm.entries_distinct by (simp_all add: rev_map [symmetric])
  have "map_of (rev w) k = map_of w k" for k
    using map_of_eq_Some_iff [OF d(1), of k] map_of_eq_Some_iff [OF d(2), of k]
    by (metis not_Some_eq set_rev)
  then have "map_of (rev w) = map_of w" by (rule ext)
  then show ?thesis by (simp add: want_loop_flatten)
qed

text \<open>
  The law of a parcel: what has been written is read in the same order, both through the \<open>ipc\<close> crate and through the C++ parcel inside, whose
  32-bit numbers are the same. An object is written as a header \<open>hdr\<close> and what its own method writes after it, and read by its own method after
  the header.
\<close>

datatype rust_item = RStr string | RI32 int | RI64 int | RCxxStr string

definition rust_parcel_law :: "'p msg_parcel \<Rightarrow> rust_item list \<Rightarrow> ('p \<Rightarrow> rust_item list) \<Rightarrow> bool" where
  "rust_parcel_law P hdr view \<longleftrightarrow> (\<forall>p. pin_mut P p)
     \<and> (\<forall>s p q. write_str P s p = (Inr (), q) \<longrightarrow> view q = view p @ [RStr s])
     \<and> (\<forall>i p q. write_i32 P i p = (Inr (), q) \<longrightarrow> view q = view p @ [RI32 i])
     \<and> (\<forall>i p q. write_i64 P i p = (Inr (), q) \<longrightarrow> view q = view p @ [RI64 i])
     \<and> (\<forall>s xs p. view p = RStr s # xs \<longrightarrow> (\<exists>q. read_str P p = (Inr s, q) \<and> view q = xs))
     \<and> (\<forall>i xs p. view p = RI32 i # xs \<longrightarrow> (\<exists>q. read_i32 P p = (Inr i, q) \<and> view q = xs))
     \<and> (\<forall>i xs p. view p = RI64 i # xs \<longrightarrow> (\<exists>q. read_i64 P p = (Inr i, q) \<and> view q = xs))
     \<and> parcel_queue (cxx_parcel P) view RI32 RCxxStr
     \<and> (\<forall>m p q. write_parcelable P m p = Inr (True, q) \<longrightarrow> (\<exists>p1. view p1 = view p @ hdr \<and> m p1 = Inr (True, q)))
     \<and> (\<forall>u p xs. view p = hdr @ xs \<longrightarrow> (\<exists>p1. view p1 = xs \<and> read_parcelable P u p = u p1))"

lemma rust_parcel_writes:
  assumes "rust_parcel_law P hdr view"
  shows "write_str P s p = (Inr (), q) \<Longrightarrow> view q = view p @ [RStr s]"
    "write_i32 P i p = (Inr (), q) \<Longrightarrow> view q = view p @ [RI32 i]"
    "write_i64 P i p = (Inr (), q) \<Longrightarrow> view q = view p @ [RI64 i]"
    "write_parcelable P m p = Inr (True, q) \<Longrightarrow> \<exists>p1. view p1 = view p @ hdr \<and> m p1 = Inr (True, q)"
  using assms by (simp_all add: rust_parcel_law_def)

lemma rust_parcel_reads:
  assumes "rust_parcel_law P hdr view"
  shows "view p = RStr s # xs \<Longrightarrow> \<exists>q. read_str P p = (Inr s, q) \<and> view q = xs"
    "view p = RI32 i # xs \<Longrightarrow> \<exists>q. read_i32 P p = (Inr i, q) \<and> view q = xs"
    "view p = RI64 i # xs \<Longrightarrow> \<exists>q. read_i64 P p = (Inr i, q) \<and> view q = xs"
    "view p = hdr @ xs \<Longrightarrow> \<exists>p1. view p1 = xs \<and> read_parcelable P u p = u p1"
    "parcel_queue (cxx_parcel P) view RI32 RCxxStr" "pin_mut P p"
  using assms by (simp_all add: rust_parcel_law_def)

lemma reason_id_read:
  "read_i32 P p = (Inr i, q) \<Longrightarrow> deserialize_reason_id P p = Inr (if 0 \<le> i \<and> i \<le> 5 then Inr i else Inl Failed, q)"
  by (simp add: deserialize_reason_id_def simple_def)

text \<open>The extra data in a parcel: the header, the code, the data string and the text of the want map that was written.\<close>

lemma serialize_extra_items:
  assumes law: "rust_parcel_law P hdr view" and ser: "serialize_extra behind dump P d p = Inr (Inr (), q)"
  shows "\<exists>w dumped. smap_ok w \<and> map_of w = map_of (overread behind (r_want d)) \<and> reads_end behind (r_want d)
     \<and> dump (want_json w) = Some dumped \<and> view q = view p @ hdr @ [RI32 (r_code d), RCxxStr (r_data d), RCxxStr dumped]"
proof -
  let ?W = "\<lambda>e. write_parcelable P (Marshalling (cxx_parcel P) dump e)"
  have ok: "SerializeOnDemandReasonExtraData behind ?W d p = Inr (True, q)"
    using ser by (auto simp: serialize_extra_def ub_bind_Inr split: if_splits)
  then obtain w where m: "want_map behind 0 (r_want d) [] = Inr w"
    and "?W (OnDemandReasonExtraData (r_code d) (r_data d) w) p = Inr (True, q)"
    by (auto simp: SerializeOnDemandReasonExtraData_def ub_bind_Inr)
  then obtain p1 where p1: "view p1 = view p @ hdr"
      "Marshalling (cxx_parcel P) dump (OnDemandReasonExtraData (r_code d) (r_data d) w) p1 = Inr (True, q)"
    using rust_parcel_writes(4) [OF law] by blast
  have w: "reads_end behind (r_want d)" "smap_ok w" "map_of w = map_of (overread behind (r_want d))"
    using want_map_exact [of behind "r_want d"] m by (auto split: if_splits)
  have "smap_ok (wantM (OnDemandReasonExtraData (r_code d) (r_data d) w))" using w(2) by (simp add: OnDemandReasonExtraData_def)
  from extra_data_marshalled [OF rust_parcel_reads(5) [OF law] this p1(2)] p1(1) w
  show ?thesis by (auto simp: OnDemandReasonExtraData_def)
qed

lemma deserialize_extra_items:
  assumes law: "rust_parcel_law P hdr view" and "json_text_law dump parse" and "smap_ok w" and "dump (want_json w) = Some dumped"
    and nul: "\<forall>s \<in> set (flatten w). NUL \<notin> set s" and "utf8 d"
    and v: "view q = hdr @ RI32 c # RCxxStr d # RCxxStr dumped # xs"
  shows "\<exists>r. view r = xs \<and> deserialize_extra utf8 parse P q =
     (if \<forall>s \<in> set (flatten w). utf8 s then Inr (Inr \<lparr>r_data = d, r_code = c, r_want = flatten w\<rparr>, r) else Inl UncaughtException)"
proof -
  let ?e = "OnDemandReasonExtraData c d w"
  have e: "smap_ok (wantM ?e)" "dump (want_json (wantM ?e)) = Some dumped" using assms(3,4) by (simp_all add: OnDemandReasonExtraData_def)
  obtain q1 where q1: "view q1 = RI32 c # RCxxStr d # RCxxStr dumped # xs"
      "read_parcelable P (Unmarshalling (cxx_parcel P) parse) q = Unmarshalling (cxx_parcel P) parse q1"
    using rust_parcel_reads(4) [OF law v] by blast
  have "view q1 = RI32 (codeM ?e) # RCxxStr (dataStrM ?e) # RCxxStr dumped # xs" using q1(1) by (simp add: OnDemandReasonExtraData_def)
  from extra_data_unmarshalled [OF rust_parcel_reads(5) [OF law] assms(2) e this] q1(2)
  obtain r where r: "read_parcelable P (Unmarshalling (cxx_parcel P) parse) q = Inr (Some ?e, r)" "view r = xs" by auto
  show ?thesis
    using Deserialize_exact [where ?utf8.0 = utf8 and q = q and ReadParcelable = "read_parcelable P (Unmarshalling (cxx_parcel P) parse)",
        OF r(1) assms(6) nul] rust_parcel_reads(6) [OF law] r(2)
    by (intro exI [of _ r]) (simp add: deserialize_extra_def)
qed

text \<open>What a parcel holds after a reason has been written to it, and what is read from that.\<close>

lemma serialize_reason_items:
  assumes law: "rust_parcel_law P hdr view" and "view p = []" and ser: "serialize_reason behind dump P r p = Inr (Inr (), q)"
  shows "\<exists>w dumped. smap_ok w \<and> map_of w = map_of (overread behind (r_want (r_extra_data r)))
     \<and> reads_end behind (r_want (r_extra_data r)) \<and> dump (want_json w) = Some dumped
     \<and> view q = RStr (r_name r) # RStr (r_value r) # RI32 (r_reason_id r) # hdr @ RI32 (r_code (r_extra_data r)) #
         RCxxStr (r_data (r_extra_data r)) # RCxxStr dumped # [RI64 (r_extra_data_id r)]"
proof -
  obtain p1 p2 p3 p4 where s: "write_str P (r_name r) p = (Inr (), p1)" "write_str P (r_value r) p1 = (Inr (), p2)"
      "write_i32 P (r_reason_id r) p2 = (Inr (), p3)" "serialize_extra behind dump P (r_extra_data r) p3 = Inr (Inr (), p4)"
      "write_i64 P (r_extra_data_id r) p4 = (Inr (), q)"
    using ser by (auto simp: serialize_reason_def serialize_reason_id_def question_Inr simple_def)
  from serialize_extra_items [OF law s(4)] rust_parcel_writes(1) [OF law s(1)] rust_parcel_writes(1) [OF law s(2)]
    rust_parcel_writes(2) [OF law s(3)] rust_parcel_writes(3) [OF law s(5)]
  show ?thesis using assms(2) by auto
qed

lemma deserialize_reason_items:
  assumes law: "rust_parcel_law P hdr view" and "json_text_law dump parse" and "smap_ok w" and "dump (want_json w) = Some dumped"
    and nul: "\<forall>s \<in> set (flatten w). NUL \<notin> set s" and "utf8 d"
    and v: "view q = RStr n # RStr x # RI32 i # hdr @ RI32 c # RCxxStr d # RCxxStr dumped # [RI64 k]"
  shows "\<exists>s. deserialize_reason utf8 parse P q =
     (if \<not> (0 \<le> i \<and> i \<le> 5) then Inr (Inl Failed, s)
      else if \<forall>s \<in> set (flatten w). utf8 s
      then Inr (Inr \<lparr>r_name = n, r_value = x, r_reason_id = i, r_extra_data = \<lparr>r_data = d, r_code = c, r_want = flatten w\<rparr>,
        r_extra_data_id = k\<rparr>, s)
      else Inl UncaughtException)"
proof -
  obtain q1 where q1: "read_str P q = (Inr n, q1)" "view q1 = RStr x # RI32 i # hdr @ RI32 c # RCxxStr d # RCxxStr dumped # [RI64 k]"
    using rust_parcel_reads(1) [OF law v] by blast
  obtain q2 where q2: "read_str P q1 = (Inr x, q2)" "view q2 = RI32 i # hdr @ RI32 c # RCxxStr d # RCxxStr dumped # [RI64 k]"
    using rust_parcel_reads(1) [OF law q1(2)] by blast
  obtain q3 where q3: "read_i32 P q2 = (Inr i, q3)" "view q3 = hdr @ RI32 c # RCxxStr d # RCxxStr dumped # [RI64 k]"
    using rust_parcel_reads(2) [OF law q2(2)] by blast
  obtain q4 where q4: "view q4 = [RI64 k]" "deserialize_extra utf8 parse P q3 =
     (if \<forall>s \<in> set (flatten w). utf8 s then Inr (Inr \<lparr>r_data = d, r_code = c, r_want = flatten w\<rparr>, q4) else Inl UncaughtException)"
    using deserialize_extra_items [where ?utf8.0 = utf8, OF law assms(2-4) nul assms(6) q3(2)] by blast
  obtain q5 where q5: "read_i64 P q4 = (Inr k, q5)" using rust_parcel_reads(3) [OF law q4(1)] by blast
  consider "\<not> (0 \<le> i \<and> i \<le> 5)" | "0 \<le> i \<and> i \<le> 5" "\<forall>s \<in> set (flatten w). utf8 s" | "0 \<le> i \<and> i \<le> 5" "\<not> (\<forall>s \<in> set (flatten w). utf8 s)"
    by blast
  then show ?thesis
  proof cases
    case 1
    then show ?thesis
      using q1(1) q2(1) reason_id_read [OF q3(1)] by (intro exI [of _ q3]) (simp add: deserialize_reason_def simple_def)
  next
    case 2
    have "deserialize_extra utf8 parse P q3 = Inr (Inr \<lparr>r_data = d, r_code = c, r_want = flatten w\<rparr>, q4)"
      unfolding q4(2) by (rule if_P [OF 2(2)])
    then show ?thesis
      using q1(1) q2(1) q5 2 reason_id_read [OF q3(1)] by (intro exI [of _ q5]) (simp add: deserialize_reason_def simple_def)
  next
    case 3
    have "deserialize_extra utf8 parse P q3 = Inl UncaughtException" unfolding q4(2) by (rule if_not_P [OF 3(2)])
    then show ?thesis
      using q1(1) q2(1) 3 reason_id_read [OF q3(1)] by (simp add: deserialize_reason_def simple_def)
  qed
qed

lemma rust_known_ids: "i \<in> reason_id_value ` (UNIV - {UNREF_EVENT}) \<longleftrightarrow> 0 \<le> i \<and> i \<le> 5"
proof
  assume "0 \<le> i \<and> i \<le> 5"
  then consider "i = 0" | "i = 1" | "i = 2" | "i = 3" | "i = 4" | "i = 5" by linarith
  then show "i \<in> reason_id_value ` (UNIV - {UNREF_EVENT})"
    by cases (auto simp: image_iff intro: bexI [of _ INTERFACE_CALL] bexI [of _ DEVICE_ONLINE] bexI [of _ SETTING_SWITCH]
        bexI [of _ PARAM] bexI [of _ COMMON_EVENT] bexI [of _ TIMED_EVENT])
next
  assume "i \<in> reason_id_value ` (UNIV - {UNREF_EVENT})"
  then obtain x where "x \<noteq> UNREF_EVENT" "i = reason_id_value x" by auto
  then show "0 \<le> i \<and> i \<le> 5" by (cases x) simp_all
qed

section \<open>Properties\<close>

text \<open>
  C33. A reason written to a parcel from Rust and read back, whatever lies in memory behind its strings. If the identifier is not one of the six that
  Rust knows, such as \<open>UNREF_EVENT\<close>, which the C++ side has too, it is written without complaint and refused when it is read. Otherwise
  name, value, identifiers, code and data come back unchanged, and the want list comes back as the keys and values of the map made of its
  pairs, in the order of the keys and with each string read on to the next NUL in memory, or, if one of the strings is then not UTF-8, an
  exception ends the process. A want list that lists a map in key order, without NUL characters, comes back unchanged exactly if a NUL
  happens to follow the buffer of each of its strings; an empty one always does. The data string is UTF-8, as every Rust string; the
  marshalling in between is that of the C++ class, over a parcel that is read in the order it was written.
\<close>

theorem rust_reason_roundtrip:
  assumes "rust_parcel_law P hdr view" and "json_text_law dump parse" and "view p = []"
    and "utf8 (r_data (r_extra_data r))" and "serialize_reason behind dump P r p = Inr (Inr (), q)"
  shows "\<exists>w s. smap_ok w \<and> map_of w = map_of (overread behind (r_want (r_extra_data r)))
     \<and> deserialize_reason utf8 parse P q =
         (if r_reason_id r \<notin> reason_id_value ` (UNIV - {UNREF_EVENT}) then Inr (Inl Failed, s)
          else if \<forall>s \<in> set (flatten w). utf8 s
          then Inr (Inr (r\<lparr>r_extra_data := (r_extra_data r)\<lparr>r_want := flatten w\<rparr>\<rparr>), s)
          else Inl UncaughtException)
     \<and> (\<forall>m. r_want (r_extra_data r) = flatten m \<longrightarrow> smap_ok m \<longrightarrow> (\<forall>s \<in> set (flatten m). NUL \<notin> set s) \<longrightarrow>
          (w = m \<longleftrightarrow> (\<forall>i < 2 * length m. \<exists>t. behind i = NUL # t)))"
proof -
  obtain w dumped where w: "smap_ok w" "map_of w = map_of (overread behind (r_want (r_extra_data r)))"
      "reads_end behind (r_want (r_extra_data r))" "dump (want_json w) = Some dumped"
    and v: "view q = RStr (r_name r) # RStr (r_value r) # RI32 (r_reason_id r) # hdr @ RI32 (r_code (r_extra_data r)) #
         RCxxStr (r_data (r_extra_data r)) # RCxxStr dumped # [RI64 (r_extra_data_id r)]"
    using serialize_reason_items [OF assms(1,3,5)] by blast
  have r: "\<lparr>r_name = r_name r, r_value = r_value r, r_reason_id = r_reason_id r,
      r_extra_data = \<lparr>r_data = r_data (r_extra_data r), r_code = r_code (r_extra_data r), r_want = flatten w\<rparr>,
      r_extra_data_id = r_extra_data_id r\<rparr> = r\<lparr>r_extra_data := (r_extra_data r)\<lparr>r_want := flatten w\<rparr>\<rparr>" by simp
  obtain s where "deserialize_reason utf8 parse P q =
         (if \<not> (0 \<le> r_reason_id r \<and> r_reason_id r \<le> 5) then Inr (Inl Failed, s)
          else if \<forall>s \<in> set (flatten w). utf8 s
          then Inr (Inr (r\<lparr>r_extra_data := (r_extra_data r)\<lparr>r_want := flatten w\<rparr>\<rparr>), s)
          else Inl UncaughtException)"
    using deserialize_reason_items [where ?utf8.0 = utf8, OF assms(1,2) w(1,4) overread_no_NUL [OF w(1,2)] assms(4) v] unfolding r by blast
  moreover have "w = m \<longleftrightarrow> (\<forall>i < 2 * length m. \<exists>t. behind i = NUL # t)"
    if "r_want (r_extra_data r) = flatten m" "smap_ok m" "\<forall>s \<in> set (flatten m). NUL \<notin> set s" for m
    using want_unchanged_iff [OF that(3,2) w(1)] w(2,3) that(1) by simp
  ultimately show ?thesis
    unfolding rust_known_ids using w(1,2) by blast
qed

text \<open>A parcel as the list of its items, with the header that the C++ parcel writes before an object.\<close>

definition item_msg_parcel :: "rust_item list msg_parcel" where
  "item_msg_parcel = \<lparr>write_str = (\<lambda>s p. (Inr (), p @ [RStr s])), write_i32 = (\<lambda>i p. (Inr (), p @ [RI32 i])),
     write_i64 = (\<lambda>i p. (Inr (), p @ [RI64 i])),
     read_str = (\<lambda>p. case p of RStr s # xs \<Rightarrow> (Inr s, xs) | _ \<Rightarrow> (Inl Failed, p)),
     read_i32 = (\<lambda>p. case p of RI32 i # xs \<Rightarrow> (Inr i, xs) | _ \<Rightarrow> (Inl Failed, p)),
     read_i64 = (\<lambda>p. case p of RI64 i # xs \<Rightarrow> (Inr i, xs) | _ \<Rightarrow> (Inl Failed, p)),
     pin_mut = (\<lambda>p. True),
     cxx_parcel = \<lparr>WriteInt32 = (\<lambda>i p. (True, p @ [RI32 i])), WriteString = (\<lambda>s p. (True, p @ [RCxxStr s])),
       ReadInt32 = (\<lambda>p. case p of RI32 i # xs \<Rightarrow> (Some i, xs) | _ \<Rightarrow> (None, p)),
       ReadString = (\<lambda>p. case p of RCxxStr s # xs \<Rightarrow> (Some s, xs) | _ \<Rightarrow> (None, p))\<rparr>,
     write_parcelable = (\<lambda>m p. m (p @ [RI32 1])),
     read_parcelable = (\<lambda>u p. case p of RI32 i # xs \<Rightarrow> (if i = 0 then Inr (None, xs) else u xs) | _ \<Rightarrow> Inr (None, p))\<rparr>"

lemma item_msg_parcel_law: "rust_parcel_law item_msg_parcel [RI32 1] (\<lambda>p. p)"
  by (simp add: rust_parcel_law_def item_msg_parcel_def parcel_queue_def)

definition sample_reason :: rust_reason where
  "sample_reason = \<lparr>r_name = ''n'', r_value = [], r_reason_id = 4,
     r_extra_data = \<lparr>r_data = ''d'', r_code = 7, r_want = [''k'', ''v'']\<rparr>, r_extra_data_id = 1\<rparr>"

theorem rust_reason_roundtrip_witness:
  "\<exists>s. deserialize_reason (\<lambda>_. True) (\<lambda>_. want_json [(''kx'', ''v'')]) item_msg_parcel
     [RStr ''n'', RStr [], RI32 4, RI32 1, RI32 7, RCxxStr ''d'', RCxxStr ''j'', RI64 1] =
     Inr (Inr (sample_reason\<lparr>r_extra_data := \<lparr>r_data = ''d'', r_code = 7, r_want = [''kx'', ''v'']\<rparr>\<rparr>), s)"
proof -
  let ?behind = "\<lambda>i::nat. if i = 0 then [CHR ''x'', NUL] else [NUL]" and ?w = "[(''kx'', ''v'')]"
  let ?dump = "\<lambda>j. if j = want_json ?w then Some ''j'' else None"
  have j: "json_text_law ?dump (\<lambda>_. want_json ?w)" by (simp add: json_text_law_def)
  have o: "overread ?behind (r_want (r_extra_data sample_reason)) = ?w"
    by (simp add: sample_reason_def overread_pair c_string_def NUL_def)
  have s: "serialize_reason ?behind ?dump item_msg_parcel sample_reason [] =
      Inr (Inr (), [RStr ''n'', RStr [], RI32 4, RI32 1, RI32 7, RCxxStr ''d'', RCxxStr ''j'', RI64 1])"
    by (simp add: sample_reason_def serialize_reason_def serialize_reason_id_def serialize_extra_def simple_def item_msg_parcel_def
        SerializeOnDemandReasonExtraData_def raw_string_def c_string_def NUL_def smap_emplace_def smap_find_def
        OnDemandReasonExtraData_def Marshalling_def json_put_def want_json_def)
  from rust_reason_roundtrip [OF item_msg_parcel_law j refl _ s, of "\<lambda>_. True"]
  obtain w t where w: "smap_ok w" "map_of w = map_of ?w" and d: "deserialize_reason (\<lambda>_. True) (\<lambda>_. want_json ?w) item_msg_parcel
      [RStr ''n'', RStr [], RI32 4, RI32 1, RI32 7, RCxxStr ''d'', RCxxStr ''j'', RI64 1] =
      (if r_reason_id sample_reason \<notin> reason_id_value ` (UNIV - {UNREF_EVENT}) then Inr (Inl Failed, t)
       else if \<forall>s \<in> set (flatten w). True
       then Inr (Inr (sample_reason\<lparr>r_extra_data := (r_extra_data sample_reason)\<lparr>r_want := flatten w\<rparr>\<rparr>), t)
       else Inl UncaughtException)"
    unfolding o by blast
  have "w = ?w" using w smap_eqI [of w ?w] by (simp add: smap_ok_def)
  then show ?thesis using d unfolding rust_known_ids by (simp add: sample_reason_def)
qed

text \<open>
  C35. A callback of the framework reaches the Rust ability with its reason unchanged: if the strings of the reason are UTF-8 without
  NUL characters, the method for it that the ability implements is called with the same identifiers, strings, data and code, and \<open>want\<close> gives the
  want map; an ability that implements only the methods without a reason gets these for a start and a stop, and the idle callback of an
  ability that does not implement it allows the idle state. Service commands never reach a Rust ability; they are answered with -1.
\<close>

theorem rust_callbacks_reach_ability:
  assumes "plain_reason utf8 r" and "smap_ok (GetWant (GetExtraData r))"
  shows "deliver utf8 implements body (OnStartReason r) = Inr
       (if implements M_on_start_with_reason then (Some (on_start_with_reason (rust_view r)), body (on_start_with_reason (rust_view r)))
        else if implements M_on_start then (Some on_start, 0) else (None, 0))
     \<and> deliver utf8 implements body (OnStopReason r) = Inr
       (if implements M_on_stop_with_reason then (Some (on_stop_with_reason (rust_view r)), body (on_stop_with_reason (rust_view r)))
        else if implements M_on_stop then (Some on_stop, 0) else (None, 0))
     \<and> deliver utf8 implements body (OnIdle r) = Inr
       (if implements M_on_idle then (Some (on_idle (rust_view r)), body (on_idle (rust_view r))) else (None, 0))
     \<and> deliver utf8 implements body (OnActive r) = Inr
       (if implements M_on_active then (Some (on_active (rust_view r)), body (on_active (rust_view r))) else (None, 0))
     \<and> deliver utf8 implements body (OnSvcCmd fd args) = Inr (None, -1)
     \<and> want (r_extra_data (rust_view r)) = map_of (GetWant (GetExtraData r))"
proof -
  have "want (r_extra_data (rust_view r)) = map_of (GetWant (GetExtraData r))"
    using assms(2) by (simp add: want_def rust_view_def want_flatten)
  then show ?thesis by (simp add: deliver_def with_reason_def BuildReasonWrapper_plain [OF assms(1)] Ability_call_def)
qed

theorem rust_callbacks_reach_ability_witness:
  "deliver (\<lambda>_. True) (\<lambda>m. m = M_on_start) (\<lambda>_. 0) (OnStartReason (SystemAbilityOnDemandReason PARAM ''n'' ''v'' 3)) =
     Inr (Some on_start, 0)"
proof -
  let ?r = "SystemAbilityOnDemandReason PARAM ''n'' ''v'' 3"
  have "plain_reason (\<lambda>_. True) ?r" "smap_ok (GetWant (GetExtraData ?r))"
    by (simp_all add: plain_reason_def plain_def SystemAbilityOnDemandReason_def OnDemandReasonExtraData_default_def NUL_def smap_ok_def)
  from rust_callbacks_reach_ability [OF this, of "\<lambda>m. m = M_on_start" "\<lambda>_. 0" 1 "[]"] show ?thesis by simp
qed

end
