(* ===== verification/Svc_Control.thy ===== *)
theory Svc_Control
  imports Safwk_Prelude
begin

text \<open>
  The command line tool \<open>svc\<close> (\<open>svc/src/svc_control.cpp\<close>, \<open>svc/include/svc_control.h\<close>, \<open>svc/src/main.cpp\<close>), which sends a control
  command to the process of the wifi, bluetooth or nearlink ability.

  The argument vector is a list of optional strings, since its elements may be null pointers, and \<open>None\<close> if it is null itself;
  reading it out of range and using a null element as a string are undefined behaviour. The tool is a process of its own: its
  state is the trace of what it has printed and asked, and \<open>svc_env\<close> answers, for each trace, whether the system ability manager and
  the proxy of a local ability manager are available and what the control command returns. A proxy that was found is taken to be one
  of a local ability manager: \<open>iface_cast\<close>, whose result the code dereferences without a check, is assumed to give an object for it. Log output, which
  includes the joined command line, is left out.
\<close>

section \<open>Data\<close>

datatype SvcCmd = ARGS_CNT_NOT_ENOUGH | ARGS_CNT_EXCEED | ARGS_INVALID | HELP_CMD | WIFI_CMD | BLUETOOTH_CMD | NEARLINK_CMD

fun SvcCmd_value :: "SvcCmd \<Rightarrow> int" where
  "SvcCmd_value ARGS_CNT_NOT_ENOUGH = -4"
| "SvcCmd_value ARGS_CNT_EXCEED = -3"
| "SvcCmd_value ARGS_INVALID = -2"
| "SvcCmd_value HELP_CMD = -1"
| "SvcCmd_value WIFI_CMD = 1120"
| "SvcCmd_value BLUETOOTH_CMD = 1130"
| "SvcCmd_value NEARLINK_CMD = 1190"

lemma SvcCmd_value_inject: "SvcCmd_value c = SvcCmd_value d \<longleftrightarrow> c = d"
  by (cases c; cases d) simp_all

text \<open>Enumerators are ordered by their values.\<close>

instantiation SvcCmd :: linorder
begin

definition less_eq_SvcCmd :: "SvcCmd \<Rightarrow> SvcCmd \<Rightarrow> bool" where
  "less_eq_SvcCmd c d \<longleftrightarrow> SvcCmd_value c \<le> SvcCmd_value d"

definition less_SvcCmd :: "SvcCmd \<Rightarrow> SvcCmd \<Rightarrow> bool" where
  "less_SvcCmd c d \<longleftrightarrow> SvcCmd_value c < SvcCmd_value d"

instance
  by standard (auto simp: less_eq_SvcCmd_def less_SvcCmd_def SvcCmd_value_inject)

end

datatype svc_event =
    S_Print int string
  | S_GetSystemAbilityManager
  | S_GetLocalAbilityManagerProxy int
  | S_LoadSystemAbility int int
  | S_ServiceControlCmd int int "u16string list"

record svc_env =
  svc_samgr :: "svc_event list \<Rightarrow> bool"
  svc_proxy :: "svc_event list \<Rightarrow> bool"
  svc_ret :: "svc_event list \<Rightarrow> int"
  svc_Str8ToStr16 :: "string \<Rightarrow> u16string"
  NO_ERROR :: int

definition ARG_MAX_COUNT :: int where
  "ARG_MAX_COUNT = 64"

definition ARG_MIN_COUNT :: int where
  "ARG_MIN_COUNT = 2"

definition SINGLE_ARG_MAXLEN :: nat where
  "SINGLE_ARG_MAXLEN = 256"

definition TIME_OUT :: int where
  "TIME_OUT = 4"

section \<open>The standard library\<close>

text \<open>The conversion \<open>%d\<close>.\<close>

fun decimal_nat :: "nat \<Rightarrow> string" where
  "decimal_nat n = (if n < 10 then [] else decimal_nat (n div 10)) @ [char_of (48 + n mod 10)]"

declare decimal_nat.simps [simp del]

definition decimal :: "int \<Rightarrow> string" where
  "decimal i = (if i < 0 then ''-'' else []) @ decimal_nat (nat (abs i))"

definition svc_argv_at :: "string option list \<Rightarrow> int \<Rightarrow> ub + string option" where
  "svc_argv_at argv i = (if 0 \<le> i \<and> i < int (length argv) then Inr (argv ! nat i) else Inl BadIterator)"

definition svc_string_at :: "string option list \<Rightarrow> int \<Rightarrow> ub + string" where
  "svc_string_at argv i =
     ub_bind (svc_argv_at argv i) (\<lambda>arg. case arg of None \<Rightarrow> Inl BadIterator | Some s \<Rightarrow> Inr s)"

section \<open>Operations\<close>

definition newline :: string where
  "newline = [char_of (10 :: nat)]"

definition HelpInfo :: "int \<Rightarrow> svc_event list \<Rightarrow> svc_event list" where
  "HelpInfo fd h = h @ [S_Print fd (''svc wifi | bluetooth | nearlink enable | disable | help'' @ newline)]"

definition CmdErrorToString :: "SvcCmd \<Rightarrow> string" where
  "CmdErrorToString cmd =
     (if cmd < ARGS_CNT_NOT_ENOUGH then ''exception error code''
      else case map_of [(ARGS_INVALID, ''argument invalid''), (ARGS_CNT_EXCEED, ''argument's cnt exceed''),
                        (ARGS_CNT_NOT_ENOUGH, ''argument's cnt not enough'')] cmd of
             None \<Rightarrow> [] | Some s \<Rightarrow> s)"

text \<open>The loop over the table of commands; \<open>isEnd\<close> is left as it is when none matches.\<close>

definition svc_options :: "(string \<times> SvcCmd \<times> bool) list" where
  "svc_options = [(''wifi'', WIFI_CMD, False), (''bluetooth'', BLUETOOTH_CMD, False), (''nearlink'', NEARLINK_CMD, False),
                  (''help'', HELP_CMD, True)]"

definition ParseCmd :: "string option list \<Rightarrow> int \<Rightarrow> bool \<Rightarrow> ub + SvcCmd \<times> bool" where
  "ParseCmd argv cnt isEnd =
     ub_bind (svc_string_at argv cnt) (\<lambda>arg.
       Inr (case find (\<lambda>(op, cmd, e). op = arg) svc_options of
              None \<Rightarrow> (ARGS_INVALID, isEnd)
            | Some (op, cmd, e) \<Rightarrow> (cmd, e)))"

text \<open>The loop over the arguments: whether each is a string of 1 to 256 characters.\<close>

fun check_args :: "string option list \<Rightarrow> int list \<Rightarrow> ub + bool" where
  "check_args argv [] = Inr True"
| "check_args argv (i # is) =
     ub_bind (svc_argv_at argv i) (\<lambda>arg.
       case arg of
         None \<Rightarrow> Inr False
       | Some s \<Rightarrow> if length s = 0 then Inr False
                   else if length s > SINGLE_ARG_MAXLEN then Inr False
                   else check_args argv is)"

definition Parse :: "int \<Rightarrow> string option list \<Rightarrow> ub + SvcCmd" where
  "Parse argc argv =
     (if argc < ARG_MIN_COUNT then Inr ARGS_CNT_NOT_ENOUGH
      else if argc > ARG_MAX_COUNT then Inr ARGS_CNT_EXCEED
      else ub_bind (check_args argv [0..argc - 1]) (\<lambda>ok.
        if \<not> ok then Inr ARGS_INVALID
        else let cnt = 1 in
          ub_bind (ParseCmd argv cnt False) (\<lambda>(cmd, isEnd).
            Inr (if cmd = ARGS_INVALID then cmd
                 else if isEnd \<and> argc > cnt + 1 then ARGS_CNT_EXCEED
                 else if \<not> isEnd \<and> argc = cnt + 1 then ARGS_CNT_NOT_ENOUGH
                 else cmd))))"

fun set_args :: "svc_env \<Rightarrow> string option list \<Rightarrow> int list \<Rightarrow> u16string list \<Rightarrow> ub + u16string list" where
  "set_args env argv [] args = Inr args"
| "set_args env argv (i # is) args =
     ub_bind (svc_string_at argv i) (\<lambda>s. set_args env argv is (args @ [svc_Str8ToStr16 env s]))"

definition SetCmdArgs :: "svc_env \<Rightarrow> int \<Rightarrow> string option list \<Rightarrow> ub + u16string list" where
  "SetCmdArgs env argc argv =
     ub_bind (svc_string_at argv 0) (\<lambda>_. ub_bind (svc_string_at argv 1) (\<lambda>_.
       set_args env argv [ARG_MIN_COUNT..argc - 1] []))"

definition Main :: "svc_env \<Rightarrow> int \<Rightarrow> string option list option \<Rightarrow> int \<Rightarrow> svc_event list \<Rightarrow> ub + int \<times> svc_event list" where
  "Main env argc argv outFd h =
     (case argv of
        None \<Rightarrow> Inr (-1, HelpInfo outFd (h @ [S_Print outFd (''argument is null'' @ newline)]))
      | Some argv \<Rightarrow>
          ub_bind (Parse argc argv) (\<lambda>cmd.
            if cmd = HELP_CMD then Inr (0, HelpInfo outFd h)
            else if cmd \<le> ARGS_INVALID
            then Inr (-1, HelpInfo outFd (h @ [S_Print outFd (''parse failed, parse status: '' @ CmdErrorToString cmd @ newline)]))
            else
              let saId = SvcCmd_value cmd;
                  h = h @ [S_GetSystemAbilityManager] in
              if \<not> svc_samgr env h
              then Inr (-1, h @ [S_Print outFd (''get object of system ability manager failed'' @ newline)])
              else
                let h = h @ [S_GetLocalAbilityManagerProxy saId];
                    localObj = svc_proxy env h;
                    h' = (if \<not> localObj then h @ [S_LoadSystemAbility saId TIME_OUT, S_GetLocalAbilityManagerProxy saId] else h);
                    localObj' = (if \<not> localObj then svc_proxy env h' else localObj) in
                if \<not> localObj'
                then Inr (-1, h' @ [S_Print outFd (''get object of local ability manager proxy failed'' @ newline)])
                else ub_bind (SetCmdArgs env argc argv) (\<lambda>args.
                  let h = h' @ [S_ServiceControlCmd outFd saId args];
                      ret = svc_ret env h in
                  Inr (if ret \<noteq> NO_ERROR env
                       then (-1, h @ [S_Print outFd (''set service cmd failed, ret: '' @ decimal ret @ newline)])
                       else (ret, h @ [S_Print outFd (''set service cmd success'' @ newline)])))))"

definition svc_main :: "svc_env \<Rightarrow> int \<Rightarrow> string option list option \<Rightarrow> svc_event list \<Rightarrow> ub + int \<times> svc_event list" where
  "svc_main env argc argv h = Main env argc argv 1 h"

section \<open>What a command line asks for\<close>

definition good_arg :: "string option \<Rightarrow> bool" where
  "good_arg arg \<longleftrightarrow> (\<exists>s. arg = Some s \<and> 0 < length s \<and> length s \<le> 256)"

text \<open>
  The specification: program, device and at least one further argument, at most 64 in all and each of 1 to 256
  characters, ask for the further arguments to be sent to the ability of the device.
\<close>

definition svc_request :: "string option list \<Rightarrow> (int \<times> string list) option" where
  "svc_request argv =
     (if 3 \<le> length argv \<and> length argv \<le> 64 \<and> list_all good_arg argv
      then map_option (\<lambda>saId. (saId, map the (drop 2 argv)))
             (map_of [(''wifi'', 1120), (''bluetooth'', 1130), (''nearlink'', 1190)] (the (argv ! 1)))
      else None)"

definition manager_found :: "svc_env \<Rightarrow> int \<Rightarrow> svc_event list \<Rightarrow> bool" where
  "manager_found env saId h \<longleftrightarrow>
     (let ask = S_GetLocalAbilityManagerProxy saId; h = h @ [S_GetSystemAbilityManager] in
      svc_samgr env h \<and> (svc_proxy env (h @ [ask]) \<or> svc_proxy env (h @ [ask, S_LoadSystemAbility saId 4, ask])))"

fun is_command :: "svc_event \<Rightarrow> bool" where
  "is_command (S_ServiceControlCmd fd saId args) = True"
| "is_command _ = False"

lemma check_args_suffix:
  "argv = pre @ suf \<Longrightarrow> check_args argv [int (length pre)..int (length argv) - 1] = Inr (list_all good_arg suf)"
proof (induction suf arbitrary: pre)
  case (Cons a suf)
  have up: "[int (length pre)..int (length argv) - 1] = int (length pre) # [int (length (pre @ [a]))..int (length argv) - 1]"
    using Cons.prems by (simp add: upto_rec1 add.commute)
  have "check_args argv [int (length (pre @ [a]))..int (length argv) - 1] = Inr (list_all good_arg suf)"
    by (rule Cons.IH) (simp add: Cons.prems)
  moreover have "svc_argv_at argv (int (length pre)) = Inr a" using Cons.prems by (simp add: svc_argv_at_def)
  ultimately show ?case
    unfolding up by (auto simp: good_arg_def [of a] SINGLE_ARG_MAXLEN_def simp del: length_append split: option.split)
qed simp

lemma set_args_suffix:
  "argv = pre @ map Some suf \<Longrightarrow>
     set_args env argv [int (length pre)..int (length argv) - 1] args = Inr (args @ map (svc_Str8ToStr16 env) suf)"
proof (induction suf arbitrary: pre args)
  case (Cons a suf)
  have up: "[int (length pre)..int (length argv) - 1] = int (length pre) # [int (length (pre @ [Some a]))..int (length argv) - 1]"
    using Cons.prems by (simp add: upto_rec1 add.commute)
  have "set_args env argv [int (length (pre @ [Some a]))..int (length argv) - 1] args' = Inr (args' @ map (svc_Str8ToStr16 env) suf)"
    for args' by (rule Cons.IH) (simp add: Cons.prems)
  moreover have "svc_string_at argv (int (length pre)) = Inr a"
    using Cons.prems by (simp add: svc_string_at_def svc_argv_at_def)
  ultimately show ?case unfolding up by (simp del: length_append)
qed simp

lemma good_args_strings: "list_all good_arg argv \<Longrightarrow> argv = map Some (map the argv)"
  by (induction argv) (auto simp: good_arg_def)

lemma SetCmdArgs_eq:
  assumes "list_all good_arg argv" and "2 \<le> length argv"
  shows "SetCmdArgs env (int (length argv)) argv = Inr (map (svc_Str8ToStr16 env) (map the (drop 2 argv)))"
proof -
  obtain a b rest where ab: "argv = a # b # rest" using assms(2) by (cases argv; cases "tl argv") auto
  then have "argv = [a, b] @ map Some (map the rest)" using good_args_strings [OF assms(1)] by simp
  then have "set_args env argv [int (length [a, b])..int (length argv) - 1] [] = Inr ([] @ map (svc_Str8ToStr16 env) (map the rest))"
    by (rule set_args_suffix)
  moreover have "\<exists>s t. a = Some s \<and> b = Some t" using assms(1) ab by (auto simp: good_arg_def)
  ultimately show ?thesis by (auto simp: SetCmdArgs_def ARG_MIN_COUNT_def svc_string_at_def svc_argv_at_def ab)
qed

text \<open>The parser accepts exactly the specified command lines.\<close>

lemma Parse_request:
  "\<exists>cmd. Parse (int (length argv)) argv = Inr cmd \<and>
     (if HELP_CMD < cmd then svc_request argv = Some (SvcCmd_value cmd, map the (drop 2 argv)) else svc_request argv = None)"
proof (cases "2 \<le> length argv \<and> length argv \<le> 64 \<and> list_all good_arg argv")
  case False
  then show ?thesis
    using check_args_suffix [of argv "[]" argv]
    by (auto simp: Parse_def ARG_MIN_COUNT_def ARG_MAX_COUNT_def less_SvcCmd_def svc_request_def)
next
  case True
  obtain a b rest where ab: "argv = a # b # rest" using True by (cases argv; cases "tl argv") auto
  obtain s where b: "b = Some s" using True ab by (auto simp: good_arg_def)
  have c: "check_args argv [0..int (length argv) - 1] = Inr True" using check_args_suffix [of argv "[]" argv] True by simp
  have p: "svc_string_at argv 1 = Inr s" by (simp add: svc_string_at_def svc_argv_at_def ab b)
  have len: "\<not> int (length argv) < ARG_MIN_COUNT" "\<not> int (length argv) > ARG_MAX_COUNT" "(2 < int (length argv)) = (rest \<noteq> [])"
    "(int (length argv) = 2) = (rest = [])" "(3 \<le> length argv) = (rest \<noteq> [])"
    using True by (auto simp: ARG_MIN_COUNT_def ARG_MAX_COUNT_def ab Suc_le_eq)
  have r: "svc_request argv = (if rest \<noteq> [] then map_option (\<lambda>saId. (saId, map the (drop 2 argv)))
      (map_of [(''wifi'', 1120), (''bluetooth'', 1130), (''nearlink'', 1190)] s) else None)"
    unfolding svc_request_def len(5) using True by (simp add: ab b)
  have P: "Parse (int (length argv)) argv =
      (case case find (\<lambda>(op, cmd, e). op = s) svc_options of None \<Rightarrow> (ARGS_INVALID, False) | Some (op, cmd, e) \<Rightarrow> (cmd, e) of
         (cmd, isEnd) \<Rightarrow> Inr (if cmd = ARGS_INVALID then cmd else if isEnd \<and> rest \<noteq> [] then ARGS_CNT_EXCEED
           else if \<not> isEnd \<and> rest = [] then ARGS_CNT_NOT_ENOUGH else cmd))"
    using len(1,2) by (simp only: Parse_def ParseCmd_def c p len if_False ub_bind_simps Let_def one_add_one not_True_eq_False)
  consider "s = ''wifi''" | "s = ''bluetooth''" | "s = ''nearlink''" | "s = ''help''"
    | "s \<noteq> ''wifi'' \<and> s \<noteq> ''bluetooth'' \<and> s \<noteq> ''nearlink'' \<and> s \<noteq> ''help''" by blast
  then show ?thesis
    unfolding P r by cases (auto simp: svc_options_def less_SvcCmd_def)
qed

section \<open>Properties\<close>

text \<open>
  C18. Which command \<open>svc\<close> sends: for every argument vector the run is defined, and the control commands it sends are one command
  with the further arguments, to the ability of the device, if the command line asks for it and the system ability manager finds the
  local ability manager of that ability (after loading it if need be), and none otherwise.
\<close>

theorem svc_commands_sent:
  assumes "argc = int (length argv)"
  shows "\<exists>ret new. Main env argc (Some argv) fd h = Inr (ret, h @ new) \<and>
     filter is_command new =
       (case svc_request argv of
          None \<Rightarrow> []
        | Some (saId, args) \<Rightarrow>
            if manager_found env saId h then [S_ServiceControlCmd fd saId (map (svc_Str8ToStr16 env) args)] else [])"
proof -
  obtain cmd where P: "Parse argc argv = Inr cmd"
    and R: "if HELP_CMD < cmd then svc_request argv = Some (SvcCmd_value cmd, map the (drop 2 argv)) else svc_request argv = None"
    using Parse_request [of argv] assms by blast
  show ?thesis
  proof (cases "HELP_CMD < cmd")
    case False
    then have "cmd = HELP_CMD \<or> cmd \<le> ARGS_INVALID" by (cases cmd) (simp_all add: less_SvcCmd_def less_eq_SvcCmd_def)
    then show ?thesis using P R False by (auto simp: Main_def HelpInfo_def less_SvcCmd_def less_eq_SvcCmd_def)
  next
    case True
    then have g: "list_all good_arg argv" "2 \<le> length argv" using R by (auto simp: svc_request_def split: if_splits)
    have "\<not> cmd \<le> ARGS_INVALID" "cmd \<noteq> HELP_CMD" using True by (cases cmd; simp add: less_SvcCmd_def less_eq_SvcCmd_def)+
    then show ?thesis
      using P R True SetCmdArgs_eq [OF g] assms
      by (simp add: Main_def manager_found_def Let_def TIME_OUT_def)
  qed
qed

definition svc_demo_env :: svc_env where
  "svc_demo_env = \<lparr>svc_samgr = (\<lambda>_. True), svc_proxy = (\<lambda>h. S_LoadSystemAbility 1120 4 \<in> set h), svc_ret = (\<lambda>_. 0),
     svc_Str8ToStr16 = map (\<lambda>c. of_char c), NO_ERROR = 0\<rparr>"

theorem svc_commands_sent_witness:
  "\<exists>ret new. Main svc_demo_env 3 (Some [Some ''svc'', Some ''wifi'', Some ''on'']) 1 [] = Inr (ret, new)
     \<and> filter is_command new = [S_ServiceControlCmd 1 1120 [[111, 110]]]"
proof -
  have r: "svc_request [Some ''svc'', Some ''wifi'', Some ''on''] = Some (1120, [''on''])"
    by (simp add: svc_request_def good_arg_def)
  have m: "manager_found svc_demo_env 1120 []" by (simp add: manager_found_def svc_demo_env_def Let_def)
  have e: "svc_Str8ToStr16 svc_demo_env ''on'' = [111, 110]" by (simp add: svc_demo_env_def)
  show ?thesis
    using svc_commands_sent [of 3 "[Some ''svc'', Some ''wifi'', Some ''on'']" svc_demo_env 1 "[]"] by (simp add: r m e)
qed

end
