(* ===== verification/Spec2Isabelle.thy ===== *)
theory Spec2Isabelle
  imports Api_Cache_Heap Lam_Process Lam_Phases Lam_Exit Lam_Pool Lam_Requests Rust_Library Svc_Control
begin

text \<open>
  Verification of the system ability framework \<open>safwk\<close> (C++, under \<open>src/\<close>).

  \<^bold>\<open>The program.\<close> A process that hosts system abilities is started by \<open>main\<close> (\<open>services/safwk/src/main.cpp\<close>) or \<open>StartSA\<close>
  (\<open>system_ability_start.cpp\<close>), which parse the arguments and hand a profile path and an ability identifier to the singleton
  \<open>LocalAbilityManager\<close> (\<open>local_ability_manager.cpp\<close>). The manager loads the libraries of the profile, whose static initialisers register
  objects of subclasses of \<open>SystemAbility\<close> (\<open>system_ability.cpp\<close>) with it; it starts them phase by phase on a thread pool after
  waiting for their dependencies, registers the others as available on demand, and then serves requests: start, stop, idle and activate an
  ability, tell abilities about the arrival and removal of others, unload those not used for a while, and collect statistics
  (\<open>local_ability_manager_dumper.cpp\<close>, \<open>ffrt_handler.cpp\<close>). Requests come in through the remote stub
  (\<open>local_ability_manager_stub.cpp\<close>) with the reason for which they are made (\<open>system_ability_ondemand_reason.cpp\<close>). Clients can cache replies of
  remote interfaces (\<open>expire_lru_cache.h\<close>, \<open>api_cache_manager.cpp\<close>). Abilities written in Rust are wrapped by
  \<open>system_ability_wrapper.cpp\<close>, and the command line tool \<open>svc\<close> (\<open>svc_control.cpp\<close>) sends control commands to three of them.

  \<^bold>\<open>The theories.\<close>
  \<^item> \<open>Safwk_Prelude\<close>: machine integers, undefined behaviour as a value, \<open>std::map\<close> as an ordered list with its contract (locale
    \<open>ordered_map\<close>), clocks.
  \<^item> \<open>Expire_Lru_Cache\<close>: the template \<open>ExpireLruCache\<close>; \<open>cache\<close> has its data members, \<open>DoAdd\<close>, \<open>DoGet\<close>, \<open>DoRemove\<close>, \<open>DoClear\<close> are its
    operations. They refine an abstract cache (a recency list with time stamps), never run into undefined behaviour, and a hit returns
    the last value written.
  \<^item> \<open>Api_Cache_Manager\<close>: the map of caches per interface and code; a reply stored after a request is the reply to the next equal request,
    interfaces do not disturb each other, and a cached empty reply is undefined on a hit.
  \<^item> \<open>Api_Cache_Heap\<close>: the same manager with its caches behind raw pointers in a store, the instance and its destructor; it refines the
    manager by value, uses and deletes only allocated caches and leaves none behind.
  \<^item> \<open>OnDemand_Reason\<close>: reasons and extra data, JSON, marshalling and its round trip.
  \<^item> \<open>Safwk_State\<close>: the record \<open>proc\<close> with the members of the manager, the heap of abilities, the queued tasks, the detached threads
    and the trace of interactions with the outside; \<open>env\<close>, the outside.
  \<^item> \<open>System_Ability\<close>: the class \<open>SystemAbility\<close>, its lifecycle (\<open>Start\<close>, \<open>Idle\<close>, \<open>Active\<close>, \<open>Stop\<close>, \<open>Publish\<close>) and the locales for invariants of the process.
  \<^item> \<open>Lam_Abilities\<close>, \<open>Lam_Listeners\<close>, \<open>Lam_Unused\<close>, \<open>Lam_Boot\<close>: the parts of \<open>LocalAbilityManager\<close>: registry and requests; status listeners;
    unloading of unused abilities; start of the process. Each part states its invariant and shows what its operations do on
    every branch; listeners refine an abstract protocol, and the dependency wait ends with the first poll that
    finds everything there or at the timeout.
  \<^item> \<open>Lam_Dumper\<close>, \<open>Lam_Stub\<close>: statistics and the remote stub with its permission checks, replies and descriptors.
  \<^item> \<open>Safwk_Main\<close>: both entries of a process. They implement one specification of the argument vector (\<open>launch\<close>).
  \<^item> \<open>Lam_Process\<close>: the step relation over all entry points, reachable states, and that all invariants hold there although callbacks and
    other threads re-enter the framework; the members of the manager keep the types that the code relies on.
  \<^item> \<open>Lam_Requests\<close>: a start and a stop request from the wire to the callback of the ability.
  \<^item> \<open>Lam_Launch\<close>: from the event on the command line to the call of \<open>OnStart\<close> with that reason.
  \<^item> \<open>Lam_Phases\<close>: the default start of a process: the abilities are started phase by phase, each at most once, those without dependencies exactly once.
  \<^item> \<open>Lam_Exit\<close>: the failures of the start: it reports and has started nothing, or the process is registered first.
  \<^item> \<open>Lam_Pool\<close>: the main thread and the workers of a phase as interleaved threads with the lock, the condition variable and the limit of
    the pool. A phase with at most as many abilities as workers and queue hold completes without losing a wake-up; a larger one can deadlock.
  \<^item> \<open>Rust_Wrapper\<close>, \<open>Rust_Library\<close>: the C++ and the Rust side of the bindings; a reason reaches the method that
    the ability implements unchanged; one that is written from Rust comes back, through the marshalling of the C++ class, with the strings of
    its want list read on to the next NUL in memory, and only if Rust knows its identifier.
  \<^item> \<open>Svc_Control\<close>: the command line tool.

  \<^bold>\<open>Correspondence.\<close> A definition has the name of the function it models; members \<open>x_\<close> are fields \<open>xM\<close>. A loop is a recursive function of its own
  where it is not a fold. Signed integers are \<open>int\<close> with the wrap-around written out where it can occur, unsigned ones words.
  Undefined behaviour and uncaught exceptions are the left summand of \<open>ub + 'a\<close>. Everything not under \<open>src/\<close> (the system ability manager, the
  profile parser, IPC, FFRT, the JSON text parser, the utility and C libraries beyond the standard ones) is an argument: most of it is
  \<open>env\<close>, whose answers may depend on the whole trace, and \<open>interfere\<close> is what foreign code that runs inside the process, or another
  thread that runs while the modelled one sleeps or waits, does to the state. Theorems name what they rely on of it, for example
  a clock that respects sleeps (\<open>steady_clock\<close>) or callbacks that act only through the entry points (\<open>tame\<close>).

  \<^bold>\<open>Loops and fuel.\<close> The wait for dependencies is the one loop whose length depends on the outside; it has fuel, and 1201 rounds are enough since a
  timeout is at most 60000 ms and a round sleeps 50 ms. The polling loops for the manager (51 polls) and for a registered ability
  (10 polls) are bounded by their counters. The order in which the tasks of the pool finish is a schedule that the environment chooses, and a
  wait that the schedule does not finish is one that times out.

  \<^bold>\<open>Not modelled.\<close> Mutexes (an operation under a lock is one step; operations that release it between steps are split there, as in \<open>Idle\<close> and
  \<open>Stop\<close>, and foreign code may run in between; the lock of the phases, which is held while the main thread may block, is in \<open>Lam_Pool\<close>); tracing, the watchdog, duration reports and
  thread priorities; clock readings and strings that only reach a log line; the glue that \<open>cxx\<close> generates for the Rust bindings; the
  logging and singleton macros; the build files, profiles and tests.
\<close>

end
